(* ===== verification/Prelude.thy ===== *)
theory Prelude
  imports Main "HOL-Library.Word"
begin

text \<open>
  The prelude of the development. It holds the machine integers of the code (\<open>u64\<close> is a
  64-bit word, so a sum that leaves the range is visible), the result type of the fallible
  Rust functions (\<open>error + value\<close>) with the \<open>?\<close> operator and \<open>ensure!\<close>, the generic lemmas
  on words, maps and association lists that the components share, and two locales for machines
  that run a sequence of operations: \<open>invariant_machine\<close> (every operation keeps an invariant)
  and \<open>monotone_machine\<close> (no operation moves a quantity backwards). Each component with state
  interprets them on its own step function.
\<close>

named_theorems result_simps \<comment> \<open>evaluation of the result combinators\<close>

section \<open>Machine integers\<close>

type_synonym u64 = "64 word"

definition u64_max :: u64 where
  "u64_max = - 1"

text \<open>\<open>u64::checked_add\<close>: \<open>None\<close> on overflow.\<close>

definition checked_add :: "u64 \<Rightarrow> u64 \<Rightarrow> u64 option" where
  "checked_add a b = (if unat a + unat b < 2 ^ 64 then Some (a + b) else None)"

text \<open>\<open>u64::checked_sub\<close>: \<open>None\<close> on underflow.\<close>

definition checked_sub :: "u64 \<Rightarrow> u64 \<Rightarrow> u64 option" where
  "checked_sub a b = (if b \<le> a then Some (a - b) else None)"

text \<open>\<open>u64::saturating_add\<close>.\<close>

definition saturating_add :: "u64 \<Rightarrow> u64 \<Rightarrow> u64" where
  "saturating_add a b = (if unat a + unat b < 2 ^ 64 then a + b else u64_max)"

lemma unat_lt_u64: "unat (a :: u64) < 18446744073709551616"
  using unsigned_less [of a] by simp

lemma checked_add_Some: "checked_add a b = Some c \<Longrightarrow> unat c = unat a + unat b"
  by (auto simp: checked_add_def unat_word_ariths split: if_splits)

lemma checked_add_None: "checked_add a b = None \<longleftrightarrow> 2 ^ 64 \<le> unat a + unat b"
  by (auto simp: checked_add_def)

lemma checked_add_code [code]: "checked_add a b = (if a \<le> a + b then Some (a + b) else None)"
proof -
  have "a \<le> a + b \<longleftrightarrow> unat a + unat b < 2 ^ 64"
    using unat_lt_u64 [of a] unat_lt_u64 [of b]
    by (cases "unat a + unat b < 2 ^ 64")
      (auto simp: word_le_nat_alt unat_word_ariths mod_if)
  then show ?thesis by (simp add: checked_add_def)
qed

lemma checked_sub_Some: "checked_sub a b = Some c \<Longrightarrow> unat c = unat a - unat b \<and> b \<le> a"
  by (auto simp: checked_sub_def unat_sub split: if_splits)

lemma checked_add_one_Some:
  "checked_add a 1 = Some c \<longleftrightarrow> a \<noteq> u64_max \<and> c = a + 1"
proof -
  have "a = u64_max \<longleftrightarrow> unat a = 2 ^ 64 - 1"
    unfolding u64_max_def by (simp add: word_unat_eq_iff unsigned_minus_1_eq_mask mask_eq_exp_minus_1)
  then have "unat a + 1 < 2 ^ 64 \<longleftrightarrow> a \<noteq> u64_max"
    using unat_lt_u64 [of a] by auto
  then show ?thesis by (auto simp: checked_add_def)
qed

lemma unat_plus_one: "a \<noteq> u64_max \<Longrightarrow> unat (a + 1) = unat a + 1"
  using checked_add_Some [of a 1 "a + 1"] checked_add_one_Some by auto

lemma checked_add_one_measure: "checked_add a 1 = Some c \<Longrightarrow> 2 ^ 64 - unat c < 2 ^ 64 - unat a"
  using unat_lt_u64 [of a] by (auto simp: checked_add_one_Some unat_plus_one)

lemma u64_le_max [simp]: "a \<le> u64_max"
  by (simp add: u64_max_def)

section \<open>Results\<close>

text \<open>
  A Rust \<open>Result<T, E>\<close> is \<open>'e + 't\<close>, the error on the left. \<open>bind_res\<close> is the \<open>?\<close> operator,
  \<open>map_err\<close> is \<open>Result::map_err\<close>, \<open>ensure\<close> is the \<open>ensure!\<close> macro followed by the rest of the
  function.
\<close>

definition bind_res :: "'e + 'a \<Rightarrow> ('a \<Rightarrow> 'e + 'b) \<Rightarrow> 'e + 'b" where
  "bind_res r k = (case r of Inl e \<Rightarrow> Inl e | Inr x \<Rightarrow> k x)"

definition map_err :: "('e \<Rightarrow> 'f) \<Rightarrow> 'e + 'a \<Rightarrow> 'f + 'a" where
  "map_err f r = (case r of Inl e \<Rightarrow> Inl (f e) | Inr x \<Rightarrow> Inr x)"

definition ensure :: "bool \<Rightarrow> 'e \<Rightarrow> 'e + 'a \<Rightarrow> 'e + 'a" where
  "ensure b e k = (if b then k else Inl e)"

definition ok_or :: "'e \<Rightarrow> 'a option \<Rightarrow> 'e + 'a" where
  "ok_or e x = (case x of None \<Rightarrow> Inl e | Some y \<Rightarrow> Inr y)"

definition is_ok :: "'e + 'a \<Rightarrow> bool" where
  "is_ok r = (case r of Inl _ \<Rightarrow> False | Inr _ \<Rightarrow> True)"

lemma bind_res_simps [simp, result_simps]:
  "bind_res (Inl e) k = Inl e"
  "bind_res (Inr x) k = k x"
  by (simp_all add: bind_res_def)

lemma map_err_simps [simp, result_simps]:
  "map_err f (Inl e) = Inl (f e)"
  "map_err f (Inr x) = Inr x"
  by (simp_all add: map_err_def)

lemma ok_or_simps [simp, result_simps]:
  "ok_or e None = Inl e"
  "ok_or e (Some x) = Inr x"
  by (simp_all add: ok_or_def)

lemma is_ok_simps [simp, result_simps]:
  "is_ok (Inl e) = False"
  "is_ok (Inr x) = True"
  by (simp_all add: is_ok_def)

lemma ensure_simps [simp, result_simps]:
  "ensure True e k = k"
  "ensure False e k = Inl e"
  by (simp_all add: ensure_def)

text \<open>Inversion: what a successful run says about its parts.\<close>

lemma bind_res_Inr [simp]: "bind_res r k = Inr y \<longleftrightarrow> (\<exists>x. r = Inr x \<and> k x = Inr y)"
  by (cases r) auto

lemma map_err_Inr [simp]: "map_err f r = Inr y \<longleftrightarrow> r = Inr y"
  by (cases r) auto

lemma ensure_Inr [simp]: "ensure b e k = Inr y \<longleftrightarrow> b \<and> k = Inr y"
  by (cases b) auto

lemma ok_or_Inr [simp]: "ok_or e x = Inr y \<longleftrightarrow> x = Some y"
  by (cases x) auto

lemma is_ok_iff: "is_ok r \<longleftrightarrow> (\<exists>x. r = Inr x)"
  by (cases r) auto

section \<open>Maps with an iteration order\<close>

text \<open>
  A \<open>HashMap\<close> whose entries the code counts or iterates is an association list with one binding
  per key; \<open>al_insert\<close> is \<open>insert\<close>. A \<open>BTreeMap\<close> is an association list sorted by key;
  \<open>bt_insert\<close> is \<open>insert\<close>, \<open>bt_or_insert\<close> is \<open>entry(k).or_insert(v)\<close>.
\<close>

fun al_insert :: "'k \<Rightarrow> 'v \<Rightarrow> ('k \<times> 'v) list \<Rightarrow> ('k \<times> 'v) list" where
  "al_insert k v [] = [(k, v)]"
| "al_insert k v ((k', v') # xs) = (if k' = k then (k, v) # xs else (k', v') # al_insert k v xs)"

fun bt_insert :: "'k :: linorder \<Rightarrow> 'v \<Rightarrow> ('k \<times> 'v) list \<Rightarrow> ('k \<times> 'v) list" where
  "bt_insert k v [] = [(k, v)]"
| "bt_insert k v ((k', v') # xs) =
     (if k < k' then (k, v) # (k', v') # xs
      else if k = k' then (k, v) # xs
      else (k', v') # bt_insert k v xs)"

definition bt_or_insert :: "'k :: linorder \<Rightarrow> 'v \<Rightarrow> ('k \<times> 'v) list \<Rightarrow> ('k \<times> 'v) list" where
  "bt_or_insert k v xs = (case map_of xs k of None \<Rightarrow> bt_insert k v xs | Some _ \<Rightarrow> xs)"

lemma map_of_al_insert [simp]: "map_of (al_insert k v xs) = (map_of xs)(k \<mapsto> v)"
  by (induction k v xs rule: al_insert.induct) auto

lemma keys_al_insert [simp]: "fst ` set (al_insert k v xs) = insert k (fst ` set xs)"
  by (induction k v xs rule: al_insert.induct) auto

lemma distinct_al_insert: "distinct (map fst xs) \<Longrightarrow> distinct (map fst (al_insert k v xs))"
proof (induction k v xs rule: al_insert.induct)
  case (2 k v k' v' xs)
  have "k' \<notin> fst ` set (al_insert k v xs)" if "k' \<noteq> k"
    using that "2.prems" by simp
  with 2 show ?case by auto
qed simp

lemma length_al_insert:
  "length (al_insert k v xs) = (if k \<in> fst ` set xs then length xs else Suc (length xs))"
  by (induction k v xs rule: al_insert.induct) auto

lemma keys_bt_insert [simp]: "fst ` set (bt_insert k v xs) = insert k (fst ` set xs)"
  by (induction k v xs rule: bt_insert.induct) auto

lemma sorted_bt_insert:
  "sorted_wrt (<) (map fst xs) \<Longrightarrow> sorted_wrt (<) (map fst (bt_insert k v xs))"
proof (induction k v xs rule: bt_insert.induct)
  case (2 k v k' v' xs)
  have "\<forall>x \<in> fst ` set (bt_insert k v xs). k' < x" if "k' < k"
    using that "2.prems" by simp
  with 2 show ?case by (fastforce dest: order.strict_trans)
qed simp

lemma map_of_bt_insert:
  "sorted_wrt (<) (map fst xs) \<Longrightarrow> map_of (bt_insert k v xs) = (map_of xs)(k \<mapsto> v)"
proof (induction k v xs rule: bt_insert.induct)
  case (2 k v k' v' xs)
  then show ?case by (auto simp: fun_eq_iff)
qed simp

lemma set_bt_insert_fresh:
  "k \<notin> fst ` set xs \<Longrightarrow> set (bt_insert k v xs) = insert (k, v) (set xs)"
  by (induction k v xs rule: bt_insert.induct) (auto simp: insert_commute)

lemma bt_or_insert_fresh: "k \<notin> fst ` set xs \<Longrightarrow> bt_or_insert k v xs = bt_insert k v xs"
  using map_of_eq_None_iff [of xs k] by (simp add: bt_or_insert_def)

lemma keys_bt_or_insert [simp]: "fst ` set (bt_or_insert k v xs) = insert k (fst ` set xs)"
  by (auto simp: bt_or_insert_def split: option.split dest!: map_of_SomeD intro: rev_image_eqI)

lemma sorted_bt_or_insert:
  "sorted_wrt (<) (map fst xs) \<Longrightarrow> sorted_wrt (<) (map fst (bt_or_insert k v xs))"
  by (auto simp: bt_or_insert_def sorted_bt_insert split: option.split)

text \<open>\<open>Iterator::max\<close>: \<open>None\<close> on an empty iterator.\<close>

definition list_max :: "'a :: linorder list \<Rightarrow> 'a option" where
  "list_max xs = (case xs of [] \<Rightarrow> None | x # ys \<Rightarrow> Some (fold max ys x))"

lemma list_max_Some: "list_max xs = Some m \<longleftrightarrow> xs \<noteq> [] \<and> m = Max (set xs)"
  by (cases xs) (auto simp: list_max_def Max.set_eq_fold simp flip: list.set)

section \<open>Machines\<close>

text \<open>
  A component with state is run by a sequence of operations. \<open>run_ops step s ops\<close> applies them
  in order. Every operation of the code is one constructor of the component's operation type,
  so a statement about all sequences is a statement about every order the callers can produce.
\<close>

fun run_ops :: "('s \<Rightarrow> 'op \<Rightarrow> 's) \<Rightarrow> 's \<Rightarrow> 'op list \<Rightarrow> 's" where
  "run_ops step s [] = s"
| "run_ops step s (x # xs) = run_ops step (step s x) xs"

lemma run_ops_append: "run_ops step s (xs @ ys) = run_ops step (run_ops step s xs) ys"
  by (induction xs arbitrary: s) auto

locale invariant_machine =
  fixes step :: "'s \<Rightarrow> 'op \<Rightarrow> 's" and inv :: "'s \<Rightarrow> bool"
  assumes step_inv: "inv s \<Longrightarrow> inv (step s x)"
begin

lemma run_inv: "inv s \<Longrightarrow> inv (run_ops step s xs)"
  by (induction xs arbitrary: s) (auto intro: step_inv)

end

text \<open>
  A machine that never goes back: along its runs the state only grows in \<open>le\<close>, a reflexive and
  transitive relation, as long as the invariant holds.
\<close>

locale monotone_machine = invariant_machine step inv
  for step :: "'s \<Rightarrow> 'op \<Rightarrow> 's" and inv :: "'s \<Rightarrow> bool" +
  fixes le :: "'s \<Rightarrow> 's \<Rightarrow> bool"
  assumes le_refl: "le s s"
    and le_trans: "le s t \<Longrightarrow> le t u \<Longrightarrow> le s u"
    and step_mono: "inv s \<Longrightarrow> le s (step s x)"
begin

lemma run_mono: "inv s \<Longrightarrow> le s (run_ops step s xs)"
proof (induction xs arbitrary: s)
  case Nil
  show ?case by (simp add: le_refl)
next
  case (Cons x xs)
  have "le s (step s x)" by (rule step_mono [OF Cons.prems])
  moreover have "le (step s x) (run_ops step (step s x) xs)"
    by (rule Cons.IH [OF step_inv [OF Cons.prems]])
  ultimately show ?case by (simp add: le_trans)
qed

lemma run_mono_prefix: "inv s \<Longrightarrow> le (run_ops step s xs) (run_ops step s (xs @ ys))"
  by (simp add: run_ops_append run_mono run_inv)

end

section \<open>Fallible operations with state\<close>

text \<open>
  A method on \<open>&mut self\<close> that returns a \<open>Result\<close>: from a state, a result and the state it
  leaves, also when it fails. \<open>bind_op\<close> is the \<open>?\<close> operator. \<open>wp m Q E s\<close> says that the run of
  \<open>m\<close> from \<open>s\<close> ends in \<open>Q\<close> (of its value and state) if it succeeds and in \<open>E\<close> if it fails.
\<close>

type_synonym ('s, 'e, 'a) op = "'s \<Rightarrow> ('e + 'a) \<times> 's"

definition ret :: "'a \<Rightarrow> ('s, 'e, 'a) op" where
  "ret x s = (Inr x, s)"

definition throw :: "'e \<Rightarrow> ('s, 'e, 'a) op" where
  "throw e s = (Inl e, s)"

definition bind_op :: "('s, 'e, 'a) op \<Rightarrow> ('a \<Rightarrow> ('s, 'e, 'b) op) \<Rightarrow> ('s, 'e, 'b) op" where
  "bind_op m k s = (case m s of (Inl e, s') \<Rightarrow> (Inl e, s') | (Inr x, s') \<Rightarrow> k x s')"

definition of_res :: "'e + 'a \<Rightarrow> ('s, 'e, 'a) op" where
  "of_res r s = (r, s)"

definition read_op :: "('s \<Rightarrow> 'e + 'a) \<Rightarrow> ('s, 'e, 'a) op" where
  "read_op f s = (f s, s)"

definition wp :: "('s, 'e, 'a) op \<Rightarrow> ('a \<Rightarrow> 's \<Rightarrow> bool) \<Rightarrow> ('e \<Rightarrow> 's \<Rightarrow> bool) \<Rightarrow> 's \<Rightarrow> bool" where
  "wp m Q E s = (case m s of (Inl e, s') \<Rightarrow> E e s' | (Inr x, s') \<Rightarrow> Q x s')"

lemma wp_bind [simp]: "wp (bind_op m k) Q E s = wp m (\<lambda>x. wp (k x) Q E) E s"
  by (simp add: wp_def bind_op_def split: prod.split sum.split)

lemma wp_ret [simp]: "wp (ret x) Q E s = Q x s"
  by (simp add: wp_def ret_def)

lemma wp_throw [simp]: "wp (throw e) Q E s = E e s"
  by (simp add: wp_def throw_def)

lemma wp_of_res [simp]:
  "wp (of_res r) Q E s \<longleftrightarrow> (\<forall>e. r = Inl e \<longrightarrow> E e s) \<and> (\<forall>x. r = Inr x \<longrightarrow> Q x s)"
  by (cases r) (simp_all add: wp_def of_res_def)

lemma wp_read_op [simp]:
  "wp (read_op f) Q E s \<longleftrightarrow> (\<forall>e. f s = Inl e \<longrightarrow> E e s) \<and> (\<forall>x. f s = Inr x \<longrightarrow> Q x s)"
  by (cases "f s") (simp_all add: wp_def read_op_def)

lemma wp_okD: "wp m Q E s \<Longrightarrow> m s = (Inr x, s') \<Longrightarrow> Q x s'"
  by (simp add: wp_def)

lemma wp_errD: "wp m Q E s \<Longrightarrow> m s = (Inl e, s') \<Longrightarrow> E e s'"
  by (simp add: wp_def)

lemma wp_snd: "wp m (\<lambda>_. P) (\<lambda>_. P) s \<Longrightarrow> P (snd (m s))"
  by (simp add: wp_def split: prod.splits sum.splits)

lemma wp_mono:
  "wp m Q E s \<Longrightarrow> (\<And>x s'. Q x s' \<Longrightarrow> Q' x s') \<Longrightarrow> (\<And>e s'. E e s' \<Longrightarrow> E' e s') \<Longrightarrow> wp m Q' E' s"
  by (simp add: wp_def split: prod.splits sum.splits)

end
