(* ===== verification/Data_Types.thy ===== *)
theory Data_Types
  imports Prelude
begin

text \<open>
  The data of the consensus protocol: every struct and enum of
  \<open>aptos-core/consensus/consensus-types/src\<close> that the modelled operations read or build.

  The first section holds the carriers of the types that the code imports from the crate
  \<open>laptos\<close> (not in this repository). Identifiers that the code only compares (hashes, account
  addresses, signatures, transactions) are natural numbers. \<open>BlockInfo\<close>, \<open>LedgerInfo\<close>,
  \<open>LedgerInfoWithSignatures\<close>, \<open>EpochState\<close> and \<open>EpochBlockInfo\<close> are records of the values that
  this repository passes to their constructors and reads back through their getters; no other
  behaviour of them is defined here (theory \<open>External_Interface\<close> takes it as parameters).
\<close>

section \<open>Carriers of laptos values\<close>

type_synonym round = u64
type_synonym hash_value = nat
type_synonym author = nat
type_synonym signature = nat
type_synonym agg_sig = nat
type_synonym validator_verifier = nat
type_synonym signed_txn = nat
type_synonym validator_txn = nat
type_synonym bit_vec = nat
type_synonym u128 = "128 word"

record epoch_state =
  es_epoch :: u64
  es_verifier :: validator_verifier

record epoch_block_info =
  ebi_block_id :: hash_value
  ebi_block_number :: u64
  ebi_epoch_start_round :: round
  ebi_epoch_start_timestamp_usecs :: u64
  ebi_block_hash :: hash_value

record block_info =
  bi_epoch :: u64
  bi_round :: round
  bi_id :: hash_value
  bi_executed_state_id :: hash_value
  bi_version :: u64
  bi_timestamp_usecs :: u64
  bi_next_epoch_state :: "epoch_state option"
  bi_epoch_block_info :: "epoch_block_info option"

text \<open>\<open>BlockInfo::new\<close> takes the first seven fields.\<close>

definition block_info_new ::
  "u64 \<Rightarrow> round \<Rightarrow> hash_value \<Rightarrow> hash_value \<Rightarrow> u64 \<Rightarrow> u64 \<Rightarrow> epoch_state option \<Rightarrow> block_info" where
  "block_info_new e r i x v t n =
     \<lparr>bi_epoch = e, bi_round = r, bi_id = i, bi_executed_state_id = x, bi_version = v,
      bi_timestamp_usecs = t, bi_next_epoch_state = n, bi_epoch_block_info = None\<rparr>"

lemma block_info_new_simps [simp]:
  "bi_epoch (block_info_new e r i x v t n) = e"
  "bi_round (block_info_new e r i x v t n) = r"
  "bi_id (block_info_new e r i x v t n) = i"
  "bi_executed_state_id (block_info_new e r i x v t n) = x"
  "bi_version (block_info_new e r i x v t n) = v"
  "bi_timestamp_usecs (block_info_new e r i x v t n) = t"
  "bi_next_epoch_state (block_info_new e r i x v t n) = n"
  by (simp_all add: block_info_new_def)

text \<open>
  \<open>LedgerInfo::new\<close> takes the first two fields and leaves the third one \<open>None\<close>;
  \<open>LedgerInfo::new_with_block_info\<close> takes the hash and the number of the executed block too.
\<close>

record ledger_info =
  li_commit_info :: block_info
  li_consensus_data_hash :: hash_value
  li_block :: "(hash_value \<times> u64) option"

definition new_with_block_info :: "block_info \<Rightarrow> hash_value \<Rightarrow> hash_value \<Rightarrow> u64 \<Rightarrow> ledger_info" where
  "new_with_block_info commit_info consensus_data_hash block_hash block_number =
     \<lparr>li_commit_info = commit_info, li_consensus_data_hash = consensus_data_hash,
      li_block = Some (block_hash, block_number)\<rparr>"

record li_with_sigs =
  lws_ledger_info :: ledger_info
  lws_signatures :: agg_sig

record waypoint =
  wp_version :: u64
  wp_value :: hash_value

text \<open>\<open>LedgerInfoWithVerifiedSignatures\<close>: a ledger info and the signatures collected so far.\<close>

type_synonym partial_sigs = "(author \<times> signature) list"

record li_verified =
  lv_ledger_info :: ledger_info
  lv_signatures :: partial_sigs

datatype verify_error =
    TooLittleVotingPower u128
  | EmptySignature
  | UnknownAuthorError
  | OtherVerifyError nat

section \<open>Votes and certificates\<close>

text \<open>vote\_data.rs\<close>

record vote_data =
  vd_proposed :: block_info
  vd_parent :: block_info

text \<open>quorum\_cert.rs\<close>

record quorum_cert =
  qc_vote_data :: vote_data
  qc_signed_ledger_info :: li_with_sigs

definition certified_block :: "quorum_cert \<Rightarrow> block_info" where
  "certified_block qc = vd_proposed (qc_vote_data qc)"

definition parent_block :: "quorum_cert \<Rightarrow> block_info" where
  "parent_block qc = vd_parent (qc_vote_data qc)"

definition qc_commit_info :: "quorum_cert \<Rightarrow> block_info" where
  "qc_commit_info qc = li_commit_info (lws_ledger_info (qc_signed_ledger_info qc))"

text \<open>timeout\_2chain.rs\<close>

record two_chain_timeout =
  tt_epoch :: u64
  tt_round :: round
  tt_quorum_cert :: quorum_cert

definition tt_hqc_round :: "two_chain_timeout \<Rightarrow> round" where
  "tt_hqc_round t = bi_round (certified_block (tt_quorum_cert t))"

record timeout_signing_repr =
  tsr_epoch :: u64
  tsr_round :: round
  tsr_hqc_round :: round

definition tt_signing_format :: "two_chain_timeout \<Rightarrow> timeout_signing_repr" where
  "tt_signing_format t =
     \<lparr>tsr_epoch = tt_epoch t, tsr_round = tt_round t, tsr_hqc_round = tt_hqc_round t\<rparr>"

record agg_sig_with_rounds =
  asr_sig :: agg_sig
  asr_rounds :: "round list"

record timeout_cert =
  tc_timeout :: two_chain_timeout
  tc_signatures_with_rounds :: agg_sig_with_rounds

definition tc_epoch :: "timeout_cert \<Rightarrow> u64" where
  "tc_epoch tc = tt_epoch (tc_timeout tc)"

definition tc_round :: "timeout_cert \<Rightarrow> round" where
  "tc_round tc = tt_round (tc_timeout tc)"

definition tc_highest_hqc_round :: "timeout_cert \<Rightarrow> round" where
  "tc_highest_hqc_round tc = tt_hqc_round (tc_timeout tc)"

text \<open>vote.rs, order\_vote.rs, wrapped\_ledger\_info.rs\<close>

record vote =
  v_vote_data :: vote_data
  v_author :: author
  v_ledger_info :: ledger_info
  v_signature :: signature
  v_two_chain_timeout :: "(two_chain_timeout \<times> signature) option"

definition is_timeout :: "vote \<Rightarrow> bool" where
  "is_timeout v = (v_two_chain_timeout v \<noteq> None)"

definition v_epoch :: "vote \<Rightarrow> u64" where
  "v_epoch v = bi_epoch (vd_proposed (v_vote_data v))"

definition v_round :: "vote \<Rightarrow> round" where
  "v_round v = bi_round (vd_proposed (v_vote_data v))"

record order_vote =
  ov_author :: author
  ov_ledger_info :: ledger_info
  ov_signature :: signature

record wrapped_ledger_info =
  wli_vote_data :: vote_data
  wli_signed_ledger_info :: li_with_sigs

definition wli_commit_info :: "wrapped_ledger_info \<Rightarrow> block_info" where
  "wli_commit_info w = li_commit_info (lws_ledger_info (wli_signed_ledger_info w))"

definition into_wrapped_ledger_info :: "quorum_cert \<Rightarrow> wrapped_ledger_info" where
  "into_wrapped_ledger_info qc =
     \<lparr>wli_vote_data = qc_vote_data qc, wli_signed_ledger_info = qc_signed_ledger_info qc\<rparr>"

lemmas accessor_defs = certified_block_def parent_block_def qc_commit_info_def tt_hqc_round_def
  tc_epoch_def tc_round_def tc_highest_hqc_round_def v_epoch_def v_round_def wli_commit_info_def

section \<open>Payloads\<close>

text \<open>proof\_of\_store.rs\<close>

record batch_id =
  bid_id :: u64
  bid_nonce :: u64

record batch_info =
  ba_author :: author
  ba_batch_id :: batch_id
  ba_epoch :: u64
  ba_expiration :: u64
  ba_digest :: hash_value
  ba_num_txns :: u64
  ba_num_bytes :: u64
  ba_gas_bucket_start :: u64

record proof_of_store =
  pos_info :: batch_info
  pos_multi_signature :: agg_sig

text \<open>
  payload.rs and common.rs. The \<open>status\<close> cells of \<open>ProofWithData\<close> and \<open>BatchPointer\<close> (the local
  download progress, skipped by serde) are not part of the data.
\<close>

datatype payload_execution_limit = NoExecutionLimit | MaxTransactionsToExecute u64

record opt_quorum_store_payload =
  oqs_inline_batches :: "(batch_info \<times> signed_txn list) list"
  oqs_opt_batches :: "batch_info list"
  oqs_proofs :: "proof_of_store list"
  oqs_execution_limits :: payload_execution_limit

datatype payload =
    DirectMempool "signed_txn list"
  | InQuorumStore "proof_of_store list"
  | InQuorumStoreWithLimit "proof_of_store list" "u64 option"
  | QuorumStoreInlineHybrid "(batch_info \<times> signed_txn list) list" "proof_of_store list" "u64 option"
  | OptQuorumStore opt_quorum_store_payload

section \<open>Blocks\<close>

text \<open>proposal\_ext.rs, block\_data.rs, block.rs\<close>

datatype block_type =
    Proposal payload author "(round \<times> author) list"
  | NilBlock "(round \<times> author) list"
  | Genesis
  | ProposalExt "validator_txn list" payload author "(round \<times> author) list"
  | DAGBlock author "(round \<times> author) list" "validator_txn list" payload "hash_value list"
      hash_value bit_vec

record block_data =
  bd_epoch :: u64
  bd_round :: round
  bd_timestamp_usecs :: u64
  bd_quorum_cert :: quorum_cert
  bd_block_type :: block_type

record block =
  bk_id :: hash_value
  bk_block_data :: block_data
  bk_signature :: "signature option"
  bk_block_number :: "u64 option"

text \<open>vote\_proposal.rs, order\_vote\_proposal.rs, safety\_data.rs\<close>

record vote_proposal =
  vp_block :: block
  vp_next_epoch_state :: "epoch_state option"
  vp_decoupled_execution :: bool

record order_vote_proposal =
  ovp_block :: block
  ovp_block_info :: block_info
  ovp_quorum_cert :: quorum_cert

record safety_data =
  sd_epoch :: u64
  sd_last_voted_round :: u64
  sd_preferred_round :: u64
  sd_one_chain_round :: u64
  sd_last_vote :: "vote option"
  sd_highest_timeout_round :: u64

text \<open>sync\_info.rs and the messages that carry it\<close>

record sync_info =
  si_highest_quorum_cert :: quorum_cert
  si_highest_ordered_cert :: "wrapped_ledger_info option"
  si_highest_commit_cert :: wrapped_ledger_info
  si_highest_2chain_timeout_cert :: "timeout_cert option"

record proposal_msg =
  pm_proposal :: block
  pm_sync_info :: sync_info

record vote_msg =
  vm_vote :: vote
  vm_sync_info :: sync_info

record order_vote_msg =
  ovm_order_vote :: order_vote
  ovm_quorum_cert :: quorum_cert

text \<open>What a validator signs: the source signs values of four types, each hashed under its own
  domain (\<open>CryptoHasher\<close>).\<close>

datatype signed_msg =
    MsgLedgerInfo ledger_info
  | MsgTimeout timeout_signing_repr
  | MsgBlockData block_data
  | MsgBatchInfo batch_info

end
