(* ===== verification/External_Interface.thy ===== *)
theory External_Interface
  imports Data_Types
begin

text \<open>
  The crate \<open>laptos\<close> (git dependency of the workspace, not in this repository) provides the
  cryptography, the validator set and the ledger-info helpers that consensus calls. Its functions
  are parameters of the model: a value of the record \<open>laptos\<close> is an argument of every definition
  that uses one of them. What a theorem relies on is stated as a hypothesis by the predicates of
  the second section; each says what the crate documents, and each has a concrete instance in the
  witnesses.
\<close>

record laptos =
  \<comment> \<open>\<open>CryptoHash::hash\<close> of the hashed types, \<open>HashValue::zero\<close>, \<open>ACCUMULATOR_PLACEHOLDER_HASH\<close>,
     \<open>GENESIS_BLOCK_ID\<close>\<close>
  x_hash_vote_data :: "vote_data \<Rightarrow> hash_value"
  x_hash_ledger_info :: "ledger_info \<Rightarrow> hash_value"
  x_hash_block_data :: "block_data \<Rightarrow> hash_value"
  x_hash_batch_payload :: "author \<Rightarrow> signed_txn list \<Rightarrow> hash_value"
  x_hash_zero :: hash_value
  x_accumulator_placeholder_hash :: hash_value
  x_genesis_block_id :: hash_value
  \<comment> \<open>\<open>BlockInfo\<close>\<close>
  x_block_info_empty :: block_info
  x_is_ordered_only :: "block_info \<Rightarrow> bool"
  x_match_ordered_only :: "block_info \<Rightarrow> block_info \<Rightarrow> bool"
  x_has_reconfiguration :: "block_info \<Rightarrow> bool"
  \<comment> \<open>\<open>BlockInfo::change_timestamp\<close>, which asserts that the change is allowed\<close>
  x_change_timestamp :: "u64 \<Rightarrow> block_info \<Rightarrow> block_info option"
  \<comment> \<open>\<open>is_consensus_fork_active\<close> of \<open>ConsensusAlpha\<close> at a timestamp\<close>
  x_consensus_alpha_active :: "u64 \<Rightarrow> bool"
  \<comment> \<open>\<open>LedgerInfo\<close> and \<open>LedgerInfoWithSignatures\<close>\<close>
  x_li_epoch :: "ledger_info \<Rightarrow> u64"
  x_li_round :: "ledger_info \<Rightarrow> round"
  x_li_version :: "ledger_info \<Rightarrow> u64"
  x_li_timestamp_usecs :: "ledger_info \<Rightarrow> u64"
  x_li_block_number :: "ledger_info \<Rightarrow> u64"
  x_li_block_hash :: "ledger_info \<Rightarrow> hash_value"
  x_li_waypoint_version :: "ledger_info \<Rightarrow> u64"
  x_li_next_epoch_state :: "ledger_info \<Rightarrow> epoch_state option"
  x_li_ends_epoch :: "ledger_info \<Rightarrow> bool"
  x_verify_signatures :: "validator_verifier \<Rightarrow> li_with_sigs \<Rightarrow> bool"
  \<comment> \<open>\<open>AggregateSignature\<close>\<close>
  x_agg_sig_empty :: agg_sig
  x_agg_sig_with_num_bits :: "nat \<Rightarrow> agg_sig"
  x_get_num_voters :: "agg_sig \<Rightarrow> nat"
  x_get_signers_addresses :: "agg_sig \<Rightarrow> author list \<Rightarrow> author list"
  \<comment> \<open>\<open>PartialSignatures::add_signature\<close>\<close>
  x_add_signature :: "author \<Rightarrow> signature \<Rightarrow> partial_sigs \<Rightarrow> partial_sigs"
  \<comment> \<open>\<open>ValidatorVerifier\<close>\<close>
  x_verify :: "validator_verifier \<Rightarrow> author \<Rightarrow> signed_msg \<Rightarrow> signature \<Rightarrow> bool"
  x_verify_aggregate_signatures ::
    "validator_verifier \<Rightarrow> timeout_signing_repr list \<Rightarrow> agg_sig \<Rightarrow> bool"
  x_verify_multi_signatures :: "validator_verifier \<Rightarrow> signed_msg \<Rightarrow> agg_sig \<Rightarrow> bool"
  x_aggregate_signatures :: "validator_verifier \<Rightarrow> partial_sigs \<Rightarrow> verify_error + agg_sig"
  \<comment> \<open>\<open>LedgerInfoWithVerifiedSignatures::aggregate_signatures\<close>\<close>
  x_lv_aggregate_signatures :: "validator_verifier \<Rightarrow> li_verified \<Rightarrow> verify_error + li_with_sigs"
  x_check_voting_power :: "validator_verifier \<Rightarrow> author list \<Rightarrow> bool \<Rightarrow> verify_error + u128"
  x_get_voting_power :: "validator_verifier \<Rightarrow> author \<Rightarrow> u64 option"
  x_quorum_voting_power :: "validator_verifier \<Rightarrow> u128"
  x_total_voting_power :: "validator_verifier \<Rightarrow> u128"
  x_ordered_account_addresses :: "validator_verifier \<Rightarrow> author list"
  x_address_to_validator_index :: "validator_verifier \<Rightarrow> author \<Rightarrow> nat option"
  x_verifier_len :: "validator_verifier \<Rightarrow> nat"
  x_get_public_key :: "validator_verifier \<Rightarrow> author \<Rightarrow> nat option"
  \<comment> \<open>\<open>ValidatorSigner::sign\<close> under a private key; \<open>None\<close> when serialization fails\<close>
  x_sign :: "nat \<Rightarrow> signed_msg \<Rightarrow> signature option"
  \<comment> \<open>\<open>PrivateKey::public_key\<close>\<close>
  x_public_key :: "nat \<Rightarrow> nat"
  \<comment> \<open>\<open>EpochChangeProof::verify\<close> and \<open>Waypoint::new_epoch_boundary\<close>\<close>
  x_epoch_change_proof_verify :: "nat \<Rightarrow> waypoint \<Rightarrow> string + li_with_sigs"
  x_waypoint_new_epoch_boundary :: "ledger_info \<Rightarrow> string + waypoint"

section \<open>Documented behaviour the theorems rely on\<close>

text \<open>\<open>LedgerInfo::epoch\<close> and \<open>LedgerInfo::round\<close> read the commit info.\<close>

definition li_getters :: "laptos \<Rightarrow> bool" where
  "li_getters L \<longleftrightarrow>
     (\<forall>li. x_li_epoch L li = bi_epoch (li_commit_info li) \<and>
           x_li_round L li = bi_round (li_commit_info li))"

text \<open>\<open>PartialSignatures\<close> is a map from author to signature.\<close>

definition partial_signatures_map :: "laptos \<Rightarrow> bool" where
  "partial_signatures_map L \<longleftrightarrow>
     (\<forall>a s m. map_of (x_add_signature L a s m) = (map_of m)(a \<mapsto> s))"

text \<open>
  \<open>ValidatorVerifier::check_voting_power\<close> fails with an error other than \<open>TooLittleVotingPower\<close>
  when one of the authors is not in the validator set, and never returns less than the quorum
  when it is asked for a super majority.
\<close>

definition check_voting_power_spec :: "laptos \<Rightarrow> validator_verifier \<Rightarrow> bool" where
  "check_voting_power_spec L vv \<longleftrightarrow>
     (\<forall>as p. x_check_voting_power L vv as True = Inr p \<longrightarrow> x_quorum_voting_power L vv \<le> p) \<and>
     (\<forall>as a. a \<in> set as \<and> x_address_to_validator_index L vv a = None \<longrightarrow>
        x_check_voting_power L vv as True = Inl UnknownAuthorError)"

text \<open>
  \<open>LedgerInfoWithVerifiedSignatures::aggregate_signatures\<close> signs the ledger info it was given, and
  the aggregate of valid signatures of authors that pass \<open>check_voting_power\<close> verifies.
\<close>

definition aggregation_spec :: "laptos \<Rightarrow> validator_verifier \<Rightarrow> bool" where
  "aggregation_spec L vv \<longleftrightarrow>
     (\<forall>lv lws. x_lv_aggregate_signatures L vv lv = Inr lws \<longrightarrow>
        lws_ledger_info lws = lv_ledger_info lv \<and>
        (is_ok (x_check_voting_power L vv (map fst (lv_signatures lv)) True) \<and>
         (\<forall>a s. map_of (lv_signatures lv) a = Some s \<longrightarrow>
            x_verify L vv a (MsgLedgerInfo (lv_ledger_info lv)) s) \<longrightarrow>
         x_verify_signatures L vv lws))"

lemma li_gettersD [dest]:
  "li_getters L \<Longrightarrow> x_li_epoch L li = bi_epoch (li_commit_info li)"
  "li_getters L \<Longrightarrow> x_li_round L li = bi_round (li_commit_info li)"
  by (simp_all add: li_getters_def)

lemma partial_signatures_keys:
  assumes "partial_signatures_map L"
  shows "fst ` set (x_add_signature L a s m) = insert a (fst ` set m)"
proof -
  have "dom (map_of (x_add_signature L a s m)) = dom ((map_of m)(a \<mapsto> s))"
    using assms by (simp add: partial_signatures_map_def)
  then show ?thesis by (simp add: dom_map_of_conv_image_fst)
qed

end
