(* ===== verification/Example_Instance.thy ===== *)
theory Example_Instance
  imports External_Interface
begin

text \<open>
  A concrete instance of the parameters of \<open>External_Interface\<close>, on which the witnesses evaluate
  the definitions: a validator set is given by its size \<open>n\<close>, its members are the authors below
  \<open>n\<close> with voting power one, a quorum is more than two thirds, every signature is the number one
  and an aggregate signature is its number of voters (so it verifies when they are a quorum).
\<close>

definition ex_quorum :: "nat \<Rightarrow> nat" where
  "ex_quorum n = n * 2 div 3 + 1"

definition ex_check_voting_power :: "nat \<Rightarrow> author list \<Rightarrow> bool \<Rightarrow> verify_error + u128" where
  "ex_check_voting_power n as check_super_majority =
     (if \<exists>a \<in> set as. n \<le> a then Inl UnknownAuthorError
      else
        let p = of_nat (length (remdups as)) in
        if check_super_majority \<and> p < of_nat (ex_quorum n) then Inl (TooLittleVotingPower p) else Inr p)"

definition example_laptos :: laptos where
  "example_laptos =
     \<lparr>x_hash_vote_data =
        (\<lambda>vd. Suc (unat (bi_round (vd_proposed vd)) * 100 + unat (bi_round (vd_parent vd)))),
      x_hash_ledger_info = (\<lambda>li. li_consensus_data_hash li),
      x_hash_block_data = (\<lambda>bd. Suc (unat (bd_round bd))),
      x_hash_batch_payload = (\<lambda>a txns. sum_list txns),
      x_hash_zero = 0,
      x_accumulator_placeholder_hash = 0,
      x_genesis_block_id = 1,
      x_block_info_empty = block_info_new 0 0 0 0 0 0 None,
      x_is_ordered_only = (\<lambda>bi. bi_executed_state_id bi = 0 \<and> bi_version bi = 0),
      x_match_ordered_only =
        (\<lambda>a b. bi_epoch a = bi_epoch b \<and> bi_round a = bi_round b \<and> bi_id a = bi_id b \<and>
               bi_timestamp_usecs a = bi_timestamp_usecs b),
      x_has_reconfiguration = (\<lambda>bi. bi_next_epoch_state bi \<noteq> None),
      x_change_timestamp =
        (\<lambda>t bi. if t \<le> bi_timestamp_usecs bi then Some (bi\<lparr>bi_timestamp_usecs := t\<rparr>) else None),
      x_consensus_alpha_active = (\<lambda>t. True),
      x_li_epoch = (\<lambda>li. bi_epoch (li_commit_info li)),
      x_li_round = (\<lambda>li. bi_round (li_commit_info li)),
      x_li_version = (\<lambda>li. bi_version (li_commit_info li)),
      x_li_timestamp_usecs = (\<lambda>li. bi_timestamp_usecs (li_commit_info li)),
      x_li_block_number = (\<lambda>li. bi_version (li_commit_info li)),
      x_li_block_hash = (\<lambda>li. bi_executed_state_id (li_commit_info li)),
      x_li_waypoint_version = (\<lambda>li. bi_version (li_commit_info li)),
      x_li_next_epoch_state = (\<lambda>li. bi_next_epoch_state (li_commit_info li)),
      x_li_ends_epoch = (\<lambda>li. bi_next_epoch_state (li_commit_info li) \<noteq> None),
      x_verify_signatures = (\<lambda>n lws. ex_quorum n \<le> lws_signatures lws),
      x_agg_sig_empty = 0,
      x_agg_sig_with_num_bits = (\<lambda>n. 0),
      x_get_num_voters = (\<lambda>sig. sig),
      x_get_signers_addresses = (\<lambda>sig as. take sig as),
      x_add_signature = (\<lambda>a s m. bt_insert a s m),
      x_verify = (\<lambda>n a m s. a < n \<and> s = 1),
      x_verify_aggregate_signatures = (\<lambda>n ms sig. ex_quorum n \<le> sig \<and> length ms = sig),
      x_verify_multi_signatures = (\<lambda>n m sig. ex_quorum n \<le> sig),
      x_aggregate_signatures =
        (\<lambda>n sigs. if sigs = [] then Inl EmptySignature else Inr (length (remdups (map fst sigs)))),
      x_lv_aggregate_signatures =
        (\<lambda>n lv. if lv_signatures lv = [] then Inl EmptySignature
                else Inr \<lparr>lws_ledger_info = lv_ledger_info lv,
                          lws_signatures = length (remdups (map fst (lv_signatures lv)))\<rparr>),
      x_check_voting_power = ex_check_voting_power,
      x_get_voting_power = (\<lambda>n a. if a < n then Some 1 else None),
      x_quorum_voting_power = (\<lambda>n. of_nat (ex_quorum n)),
      x_total_voting_power = (\<lambda>n. of_nat n),
      x_ordered_account_addresses = (\<lambda>n. [0..<n]),
      x_address_to_validator_index = (\<lambda>n a. if a < n then Some a else None),
      x_verifier_len = (\<lambda>n. n),
      x_get_public_key = (\<lambda>n a. if a < n then Some a else None),
      x_sign = (\<lambda>k m. Some 1),
      x_public_key = (\<lambda>k. k),
      x_epoch_change_proof_verify =
        (\<lambda>e w. Inr \<lparr>lws_ledger_info =
                       \<lparr>li_commit_info =
                          block_info_new (of_nat e) 0 0 0 0 0
                            (Some \<lparr>es_epoch = of_nat e + 1, es_verifier = 1\<rparr>),
                        li_consensus_data_hash = 0, li_block = None\<rparr>,
                     lws_signatures = 1\<rparr>),
      x_waypoint_new_epoch_boundary = (\<lambda>li. Inr \<lparr>wp_version = bi_epoch (li_commit_info li), wp_value = 0\<rparr>)\<rparr>"

lemma example_laptos_simps [simp]:
  "x_hash_vote_data example_laptos = (\<lambda>vd. Suc (unat (bi_round (vd_proposed vd)) * 100 + unat (bi_round (vd_parent vd))))"
  "x_hash_ledger_info example_laptos = (\<lambda>li. li_consensus_data_hash li)"
  "x_hash_block_data example_laptos = (\<lambda>bd. Suc (unat (bd_round bd)))"
  "x_hash_batch_payload example_laptos = (\<lambda>a txns. sum_list txns)"
  "x_hash_zero example_laptos = 0"
  "x_accumulator_placeholder_hash example_laptos = 0"
  "x_genesis_block_id example_laptos = 1"
  "x_block_info_empty example_laptos = block_info_new 0 0 0 0 0 0 None"
  "x_is_ordered_only example_laptos = (\<lambda>bi. bi_executed_state_id bi = 0 \<and> bi_version bi = 0)"
  "x_match_ordered_only example_laptos = (\<lambda>a b. bi_epoch a = bi_epoch b \<and> bi_round a = bi_round b \<and> bi_id a = bi_id b \<and> bi_timestamp_usecs a = bi_timestamp_usecs b)"
  "x_has_reconfiguration example_laptos = (\<lambda>bi. bi_next_epoch_state bi \<noteq> None)"
  "x_change_timestamp example_laptos =
     (\<lambda>t bi. if t \<le> bi_timestamp_usecs bi then Some (bi\<lparr>bi_timestamp_usecs := t\<rparr>) else None)"
  "x_consensus_alpha_active example_laptos = (\<lambda>t. True)"
  "x_li_epoch example_laptos = (\<lambda>li. bi_epoch (li_commit_info li))"
  "x_li_round example_laptos = (\<lambda>li. bi_round (li_commit_info li))"
  "x_li_version example_laptos = (\<lambda>li. bi_version (li_commit_info li))"
  "x_li_timestamp_usecs example_laptos = (\<lambda>li. bi_timestamp_usecs (li_commit_info li))"
  "x_li_block_number example_laptos = (\<lambda>li. bi_version (li_commit_info li))"
  "x_li_block_hash example_laptos = (\<lambda>li. bi_executed_state_id (li_commit_info li))"
  "x_li_waypoint_version example_laptos = (\<lambda>li. bi_version (li_commit_info li))"
  "x_li_next_epoch_state example_laptos = (\<lambda>li. bi_next_epoch_state (li_commit_info li))"
  "x_li_ends_epoch example_laptos = (\<lambda>li. bi_next_epoch_state (li_commit_info li) \<noteq> None)"
  "x_verify_signatures example_laptos = (\<lambda>n lws. ex_quorum n \<le> lws_signatures lws)"
  "x_agg_sig_empty example_laptos = 0"
  "x_agg_sig_with_num_bits example_laptos = (\<lambda>n. 0)"
  "x_get_num_voters example_laptos = (\<lambda>sig. sig)"
  "x_get_signers_addresses example_laptos = (\<lambda>sig as. take sig as)"
  "x_add_signature example_laptos = (\<lambda>a s m. bt_insert a s m)"
  "x_verify example_laptos = (\<lambda>n a m s. a < n \<and> s = 1)"
  "x_verify_aggregate_signatures example_laptos = (\<lambda>n ms sig. ex_quorum n \<le> sig \<and> length ms = sig)"
  "x_verify_multi_signatures example_laptos = (\<lambda>n m sig. ex_quorum n \<le> sig)"
  "x_aggregate_signatures example_laptos = (\<lambda>n sigs. if sigs = [] then Inl EmptySignature else Inr (length (remdups (map fst sigs))))"
  "x_lv_aggregate_signatures example_laptos =
     (\<lambda>n lv. if lv_signatures lv = [] then Inl EmptySignature
             else Inr \<lparr>lws_ledger_info = lv_ledger_info lv,
                       lws_signatures = length (remdups (map fst (lv_signatures lv)))\<rparr>)"
  "x_check_voting_power example_laptos = ex_check_voting_power"
  "x_get_voting_power example_laptos = (\<lambda>n a. if a < n then Some 1 else None)"
  "x_quorum_voting_power example_laptos = (\<lambda>n. of_nat (ex_quorum n))"
  "x_total_voting_power example_laptos = (\<lambda>n. of_nat n)"
  "x_ordered_account_addresses example_laptos = (\<lambda>n. [0..<n])"
  "x_address_to_validator_index example_laptos = (\<lambda>n a. if a < n then Some a else None)"
  "x_verifier_len example_laptos = (\<lambda>n. n)"
  "x_get_public_key example_laptos = (\<lambda>n a. if a < n then Some a else None)"
  "x_sign example_laptos = (\<lambda>k m. Some 1)"
  "x_public_key example_laptos = (\<lambda>k. k)"
  "x_epoch_change_proof_verify example_laptos =
     (\<lambda>e w. Inr \<lparr>lws_ledger_info =
                    \<lparr>li_commit_info =
                       block_info_new (of_nat e) 0 0 0 0 0
                         (Some \<lparr>es_epoch = of_nat e + 1, es_verifier = 1\<rparr>),
                     li_consensus_data_hash = 0, li_block = None\<rparr>,
                  lws_signatures = 1\<rparr>)"
  "x_waypoint_new_epoch_boundary example_laptos =
     (\<lambda>li. Inr \<lparr>wp_version = bi_epoch (li_commit_info li), wp_value = 0\<rparr>)"
  by (simp_all add: example_laptos_def)

definition ex_block_info :: "u64 \<Rightarrow> round \<Rightarrow> block_info" where
  "ex_block_info e r = block_info_new e r (Suc (unat r)) 0 0 0 None"

definition ex_vote_data :: "u64 \<Rightarrow> round \<Rightarrow> round \<Rightarrow> vote_data" where
  "ex_vote_data e r p = \<lparr>vd_proposed = ex_block_info e r, vd_parent = ex_block_info e p\<rparr>"

text \<open>A quorum certificate of epoch \<open>e\<close> for round \<open>r\<close> with parent round \<open>p\<close> and \<open>k\<close> voters.\<close>

definition ex_qc :: "u64 \<Rightarrow> round \<Rightarrow> round \<Rightarrow> nat \<Rightarrow> quorum_cert" where
  "ex_qc e r p k =
     \<lparr>qc_vote_data = ex_vote_data e r p,
      qc_signed_ledger_info =
        \<lparr>lws_ledger_info =
           \<lparr>li_commit_info = (if r = p + 1 \<or> r = 0 then ex_block_info e p
                              else block_info_new 0 0 0 0 0 0 None),
            li_consensus_data_hash = x_hash_vote_data example_laptos (ex_vote_data e r p), li_block = None\<rparr>,
         lws_signatures = k\<rparr>\<rparr>"

lemmas ex_defs = ex_quorum_def ex_check_voting_power_def ex_block_info_def
  ex_vote_data_def ex_qc_def

lemma partial_signatures_map_ex: "partial_signatures_map example_laptos"
proof -
  have "map_of (bt_insert a s m) = (map_of m)(a \<mapsto> s)" for a :: author and s :: signature and m
    by (induction a s m rule: bt_insert.induct) (auto simp: fun_eq_iff)
  then show ?thesis by (simp add: partial_signatures_map_def)
qed

end
