(* ===== verification/Certificates.thy ===== *)
theory Certificates
  imports Example_Instance
begin

text \<open>
  The certificates of the two-chain protocol and their checks: \<open>VoteData::verify\<close>,
  \<open>QuorumCert::verify\<close>, the timeouts and timeout certificates of timeout\_2chain.rs with their
  aggregation, \<open>Vote::verify\<close>, \<open>OrderVote::verify\<close> and \<open>WrappedLedgerInfo\<close>. An \<open>anyhow\<close> error is
  the message of the failed check. The lemmas say what a certificate that passes its check
  guarantees, and that a timeout certificate built from distinct authors passes the check on its
  highest quorum-certificate round.
\<close>

section \<open>Vote data and quorum certificates\<close>

definition vd_verify :: "vote_data \<Rightarrow> string + unit" where
  "vd_verify vd =
     ensure (bi_epoch (vd_parent vd) = bi_epoch (vd_proposed vd))
       ''Parent and proposed epochs do not match''
     (ensure (bi_round (vd_parent vd) < bi_round (vd_proposed vd))
       ''Proposed round is less than parent round''
     (ensure (bi_timestamp_usecs (vd_parent vd) \<le> bi_timestamp_usecs (vd_proposed vd))
       ''Proposed happened before parent''
     (ensure (bi_version (vd_proposed vd) = 0 \<or> bi_version (vd_parent vd) \<le> bi_version (vd_proposed vd))
       ''Proposed version is less than parent version''
     (Inr ()))))"

definition vd_is_for_nil :: "vote_data \<Rightarrow> bool" where
  "vd_is_for_nil vd = (bi_timestamp_usecs (vd_proposed vd) = bi_timestamp_usecs (vd_parent vd))"

definition qc_ends_epoch :: "laptos \<Rightarrow> quorum_cert \<Rightarrow> bool" where
  "qc_ends_epoch L qc = x_li_ends_epoch L (lws_ledger_info (qc_signed_ledger_info qc))"

definition qc_verify :: "laptos \<Rightarrow> validator_verifier \<Rightarrow> quorum_cert \<Rightarrow> string + unit" where
  "qc_verify L vv qc =
     (let li = lws_ledger_info (qc_signed_ledger_info qc) in
      ensure (li_consensus_data_hash li = x_hash_vote_data L (qc_vote_data qc))
        ''Quorum Cert's hash mismatch LedgerInfo''
      (if bi_round (certified_block qc) = 0 then
         ensure (parent_block qc = certified_block qc)
           ''Genesis QC has inconsistent parent block with certified block''
         (ensure (certified_block qc = li_commit_info li)
           ''Genesis QC has inconsistent commit block with certified block''
         (ensure (x_get_num_voters L (lws_signatures (qc_signed_ledger_info qc)) = 0)
           ''Genesis QC should not carry signatures''
         (Inr ())))
       else
         ensure (x_verify_signatures L vv (qc_signed_ledger_info qc)) ''Fail to verify QuorumCert''
         (vd_verify (qc_vote_data qc))))"

text \<open>\<open>certificate_for_genesis_from_ledger_info\<close>: \<open>None\<close> is a panic of one of its two \<open>expect\<close>s.\<close>

definition certificate_for_genesis_from_ledger_info ::
  "laptos \<Rightarrow> ledger_info \<Rightarrow> hash_value \<Rightarrow> quorum_cert option" where
  "certificate_for_genesis_from_ledger_info L ledger_info genesis_id =
     (case checked_add (x_li_epoch L ledger_info) 1 of
        None \<Rightarrow> None
      | Some e \<Rightarrow>
          (let ancestor = block_info_new e 0 genesis_id (x_li_block_hash L ledger_info)
                            (x_li_waypoint_version L ledger_info)
                            (x_li_timestamp_usecs L ledger_info) None;
               vote_data = \<lparr>vd_proposed = ancestor, vd_parent = ancestor\<rparr>;
               li = \<lparr>li_commit_info = ancestor,
                     li_consensus_data_hash = x_hash_vote_data L vote_data, li_block = None\<rparr>
           in case x_li_next_epoch_state L ledger_info of
                None \<Rightarrow> None
              | Some es \<Rightarrow>
                  Some \<lparr>qc_vote_data = vote_data,
                        qc_signed_ledger_info =
                          \<lparr>lws_ledger_info = li,
                           lws_signatures =
                             x_agg_sig_with_num_bits L (x_verifier_len L (es_verifier es) mod 2 ^ 16)\<rparr>\<rparr>))"

definition qc_create_merged_with_executed_state ::
  "laptos \<Rightarrow> quorum_cert \<Rightarrow> li_with_sigs \<Rightarrow> string + quorum_cert" where
  "qc_create_merged_with_executed_state L qc executed =
     ensure (x_match_ordered_only L (qc_commit_info qc) (li_commit_info (lws_ledger_info executed)))
       ''Block info from QC and executed LI need to match''
     (Inr \<lparr>qc_vote_data = qc_vote_data qc, qc_signed_ledger_info = executed\<rparr>)"

lemma vd_verify_ok [simp]:
  "vd_verify vd = Inr u \<longleftrightarrow>
     bi_epoch (vd_parent vd) = bi_epoch (vd_proposed vd) \<and>
     bi_round (vd_parent vd) < bi_round (vd_proposed vd) \<and>
     bi_timestamp_usecs (vd_parent vd) \<le> bi_timestamp_usecs (vd_proposed vd) \<and>
     (bi_version (vd_proposed vd) = 0 \<or> bi_version (vd_parent vd) \<le> bi_version (vd_proposed vd))"
  by (auto simp: vd_verify_def)

lemma qc_verify_hash:
  "qc_verify L vv qc = Inr u \<Longrightarrow>
     li_consensus_data_hash (lws_ledger_info (qc_signed_ledger_info qc)) =
       x_hash_vote_data L (qc_vote_data qc)"
  by (simp add: qc_verify_def Let_def)

lemma qc_verify_nongenesis:
  assumes "qc_verify L vv qc = Inr u" "bi_round (certified_block qc) \<noteq> 0"
  shows "x_verify_signatures L vv (qc_signed_ledger_info qc)"
    and "bi_epoch (parent_block qc) = bi_epoch (certified_block qc)"
    and "bi_round (parent_block qc) < bi_round (certified_block qc)"
  using assms by (auto simp: qc_verify_def Let_def certified_block_def parent_block_def)

lemma qc_verify_parent_le:
  assumes "qc_verify L vv qc = Inr u"
  shows "bi_round (parent_block qc) \<le> bi_round (certified_block qc)"
    and "bi_epoch (parent_block qc) = bi_epoch (certified_block qc)"
  using assms by (auto simp: qc_verify_def Let_def accessor_defs split: if_splits)

section \<open>Timeouts and timeout certificates\<close>

definition tt_verify :: "laptos \<Rightarrow> validator_verifier \<Rightarrow> two_chain_timeout \<Rightarrow> string + unit" where
  "tt_verify L vv t =
     ensure (tt_hqc_round t < tt_round t) ''Timeout round should be larger than the QC round''
     (qc_verify L vv (tt_quorum_cert t))"

definition get_voters_and_rounds ::
  "laptos \<Rightarrow> agg_sig_with_rounds \<Rightarrow> author list \<Rightarrow> (author \<times> round) list" where
  "get_voters_and_rounds L asr ordered =
     zip (x_get_signers_addresses L (asr_sig asr) ordered) (asr_rounds asr)"

definition tc_timeout_messages ::
  "laptos \<Rightarrow> validator_verifier \<Rightarrow> timeout_cert \<Rightarrow> timeout_signing_repr list" where
  "tc_timeout_messages L vv tc =
     map (\<lambda>(_, round). \<lparr>tsr_epoch = tc_epoch tc, tsr_round = tc_round tc, tsr_hqc_round = round\<rparr>)
       (get_voters_and_rounds L (tc_signatures_with_rounds tc) (x_ordered_account_addresses L vv))"

definition tc_verify :: "laptos \<Rightarrow> validator_verifier \<Rightarrow> timeout_cert \<Rightarrow> string + unit" where
  "tc_verify L vv tc =
     bind_res (tt_verify L vv (tc_timeout tc)) (\<lambda>_.
     ensure (x_verify_aggregate_signatures L vv (tc_timeout_messages L vv tc)
               (asr_sig (tc_signatures_with_rounds tc)))
       ''Fail to verify aggregate signatures''
     (bind_res (ok_or ''Empty rounds'' (list_max (asr_rounds (tc_signatures_with_rounds tc))))
     (\<lambda>signed_hqc.
     ensure (tt_hqc_round (tc_timeout tc) = signed_hqc) ''Inconsistent hqc round''
     (Inr ()))))"

lemma tt_verify_ok [simp]:
  "tt_verify L vv t = Inr u \<longleftrightarrow>
     tt_hqc_round t < tt_round t \<and> qc_verify L vv (tt_quorum_cert t) = Inr ()"
  by (simp add: tt_verify_def)

lemma tc_verify_ok:
  "tc_verify L vv tc = Inr u \<longleftrightarrow>
     tt_verify L vv (tc_timeout tc) = Inr () \<and>
     x_verify_aggregate_signatures L vv (tc_timeout_messages L vv tc)
       (asr_sig (tc_signatures_with_rounds tc)) \<and>
     asr_rounds (tc_signatures_with_rounds tc) \<noteq> [] \<and>
     tc_highest_hqc_round tc = Max (set (asr_rounds (tc_signatures_with_rounds tc)))"
  by (auto simp: tc_verify_def list_max_Some tc_highest_hqc_round_def)

text \<open>
  A timeout certificate under construction (\<open>TwoChainTimeoutWithPartialSignatures\<close> with
  \<open>PartialSignaturesWithRound\<close>): the timeout with the highest quorum certificate seen, and the
  signature and round of every author.
\<close>

record partial_tc =
  ptc_timeout :: two_chain_timeout
  ptc_signatures :: "(author \<times> (round \<times> signature)) list"

definition ptc_new :: "two_chain_timeout \<Rightarrow> partial_tc" where
  "ptc_new t = \<lparr>ptc_timeout = t, ptc_signatures = []\<rparr>"

definition ptc_signers :: "partial_tc \<Rightarrow> author list" where
  "ptc_signers p = map fst (ptc_signatures p)"

definition ptc_add :: "author \<Rightarrow> two_chain_timeout \<Rightarrow> signature \<Rightarrow> partial_tc \<Rightarrow> partial_tc" where
  "ptc_add author timeout signature p =
     (let hqc_round = tt_hqc_round timeout;
          p' = (if tt_hqc_round timeout > tt_hqc_round (ptc_timeout p)
                then p\<lparr>ptc_timeout := timeout\<rparr> else p)
      in p'\<lparr>ptc_signatures := bt_or_insert author (hqc_round, signature) (ptc_signatures p')\<rparr>)"

text \<open>
  \<open>get_partial_sig_with_rounds\<close>: signatures of the authors that have a validator index, and
  their rounds ordered by that index.
\<close>

fun partial_sig_with_rounds ::
  "laptos \<Rightarrow> (author \<Rightarrow> nat option) \<Rightarrow> (author \<times> (round \<times> signature)) list \<Rightarrow>
   partial_sigs \<times> (nat \<times> round) list \<Rightarrow> partial_sigs \<times> (nat \<times> round) list" where
  "partial_sig_with_rounds L idx [] acc = acc"
| "partial_sig_with_rounds L idx ((address, (round, sig)) # rest) (partial_sig, index_to_rounds) =
     (case idx address of
        Some index \<Rightarrow>
          partial_sig_with_rounds L idx rest
            (x_add_signature L address sig partial_sig, bt_insert index round index_to_rounds)
      | None \<Rightarrow> partial_sig_with_rounds L idx rest (partial_sig, index_to_rounds))"

definition get_partial_sig_with_rounds ::
  "laptos \<Rightarrow> (author \<Rightarrow> nat option) \<Rightarrow> (author \<times> (round \<times> signature)) list \<Rightarrow>
   partial_sigs \<times> round list" where
  "get_partial_sig_with_rounds L idx sigs =
     (case partial_sig_with_rounds L idx sigs ([], []) of
        (partial_sig, index_to_rounds) \<Rightarrow> (partial_sig, map snd index_to_rounds))"

text \<open>
  \<open>aggregate_signatures\<close>. The outer \<open>None\<close> is the panic of the assertion in
  \<open>AggregateSignatureWithRounds::new\<close> (one round per voter).
\<close>

definition ptc_aggregate_signatures ::
  "laptos \<Rightarrow> validator_verifier \<Rightarrow> partial_tc \<Rightarrow> (verify_error + timeout_cert) option" where
  "ptc_aggregate_signatures L vv p =
     (case get_partial_sig_with_rounds L (x_address_to_validator_index L vv) (ptc_signatures p) of
        (partial_sig, ordered_rounds) \<Rightarrow>
          (case x_aggregate_signatures L vv partial_sig of
             Inl e \<Rightarrow> Some (Inl e)
           | Inr aggregated_sig \<Rightarrow>
               if x_get_num_voters L aggregated_sig = length ordered_rounds
               then Some (Inr \<lparr>tc_timeout = ptc_timeout p,
                               tc_signatures_with_rounds =
                                 \<lparr>asr_sig = aggregated_sig, asr_rounds = ordered_rounds\<rparr>\<rparr>)
               else None))"

text \<open>
  The highest-round invariant: the carried timeout has the highest of the signed rounds. It needs
  each author to be added once; \<open>ptc_add\<close> keeps the first signature of an author but takes the
  timeout of the later call when its round is higher.
\<close>

definition ptc_rounds :: "partial_tc \<Rightarrow> round set" where
  "ptc_rounds p = fst ` snd ` set (ptc_signatures p)"

definition ptc_inv :: "partial_tc \<Rightarrow> bool" where
  "ptc_inv p \<longleftrightarrow>
     sorted_wrt (<) (map fst (ptc_signatures p)) \<and>
     (\<forall>r \<in> ptc_rounds p. r \<le> tt_hqc_round (ptc_timeout p)) \<and>
     (ptc_signatures p \<noteq> [] \<longrightarrow> tt_hqc_round (ptc_timeout p) \<in> ptc_rounds p)"

lemma ptc_signatures_add [simp]:
  "ptc_signatures (ptc_add a t s p) = bt_or_insert a (tt_hqc_round t, s) (ptc_signatures p)"
  by (simp add: ptc_add_def Let_def)

lemma ptc_hqc_add [simp]:
  "tt_hqc_round (ptc_timeout (ptc_add a t s p)) = max (tt_hqc_round t) (tt_hqc_round (ptc_timeout p))"
  by (auto simp: ptc_add_def Let_def max_def dest: leD)

lemma ptc_rounds_add:
  assumes "a \<notin> set (ptc_signers p)"
  shows "ptc_rounds (ptc_add a t s p) = insert (tt_hqc_round t) (ptc_rounds p)"
  using assms by (simp add: ptc_rounds_def ptc_signers_def bt_or_insert_fresh set_bt_insert_fresh)

lemma ptc_signers_add [simp]:
  "set (ptc_signers (ptc_add a t s p)) = insert a (set (ptc_signers p))"
  by (simp add: ptc_signers_def)

lemma ptc_inv_add:
  assumes "ptc_inv p" "a \<notin> set (ptc_signers p)"
    and first: "ptc_signatures p = [] \<Longrightarrow> tt_hqc_round (ptc_timeout p) \<le> tt_hqc_round t"
  shows "ptc_inv (ptc_add a t s p)"
proof (cases "ptc_signatures p = []")
  case True
  with first show ?thesis
    by (simp add: ptc_inv_def ptc_rounds_def bt_or_insert_def max_absorb1)
next
  case False
  with assms show ?thesis
    by (auto simp: ptc_inv_def ptc_rounds_add sorted_bt_or_insert le_max_iff_disj max_def)
qed

lemma ptc_inv_first: "ptc_inv (ptc_add a t s (ptc_new t))"
  by (rule ptc_inv_add) (auto simp: ptc_inv_def ptc_new_def ptc_rounds_def ptc_signers_def)

lemma partial_sig_rounds_set:
  assumes "inj_on idx (fst ` set sigs)" "\<forall>a \<in> fst ` set sigs. idx a \<noteq> None"
    and "distinct (map fst sigs)" "\<forall>i \<in> fst ` set m. Some i \<notin> idx ` fst ` set sigs"
  shows "snd ` set (snd (partial_sig_with_rounds L idx sigs (ps, m))) =
     snd ` set m \<union> fst ` snd ` set sigs"
  using assms
proof (induction L idx sigs "(ps, m)" arbitrary: ps m rule: partial_sig_with_rounds.induct)
  case (2 L idx a r s rest ps m)
  then obtain i where i: "idx a = Some i" by auto
  have fresh: "i \<notin> fst ` set m" using "2.prems"(4) i by force
  have "snd ` set (snd (partial_sig_with_rounds L idx rest (x_add_signature L a s ps, bt_insert i r m))) =
     snd ` set (bt_insert i r m) \<union> fst ` snd ` set rest"
  proof (rule "2.hyps"(2) [OF i])
    show "\<forall>j \<in> fst ` set (bt_insert i r m). Some j \<notin> idx ` fst ` set rest"
    proof
      fix j assume "j \<in> fst ` set (bt_insert i r m)"
      then consider "j = i" | "j \<in> fst ` set m" by auto
      then show "Some j \<notin> idx ` fst ` set rest"
      proof cases
        case 1
        show ?thesis
        proof
          assume "Some j \<in> idx ` fst ` set rest"
          then obtain b where b: "b \<in> fst ` set rest" "idx b = idx a" using 1 i by force
          with "2.prems"(1) have "b = a" by (auto simp: inj_on_def)
          with b "2.prems"(3) show False by simp
        qed
      qed (use "2.prems"(4) in auto)
    qed
  qed (use "2.prems" in \<open>auto simp: inj_on_def\<close>)
  then show ?case using i by (auto simp: set_bt_insert_fresh [OF fresh])
qed simp

lemma get_partial_sig_rounds_set:
  assumes "inj_on idx (fst ` set sigs)" "\<forall>a \<in> fst ` set sigs. idx a \<noteq> None" "distinct (map fst sigs)"
  shows "set (snd (get_partial_sig_with_rounds L idx sigs)) = fst ` snd ` set sigs"
  using partial_sig_rounds_set [OF assms, of "[]" L "[]"]
  by (simp add: get_partial_sig_with_rounds_def case_prod_unfold)

section \<open>Votes and wrapped ledger infos\<close>

definition vote_verify :: "laptos \<Rightarrow> validator_verifier \<Rightarrow> vote \<Rightarrow> string + unit" where
  "vote_verify L vv v =
     ensure (li_consensus_data_hash (v_ledger_info v) = x_hash_vote_data L (v_vote_data v))
       ''Vote's hash mismatch with LedgerInfo''
     (ensure (x_verify L vv (v_author v) (MsgLedgerInfo (v_ledger_info v)) (v_signature v))
       ''Failed to verify Vote''
     (bind_res
       (case v_two_chain_timeout v of
          None \<Rightarrow> Inr ()
        | Some (timeout, signature) \<Rightarrow>
            ensure ((tt_epoch timeout, tt_round timeout) = (v_epoch v, v_round v))
              ''2-chain timeout has different (epoch, round) than Vote''
            (bind_res (tt_verify L vv timeout) (\<lambda>_.
            ensure (x_verify L vv (v_author v) (MsgTimeout (tt_signing_format timeout)) signature)
              ''Failed to verify 2-chain timeout signature''
            (Inr ()))))
       (\<lambda>_. vd_verify (v_vote_data v))))"

definition generate_2chain_timeout :: "vote \<Rightarrow> quorum_cert \<Rightarrow> two_chain_timeout" where
  "generate_2chain_timeout v qc = \<lparr>tt_epoch = v_epoch v, tt_round = v_round v, tt_quorum_cert = qc\<rparr>"

definition add_2chain_timeout :: "two_chain_timeout \<Rightarrow> signature \<Rightarrow> vote \<Rightarrow> vote" where
  "add_2chain_timeout t s v = v\<lparr>v_two_chain_timeout := Some (t, s)\<rparr>"

definition order_vote_verify :: "laptos \<Rightarrow> validator_verifier \<Rightarrow> order_vote \<Rightarrow> string + unit" where
  "order_vote_verify L vv ov =
     ensure (li_consensus_data_hash (ov_ledger_info ov) = x_hash_zero L)
       ''Failed to verify OrderVote. Consensus data hash is not Zero''
     (ensure (x_verify L vv (ov_author ov) (MsgLedgerInfo (ov_ledger_info ov)) (ov_signature ov))
       ''Failed to verify OrderVote''
     (Inr ()))"

definition wli_verify_consensus_data_hash :: "laptos \<Rightarrow> wrapped_ledger_info \<Rightarrow> string + unit" where
  "wli_verify_consensus_data_hash L w =
     ensure (li_consensus_data_hash (lws_ledger_info (wli_signed_ledger_info w)) =
               x_hash_vote_data L (wli_vote_data w))
       ''WrappedLedgerInfo's vote data hash mismatch LedgerInfo''
     (Inr ())"

definition wli_certified_block :: "laptos \<Rightarrow> bool \<Rightarrow> wrapped_ledger_info \<Rightarrow> string + block_info" where
  "wli_certified_block L order_vote_enabled w =
     ensure (\<not> order_vote_enabled)
       ''wrapped_ledger_info.certified_block should not be called when order votes are enabled''
     (bind_res (wli_verify_consensus_data_hash L w) (\<lambda>_. Inr (vd_proposed (wli_vote_data w))))"

definition wli_verify :: "laptos \<Rightarrow> validator_verifier \<Rightarrow> wrapped_ledger_info \<Rightarrow> string + unit" where
  "wli_verify L vv w =
     (let lws = wli_signed_ledger_info w; li = lws_ledger_info lws in
      if x_li_round L li = 0 then
        ensure (li_consensus_data_hash li =
                  x_hash_vote_data L \<lparr>vd_proposed = li_commit_info li, vd_parent = li_commit_info li\<rparr>)
          ''Genesis QC has inconsistent commit block''
        (ensure (x_get_num_voters L (lws_signatures lws) = 0)
          ''Genesis QC should not carry signatures''
        (Inr ()))
      else
        ensure (x_verify_signatures L vv lws) ''Fail to verify WrappedLedgerInfo'' (Inr ()))"

definition wli_create_merged_with_executed_state ::
  "laptos \<Rightarrow> wrapped_ledger_info \<Rightarrow> li_with_sigs \<Rightarrow> string + wrapped_ledger_info" where
  "wli_create_merged_with_executed_state L w executed =
     ensure (x_match_ordered_only L (wli_commit_info w) (li_commit_info (lws_ledger_info executed)))
       ''Block info from QC and executed LI need to match''
     (Inr \<lparr>wli_vote_data = wli_vote_data w, wli_signed_ledger_info = executed\<rparr>)"

definition into_quorum_cert :: "laptos \<Rightarrow> bool \<Rightarrow> wrapped_ledger_info \<Rightarrow> string + quorum_cert" where
  "into_quorum_cert L order_vote_enabled w =
     ensure (\<not> order_vote_enabled)
       ''wrapped_ledger_info.into_quorum_cert should not be called when order votes are enabled''
     (bind_res (wli_verify_consensus_data_hash L w) (\<lambda>_.
      Inr \<lparr>qc_vote_data = wli_vote_data w, qc_signed_ledger_info = wli_signed_ledger_info w\<rparr>))"

end
