(* ===== verification/Blocks.thy ===== *)
theory Blocks
  imports Certificates
begin

text \<open>
  Payloads, block data and blocks (payload.rs, common.rs, proof\_of\_store.rs, block\_data.rs,
  block.rs, vote\_proposal.rs): sizes and emptiness of a payload, the proof cache, the block
  constructors, the signature check and the well-formedness check of a proposal. \<open>usize\<close> lengths
  and sums are natural numbers. A panic is \<open>None\<close>. The wall clock that \<open>verify_well_formed\<close> reads
  is an argument (\<open>now\<close>, in microseconds).
\<close>

section \<open>Payloads\<close>

definition proofs_len :: "proof_of_store list \<Rightarrow> nat" where
  "proofs_len ps = sum_list (map (\<lambda>p. unat (ba_num_txns (pos_info p))) ps)"

definition proofs_num_bytes :: "proof_of_store list \<Rightarrow> nat" where
  "proofs_num_bytes ps = sum_list (map (\<lambda>p. unat (ba_num_bytes (pos_info p))) ps)"

definition batches_num_txns :: "batch_info list \<Rightarrow> nat" where
  "batches_num_txns bs = sum_list (map (\<lambda>b. unat (ba_num_txns b)) bs)"

definition batches_num_bytes :: "batch_info list \<Rightarrow> nat" where
  "batches_num_bytes bs = sum_list (map (\<lambda>b. unat (ba_num_bytes b)) bs)"

definition oqs_num_txns :: "opt_quorum_store_payload \<Rightarrow> nat" where
  "oqs_num_txns p = batches_num_txns (oqs_opt_batches p) + proofs_len (oqs_proofs p) +
     batches_num_txns (map fst (oqs_inline_batches p))"

definition oqs_num_bytes :: "opt_quorum_store_payload \<Rightarrow> nat" where
  "oqs_num_bytes p = batches_num_bytes (oqs_opt_batches p) + proofs_num_bytes (oqs_proofs p) +
     batches_num_bytes (map fst (oqs_inline_batches p))"

definition oqs_is_empty :: "opt_quorum_store_payload \<Rightarrow> bool" where
  "oqs_is_empty p \<longleftrightarrow>
     oqs_opt_batches p = [] \<and> oqs_proofs p = [] \<and> oqs_inline_batches p = []"

fun max_txns_to_execute :: "payload_execution_limit \<Rightarrow> u64 option" where
  "max_txns_to_execute NoExecutionLimit = None"
| "max_txns_to_execute (MaxTransactionsToExecute m) = Some m"

fun transform_to_quorum_store_v2 :: "payload \<Rightarrow> u64 option \<Rightarrow> payload option" where
  "transform_to_quorum_store_v2 (InQuorumStore ps) m = Some (InQuorumStoreWithLimit ps m)"
| "transform_to_quorum_store_v2 (QuorumStoreInlineHybrid ib ps _) m = Some (QuorumStoreInlineHybrid ib ps m)"
| "transform_to_quorum_store_v2 (InQuorumStoreWithLimit _ _) m = None"
| "transform_to_quorum_store_v2 (DirectMempool _) m = None"
| "transform_to_quorum_store_v2 (OptQuorumStore _) m = None"

definition payload_empty :: "bool \<Rightarrow> bool \<Rightarrow> payload" where
  "payload_empty quorum_store_enabled allow_batches_without_pos_in_proposal =
     (if quorum_store_enabled then
        if allow_batches_without_pos_in_proposal then QuorumStoreInlineHybrid [] [] None
        else InQuorumStore []
      else DirectMempool [])"

fun payload_len :: "payload \<Rightarrow> nat" where
  "payload_len (DirectMempool txns) = length txns"
| "payload_len (InQuorumStore ps) = proofs_len ps"
| "payload_len (InQuorumStoreWithLimit ps _) = proofs_len ps"
| "payload_len (QuorumStoreInlineHybrid ib ps _) =
     proofs_len ps + sum_list (map (\<lambda>(_, txns). length txns) ib)"
| "payload_len (OptQuorumStore p) = oqs_num_txns p"

text \<open>\<open>len_for_execution\<close> casts the length to \<open>u64\<close>.\<close>

fun len_for_execution :: "payload \<Rightarrow> u64" where
  "len_for_execution (DirectMempool txns) = of_nat (length txns)"
| "len_for_execution (InQuorumStore ps) = of_nat (proofs_len ps)"
| "len_for_execution (InQuorumStoreWithLimit ps m) =
     min (of_nat (proofs_len ps)) (case m of None \<Rightarrow> u64_max | Some x \<Rightarrow> x)"
| "len_for_execution (QuorumStoreInlineHybrid ib ps m) =
     min (of_nat (proofs_len ps + sum_list (map (\<lambda>(_, txns). length txns) ib)))
       (case m of None \<Rightarrow> u64_max | Some x \<Rightarrow> x)"
| "len_for_execution (OptQuorumStore p) =
     (case max_txns_to_execute (oqs_execution_limits p) of None \<Rightarrow> u64_max | Some x \<Rightarrow> x)"

fun payload_is_empty :: "payload \<Rightarrow> bool" where
  "payload_is_empty (DirectMempool txns) = (txns = [])"
| "payload_is_empty (InQuorumStore ps) = (ps = [])"
| "payload_is_empty (InQuorumStoreWithLimit ps _) = (ps = [])"
| "payload_is_empty (QuorumStoreInlineHybrid ib ps _) = (ps = [] \<and> ib = [])"
| "payload_is_empty (OptQuorumStore p) = oqs_is_empty p"

fun is_direct :: "payload \<Rightarrow> bool" where
  "is_direct (DirectMempool _) = True"
| "is_direct _ = False"

text \<open>\<open>size\<close>; the byte length of a transaction is a parameter.\<close>

fun payload_size_bytes :: "(signed_txn \<Rightarrow> nat) \<Rightarrow> payload \<Rightarrow> nat" where
  "payload_size_bytes raw_txn_bytes_len (DirectMempool txns) = sum_list (map raw_txn_bytes_len txns)"
| "payload_size_bytes raw_txn_bytes_len (InQuorumStore ps) = proofs_num_bytes ps"
| "payload_size_bytes raw_txn_bytes_len (InQuorumStoreWithLimit ps _) = proofs_num_bytes ps"
| "payload_size_bytes raw_txn_bytes_len (QuorumStoreInlineHybrid ib ps _) =
     proofs_num_bytes ps + sum_list (map (\<lambda>(b, _). unat (ba_num_bytes b)) ib)"
| "payload_size_bytes raw_txn_bytes_len (OptQuorumStore p) = oqs_num_bytes p"

section \<open>Proofs of store and the proof cache\<close>

type_synonym proof_cache = "batch_info \<rightharpoonup> agg_sig"

definition pos_verify ::
  "laptos \<Rightarrow> validator_verifier \<Rightarrow> proof_of_store \<Rightarrow> proof_cache \<Rightarrow> (string + unit) \<times> proof_cache" where
  "pos_verify L vv p cache =
     (if cache (pos_info p) = Some (pos_multi_signature p) then (Inr (), cache)
      else if x_verify_multi_signatures L vv (MsgBatchInfo (pos_info p)) (pos_multi_signature p)
      then (Inr (), cache(pos_info p \<mapsto> pos_multi_signature p))
      else (Inl ''Failed to verify ProofOfStore'', cache))"

fun pos_verify_all ::
  "laptos \<Rightarrow> validator_verifier \<Rightarrow> proof_of_store list \<Rightarrow> proof_cache \<Rightarrow> (string + unit) \<times> proof_cache" where
  "pos_verify_all L vv [] cache = (Inr (), cache)"
| "pos_verify_all L vv (p # ps) cache =
     (case pos_verify L vv p cache of
        (Inl e, cache') \<Rightarrow> (Inl e, cache')
      | (Inr _, cache') \<Rightarrow> pos_verify_all L vv ps cache')"

text \<open>
  \<open>verify_with_cache\<close> runs the proofs that the cache does not hold. The source runs them in
  parallel; here they run in list order.
\<close>

definition verify_with_cache ::
  "laptos \<Rightarrow> validator_verifier \<Rightarrow> proof_of_store list \<Rightarrow> proof_cache \<Rightarrow> (string + unit) \<times> proof_cache" where
  "verify_with_cache L vv proofs cache =
     (let unverified = filter (\<lambda>p. case cache (pos_info p) of
                                     None \<Rightarrow> True
                                   | Some cached_proof \<Rightarrow> cached_proof \<noteq> pos_multi_signature p) proofs
      in pos_verify_all L vv unverified cache)"

text \<open>\<open>supported\<close> stands for a transaction whose payload is \<open>GTxnBytes\<close>.\<close>

fun ensure_supported_transaction_payloads ::
  "(signed_txn \<Rightarrow> bool) \<Rightarrow> signed_txn list \<Rightarrow> string + unit" where
  "ensure_supported_transaction_payloads supported [] = Inr ()"
| "ensure_supported_transaction_payloads supported (t # ts) =
     ensure (supported t) ''Unsupported transaction payload type''
       (ensure_supported_transaction_payloads supported ts)"

fun verify_inline_batches ::
  "laptos \<Rightarrow> (signed_txn \<Rightarrow> bool) \<Rightarrow> (batch_info \<times> signed_txn list) list \<Rightarrow> string + unit" where
  "verify_inline_batches L supported [] = Inr ()"
| "verify_inline_batches L supported ((batch, txns) # rest) =
     ensure (x_hash_batch_payload L (ba_author batch) txns = ba_digest batch)
       ''Hash of the received inline batch doesn't match the digest value''
     (bind_res (ensure_supported_transaction_payloads supported txns)
       (\<lambda>_. verify_inline_batches L supported rest))"

definition payload_verify ::
  "laptos \<Rightarrow> (signed_txn \<Rightarrow> bool) \<Rightarrow> validator_verifier \<Rightarrow> payload \<Rightarrow> proof_cache \<Rightarrow> bool \<Rightarrow>
   (string + unit) \<times> proof_cache" where
  "payload_verify L supported vv payload cache quorum_store_enabled =
     (case (quorum_store_enabled, payload) of
        (False, DirectMempool txns) \<Rightarrow> (ensure_supported_transaction_payloads supported txns, cache)
      | (True, InQuorumStore ps) \<Rightarrow> verify_with_cache L vv ps cache
      | (True, InQuorumStoreWithLimit ps _) \<Rightarrow> verify_with_cache L vv ps cache
      | (True, QuorumStoreInlineHybrid ib ps _) \<Rightarrow>
          (case verify_with_cache L vv ps cache of
             (Inl e, cache') \<Rightarrow> (Inl e, cache')
           | (Inr _, cache') \<Rightarrow> (verify_inline_batches L supported ib, cache'))
      | (True, OptQuorumStore p) \<Rightarrow>
          (case verify_with_cache L vv (oqs_proofs p) cache of
             (Inl e, cache') \<Rightarrow> (Inl e, cache')
           | (Inr _, cache') \<Rightarrow> (Inl ''OptQuorumStore is not supported yet.'', cache'))
      | _ \<Rightarrow> (Inl ''Wrong payload type'', cache))"

text \<open>The cache only ever holds multi-signatures that were checked.\<close>

definition cache_sound :: "laptos \<Rightarrow> validator_verifier \<Rightarrow> proof_cache \<Rightarrow> bool" where
  "cache_sound L vv cache \<longleftrightarrow>
     (\<forall>info sig. cache info = Some sig \<longrightarrow> x_verify_multi_signatures L vv (MsgBatchInfo info) sig)"

definition proof_valid :: "laptos \<Rightarrow> validator_verifier \<Rightarrow> proof_of_store \<Rightarrow> bool" where
  "proof_valid L vv p = x_verify_multi_signatures L vv (MsgBatchInfo (pos_info p)) (pos_multi_signature p)"

lemma pos_verify_sound:
  assumes "cache_sound L vv cache" "pos_verify L vv p cache = (r, cache')"
  shows "cache_sound L vv cache'" and "r = Inr () \<longleftrightarrow> proof_valid L vv p"
  using assms by (auto simp: pos_verify_def cache_sound_def proof_valid_def split: if_splits)

lemma pos_verify_all_sound:
  assumes "cache_sound L vv cache" "pos_verify_all L vv ps cache = (r, cache')"
  shows "cache_sound L vv cache' \<and> (r = Inr () \<longleftrightarrow> (\<forall>p \<in> set ps. proof_valid L vv p))"
  using assms
proof (induction L vv ps cache rule: pos_verify_all.induct)
  case (2 L vv p ps cache)
  obtain r1 c1 where 1: "pos_verify L vv p cache = (r1, c1)" by fastforce
  note s = pos_verify_sound [OF "2.prems"(1) 1]
  show ?case
  proof (cases r1)
    case (Inl e)
    then show ?thesis using 1 s "2.prems"(2) by auto
  next
    case (Inr u)
    then show ?thesis using 1 s "2.prems"(2) "2.IH" [OF 1 [symmetric] Inr] by auto
  qed
qed simp

lemma verify_with_cache_sound:
  assumes "cache_sound L vv cache" "verify_with_cache L vv ps cache = (r, cache')"
  shows "cache_sound L vv cache'" and "r = Inr () \<longleftrightarrow> (\<forall>p \<in> set ps. proof_valid L vv p)"
proof -
  note v = pos_verify_all_sound [OF assms(1) assms(2) [unfolded verify_with_cache_def Let_def]]
  show "cache_sound L vv cache'" using v by blast
  have "proof_valid L vv p" if "cache (pos_info p) = Some (pos_multi_signature p)" for p
    using assms(1) that by (simp add: cache_sound_def proof_valid_def)
  then show "r = Inr () \<longleftrightarrow> (\<forall>p \<in> set ps. proof_valid L vv p)"
    using v by (fastforce split: option.splits)
qed

section \<open>Block data\<close>

fun bt_author :: "block_type \<Rightarrow> author option" where
  "bt_author (Proposal _ a _) = Some a"
| "bt_author (DAGBlock a _ _ _ _ _ _) = Some a"
| "bt_author (ProposalExt _ _ a _) = Some a"
| "bt_author _ = None"

fun bt_payload :: "block_type \<Rightarrow> payload option" where
  "bt_payload (Proposal p _ _) = Some p"
| "bt_payload (DAGBlock _ _ _ p _ _ _) = Some p"
| "bt_payload (ProposalExt _ p _ _) = Some p"
| "bt_payload _ = None"

fun bt_validator_txns :: "block_type \<Rightarrow> validator_txn list option" where
  "bt_validator_txns (ProposalExt ts _ _ _) = Some ts"
| "bt_validator_txns (DAGBlock _ _ ts _ _ _ _) = Some ts"
| "bt_validator_txns _ = None"

fun bt_failed_authors :: "block_type \<Rightarrow> (round \<times> author) list option" where
  "bt_failed_authors (Proposal _ _ f) = Some f"
| "bt_failed_authors (NilBlock f) = Some f"
| "bt_failed_authors (DAGBlock _ f _ _ _ _ _) = Some f"
| "bt_failed_authors (ProposalExt _ _ _ f) = Some f"
| "bt_failed_authors Genesis = None"

fun bt_is_nil :: "block_type \<Rightarrow> bool" where
  "bt_is_nil (NilBlock _) = True"
| "bt_is_nil _ = False"

definition bd_parent_id :: "block_data \<Rightarrow> hash_value" where
  "bd_parent_id bd =
     (case bd_block_type bd of
        DAGBlock _ _ _ _ _ parent_block_id _ \<Rightarrow> parent_block_id
      | _ \<Rightarrow> bi_id (certified_block (bd_quorum_cert bd)))"

definition bd_is_reconfiguration_suffix :: "laptos \<Rightarrow> block_data \<Rightarrow> bool" where
  "bd_is_reconfiguration_suffix L bd = x_has_reconfiguration L (certified_block (bd_quorum_cert bd))"

definition bd_new_genesis :: "u64 \<Rightarrow> quorum_cert \<Rightarrow> block_data option" where
  "bd_new_genesis timestamp_usecs qc =
     (case checked_add (bi_epoch (certified_block qc)) 1 of
        None \<Rightarrow> None
      | Some e \<Rightarrow> Some \<lparr>bd_epoch = e, bd_round = 0, bd_timestamp_usecs = timestamp_usecs,
                        bd_quorum_cert = qc, bd_block_type = Genesis\<rparr>)"

definition bd_new_genesis_from_ledger_info :: "laptos \<Rightarrow> ledger_info \<Rightarrow> block_data option" where
  "bd_new_genesis_from_ledger_info L li =
     (if \<not> x_li_ends_epoch L li then None
      else
        (case (case bi_epoch_block_info (li_commit_info li) of
                 Some info \<Rightarrow> (ebi_block_number info, ebi_epoch_start_timestamp_usecs info)
               | None \<Rightarrow> (x_li_version L li, x_li_timestamp_usecs L li)) of
           (version, timestamp) \<Rightarrow>
             (let ancestor = block_info_new (x_li_epoch L li) 0 (x_hash_zero L)
                               (x_li_block_hash L li) version timestamp None;
                  genesis_quorum_cert =
                    \<lparr>qc_vote_data = \<lparr>vd_proposed = ancestor, vd_parent = ancestor\<rparr>,
                     qc_signed_ledger_info =
                       \<lparr>lws_ledger_info = \<lparr>li_commit_info = ancestor,
                                           li_consensus_data_hash = x_hash_zero L, li_block = None\<rparr>,
                        lws_signatures = x_agg_sig_empty L\<rparr>\<rparr>
              in bd_new_genesis timestamp genesis_quorum_cert)))"

definition bd_new_nil :: "round \<Rightarrow> quorum_cert \<Rightarrow> (round \<times> author) list \<Rightarrow> block_data" where
  "bd_new_nil round qc failed_authors =
     \<lparr>bd_epoch = bi_epoch (certified_block qc), bd_round = round,
      bd_timestamp_usecs = bi_timestamp_usecs (certified_block qc),
      bd_quorum_cert = qc, bd_block_type = NilBlock failed_authors\<rparr>"

definition bd_new_proposal ::
  "payload \<Rightarrow> author \<Rightarrow> (round \<times> author) list \<Rightarrow> round \<Rightarrow> u64 \<Rightarrow> quorum_cert \<Rightarrow> block_data" where
  "bd_new_proposal payload author failed_authors round timestamp_usecs qc =
     \<lparr>bd_epoch = bi_epoch (certified_block qc), bd_round = round,
      bd_timestamp_usecs = timestamp_usecs, bd_quorum_cert = qc,
      bd_block_type = Proposal payload author failed_authors\<rparr>"

definition bd_new_proposal_ext ::
  "validator_txn list \<Rightarrow> payload \<Rightarrow> author \<Rightarrow> (round \<times> author) list \<Rightarrow> round \<Rightarrow> u64 \<Rightarrow>
   quorum_cert \<Rightarrow> block_data" where
  "bd_new_proposal_ext validator_txns payload author failed_authors round timestamp_usecs qc =
     \<lparr>bd_epoch = bi_epoch (certified_block qc), bd_round = round,
      bd_timestamp_usecs = timestamp_usecs, bd_quorum_cert = qc,
      bd_block_type = ProposalExt validator_txns payload author failed_authors\<rparr>"

section \<open>Blocks\<close>

definition bk_epoch :: "block \<Rightarrow> u64" where
  "bk_epoch b = bd_epoch (bk_block_data b)"

definition bk_round :: "block \<Rightarrow> round" where
  "bk_round b = bd_round (bk_block_data b)"

definition bk_timestamp_usecs :: "block \<Rightarrow> u64" where
  "bk_timestamp_usecs b = bd_timestamp_usecs (bk_block_data b)"

definition bk_quorum_cert :: "block \<Rightarrow> quorum_cert" where
  "bk_quorum_cert b = bd_quorum_cert (bk_block_data b)"

definition bk_parent_id :: "block \<Rightarrow> hash_value" where
  "bk_parent_id b = bd_parent_id (bk_block_data b)"

lemmas block_accessor_defs = bk_epoch_def bk_round_def bk_timestamp_usecs_def bk_quorum_cert_def
  bk_parent_id_def

definition block_payload_size :: "block \<Rightarrow> nat" where
  "block_payload_size b =
     (case bt_payload (bd_block_type (bk_block_data b)) of
        None \<Rightarrow> 0
      | Some p \<Rightarrow>
          (case p of
             InQuorumStore ps \<Rightarrow> length ps
           | DirectMempool _ \<Rightarrow> 0
           | InQuorumStoreWithLimit ps _ \<Rightarrow> length ps
           | QuorumStoreInlineHybrid ib ps _ \<Rightarrow> length ib + length ps
           | OptQuorumStore opt_quorum_store_payload \<Rightarrow> oqs_num_txns opt_quorum_store_payload))"

definition gen_block_info ::
  "block \<Rightarrow> hash_value \<Rightarrow> u64 \<Rightarrow> epoch_state option \<Rightarrow> block_info" where
  "gen_block_info b executed_state_id version next_epoch_state =
     block_info_new (bk_epoch b) (bk_round b) (bk_id b) executed_state_id version
       (bk_timestamp_usecs b) next_epoch_state"

definition block_of_data :: "laptos \<Rightarrow> block_data \<Rightarrow> signature option \<Rightarrow> block" where
  "block_of_data L bd sig =
     \<lparr>bk_id = x_hash_block_data L bd, bk_block_data = bd, bk_signature = sig, bk_block_number = None\<rparr>"

definition make_genesis_block_from_ledger_info :: "laptos \<Rightarrow> ledger_info \<Rightarrow> block option" where
  "make_genesis_block_from_ledger_info L li =
     (case bd_new_genesis_from_ledger_info L li of
        None \<Rightarrow> None
      | Some bd \<Rightarrow>
          (let block_number = (case bi_epoch_block_info (li_commit_info li) of
                                 Some info \<Rightarrow> ebi_block_number info
                               | None \<Rightarrow> x_li_block_number L li)
           in Some (block_of_data L bd None\<lparr>bk_block_number := Some block_number\<rparr>)))"

definition block_new_nil ::
  "laptos \<Rightarrow> round \<Rightarrow> quorum_cert \<Rightarrow> (round \<times> author) list \<Rightarrow> block" where
  "block_new_nil L round qc failed_authors =
     block_of_data L (bd_new_nil round qc failed_authors) None"

definition new_proposal_from_block_data :: "laptos \<Rightarrow> block_data \<Rightarrow> nat \<Rightarrow> string + block" where
  "new_proposal_from_block_data L bd key =
     bind_res (ok_or ''sign'' (x_sign L key (MsgBlockData bd)))
       (\<lambda>signature. Inr (block_of_data L bd (Some signature)))"

definition validate_signature :: "laptos \<Rightarrow> validator_verifier \<Rightarrow> block \<Rightarrow> string + unit" where
  "validate_signature L vv b =
     (let signed_by = (\<lambda>author.
        bind_res (ok_or ''Missing signature in Proposal'' (bk_signature b)) (\<lambda>signature.
        ensure (x_verify L vv author (MsgBlockData (bk_block_data b)) signature)
          ''Invalid signature''
        (qc_verify L vv (bk_quorum_cert b))))
      in case bd_block_type (bk_block_data b) of
           Genesis \<Rightarrow> Inl ''We should not accept genesis from others''
         | NilBlock _ \<Rightarrow> qc_verify L vv (bk_quorum_cert b)
         | Proposal _ author _ \<Rightarrow> signed_by author
         | ProposalExt _ _ author _ \<Rightarrow> signed_by author
         | DAGBlock _ _ _ _ _ _ _ \<Rightarrow> Inl ''We should not accept DAG block from others'')"

text \<open>The loop over the failed authors: their rounds increase strictly between the bounds.\<close>

fun check_failed_authors :: "round \<Rightarrow> round \<Rightarrow> (round \<times> author) list \<Rightarrow> string + unit" where
  "check_failed_authors bound succ_round [] = Inr ()"
| "check_failed_authors bound succ_round ((round, _) # rest) =
     ensure (bound < round \<and> round < succ_round) ''Incorrect round in failed authors''
       (check_failed_authors round succ_round rest)"

definition TIMEBOUND :: u64 where
  "TIMEBOUND = 300000000"

definition verify_failed_authors :: "block \<Rightarrow> (round \<times> author) list \<Rightarrow> string + unit" where
  "verify_failed_authors b failed_authors =
     (let parent = certified_block (bk_quorum_cert b) in
      bind_res (ok_or ''Block round overflow''
                 (checked_add (bk_round b) (if bt_is_nil (bd_block_type (bk_block_data b)) then 1 else 0)))
      (\<lambda>succ_round.
      bind_res (ok_or ''Block round is smaller than block's parent round''
                 (checked_sub succ_round (bi_round parent + 1)))
      (\<lambda>skipped_rounds.
      ensure (length failed_authors \<le> unat skipped_rounds)
        ''Block has more failed authors than missed rounds''
      (check_failed_authors (bi_round parent) succ_round failed_authors))))"

definition verify_timestamp :: "laptos \<Rightarrow> u64 \<Rightarrow> block \<Rightarrow> string + unit" where
  "verify_timestamp L now b =
     (let parent = certified_block (bk_quorum_cert b) in
      if bt_is_nil (bd_block_type (bk_block_data b)) \<or> x_has_reconfiguration L parent then
        ensure (bk_timestamp_usecs b = bi_timestamp_usecs parent)
          ''Nil/reconfig suffix block must have same timestamp as parent'' (Inr ())
      else
        ensure (bk_timestamp_usecs b > bi_timestamp_usecs parent)
          ''Blocks must have strictly increasing timestamps''
        (ensure (bk_timestamp_usecs b \<le> saturating_add now TIMEBOUND)
          ''Blocks must not be too far in the future'' (Inr ())))"

definition verify_well_formed :: "laptos \<Rightarrow> u64 \<Rightarrow> block \<Rightarrow> string + unit" where
  "verify_well_formed L now b =
     (let parent = certified_block (bk_quorum_cert b); bt = bd_block_type (bk_block_data b) in
      ensure (bt \<noteq> Genesis) ''We must not accept genesis from others''
      (ensure (bi_round parent < bk_round b) ''Block must have a greater round than parent's block''
      (ensure (bi_epoch parent = bk_epoch b) ''block's parent should be in the same epoch''
      (ensure (\<not> x_has_reconfiguration L parent \<or>
               (case bt_payload bt of None \<Rightarrow> True | Some p \<Rightarrow> payload_is_empty p))
        ''Reconfiguration suffix should not carry payload''
      (bind_res (case bt_failed_authors bt of
                   None \<Rightarrow> Inr ()
                 | Some failed_authors \<Rightarrow> verify_failed_authors b failed_authors)
      (\<lambda>_. bind_res (verify_timestamp L now b)
      (\<lambda>_. ensure (\<not> qc_ends_epoch L (bk_quorum_cert b))
        ''Block cannot be proposed in an epoch that has ended''
      (Inr ()))))))))"

text \<open>\<open>None\<close>: an author that is not in the list, or an index beyond \<open>u32\<close>.\<close>

fun position :: "'a \<Rightarrow> 'a list \<Rightarrow> nat option" where
  "position x [] = None"
| "position x (y # ys) = (if y = x then Some 0 else map_option Suc (position x ys))"

fun failed_authors_to_indices :: "author list \<Rightarrow> (round \<times> author) list \<Rightarrow> nat list option" where
  "failed_authors_to_indices validators [] = Some []"
| "failed_authors_to_indices validators ((_, a) # rest) =
     (case position a validators of
        None \<Rightarrow> None
      | Some i \<Rightarrow>
          if i < 2 ^ 32 then map_option ((#) i) (failed_authors_to_indices validators rest) else None)"

text \<open>
  \<open>set_block_number\<close> on the write-once cell. The second component says whether the warning about
  a different value is logged: \<open>OnceCell::set\<close> hands back the value it was given, and the code
  compares that with \<open>block_number\<close>.
\<close>

definition once_cell_set :: "'a \<Rightarrow> 'a option \<Rightarrow> ('a + unit) \<times> 'a option" where
  "once_cell_set v cell = (case cell of None \<Rightarrow> (Inr (), Some v) | Some _ \<Rightarrow> (Inl v, cell))"

definition set_block_number :: "u64 \<Rightarrow> block \<Rightarrow> block \<times> bool" where
  "set_block_number block_number b =
     (case once_cell_set block_number (bk_block_number b) of
        (Inr _, cell) \<Rightarrow> (b\<lparr>bk_block_number := cell\<rparr>, False)
      | (Inl existing, cell) \<Rightarrow> (b\<lparr>bk_block_number := cell\<rparr>, existing \<noteq> block_number))"

section \<open>Vote proposals\<close>

definition vote_data_ordering_only :: "laptos \<Rightarrow> vote_proposal \<Rightarrow> vote_data" where
  "vote_data_ordering_only L vp =
     \<lparr>vd_proposed = gen_block_info (vp_block vp) (x_accumulator_placeholder_hash L) 0
                      (vp_next_epoch_state vp),
      vd_parent = certified_block (bk_quorum_cert (vp_block vp))\<rparr>"

definition gen_vote_data :: "laptos \<Rightarrow> vote_proposal \<Rightarrow> vote_data option" where
  "gen_vote_data L vp =
     (if vp_decoupled_execution vp then Some (vote_data_ordering_only L vp) else None)"

section \<open>Facts about blocks\<close>

lemma check_failed_authors_ok:
  "check_failed_authors bound succ fa = Inr () \<longleftrightarrow>
     sorted_wrt (<) (bound # map fst fa) \<and> (\<forall>r \<in> fst ` set fa. r < succ)"
proof (induction bound succ fa rule: check_failed_authors.induct)
  case (2 bound succ r a rest)
  then show ?case by (auto dest: order.strict_trans)
qed simp

lemma gen_block_info_simps [simp]:
  "bi_epoch (gen_block_info b x v n) = bk_epoch b"
  "bi_round (gen_block_info b x v n) = bk_round b"
  "bi_id (gen_block_info b x v n) = bk_id b"
  "bi_timestamp_usecs (gen_block_info b x v n) = bk_timestamp_usecs b"
  by (simp_all add: gen_block_info_def)

lemma verify_well_formedD:
  assumes "verify_well_formed L now b = Inr u"
  shows "bi_round (certified_block (bk_quorum_cert b)) < bk_round b"
    and "bi_epoch (certified_block (bk_quorum_cert b)) = bk_epoch b"
    and "\<not> qc_ends_epoch L (bk_quorum_cert b)"
  using assms by (auto simp: verify_well_formed_def Let_def)

lemma validate_signature_qc:
  "validate_signature L vv b = Inr u \<Longrightarrow> qc_verify L vv (bk_quorum_cert b) = Inr ()"
  by (auto simp: validate_signature_def Let_def split: block_type.splits)

lemma sorted_between_length:
  fixes b c :: u64
  assumes "sorted_wrt (<) (b # xs)" "\<forall>x \<in> set xs. x < c"
  shows "length xs \<le> unat c - (unat b + 1)"
proof -
  have "unat ` set xs \<subseteq> {unat b + 1 ..< unat c}"
    using assms by (auto simp: word_less_nat_alt)
  then have "card (unat ` set xs) \<le> unat c - (unat b + 1)"
    using card_mono [of "{unat b + 1 ..< unat c}" "unat ` set xs"] by simp
  moreover have "distinct xs"
    using assms(1) by (simp add: strict_sorted_iff)
  then have "card (unat ` set xs) = length xs"
    by (simp add: card_image inj_on_def word_unat_eq_iff distinct_card)
  ultimately show ?thesis by simp
qed

lemma verify_failed_authors_nil:
  assumes "bi_round (certified_block qc) < r" "r \<noteq> u64_max"
    and "sorted_wrt (<) (bi_round (certified_block qc) # map fst fa)" "\<forall>x \<in> fst ` set fa. x \<le> r"
  shows "verify_failed_authors (block_new_nil L r qc fa) fa = Inr ()"
proof -
  let ?p = "bi_round (certified_block qc)"
  have r1: "checked_add r 1 = Some (r + 1)" using assms(2) by (simp add: checked_add_one_Some)
  have p: "?p \<noteq> u64_max" using assms(1) leD [OF u64_le_max [of r]] by auto
  have lt: "\<forall>x \<in> fst ` set fa. x < r + 1"
    using assms(2,4) by (auto simp: word_less_nat_alt word_le_nat_alt unat_plus_one)
  have le: "?p + 1 \<le> r + 1"
    using assms(1,2) p by (simp add: word_le_nat_alt word_less_nat_alt unat_plus_one)
  then have "length fa \<le> unat (r + 1 - (?p + 1))"
    using sorted_between_length [OF assms(3), of "r + 1"] lt assms(1,2)
    by (simp add: unat_sub unat_plus_one less_imp_le)
  then show ?thesis
    using r1 le lt assms(3)
    by (simp add: verify_failed_authors_def Let_def block_new_nil_def block_of_data_def
        bd_new_nil_def block_accessor_defs checked_sub_def check_failed_authors_ok)
qed

section \<open>Properties\<close>



text \<open>
  C13. A nil block that a validator generates for a round above its quorum certificate is well
  formed, at any time: every other validator's \<open>verify_well_formed\<close> accepts it, provided the
  epoch has not ended and the failed authors it lists are for increasing rounds after the parent's
  and up to its own (the count check of the source is then implied).
\<close>

theorem new_nil_well_formed:
  assumes "bi_round (certified_block qc) < r" "r \<noteq> u64_max" "\<not> qc_ends_epoch L qc"
    and "sorted_wrt (<) (bi_round (certified_block qc) # map fst fa)" "\<forall>x \<in> fst ` set fa. x \<le> r"
  shows "verify_well_formed L now (block_new_nil L r qc fa) = Inr ()"
  using verify_failed_authors_nil [OF assms(1,2,4,5), of L] assms(1,3)
  by (simp add: verify_well_formed_def verify_timestamp_def Let_def block_new_nil_def
      block_of_data_def bd_new_nil_def block_accessor_defs)

theorem new_nil_well_formed_witness:
  "verify_well_formed example_laptos 0 (block_new_nil example_laptos 7 (ex_qc 1 4 3 3) [(5, 0), (6, 2), (7, 1)]) = Inr ()"
  by (rule new_nil_well_formed)
    (simp_all add: ex_defs certified_block_def u64_max_def qc_ends_epoch_def)

text \<open>
  What \<open>verify_well_formed\<close> guarantees of a proposal with failed authors: the block is in its
  parent's epoch at a later round, and the failed authors have pairwise different, increasing
  rounds after the parent's round and before the block's own (up to it, for a nil block).
\<close>

lemma well_formed_failed_authors:
  assumes "verify_well_formed L now b = Inr ()"
    and "bt_failed_authors (bd_block_type (bk_block_data b)) = Some fa"
  shows "bi_epoch (certified_block (bk_quorum_cert b)) = bk_epoch b \<and>
     bi_round (certified_block (bk_quorum_cert b)) < bk_round b \<and>
     sorted_wrt (<) (bi_round (certified_block (bk_quorum_cert b)) # map fst fa) \<and>
     (\<forall>x \<in> fst ` set fa. if bt_is_nil (bd_block_type (bk_block_data b)) then x \<le> bk_round b else x < bk_round b)"
proof -
  let ?nil = "bt_is_nil (bd_block_type (bk_block_data b))"
  from assms have "verify_failed_authors b fa = Inr ()"
    by (auto simp: verify_well_formed_def Let_def)
  then obtain s where s: "checked_add (bk_round b) (if ?nil then 1 else 0) = Some s"
    and c: "check_failed_authors (bi_round (certified_block (bk_quorum_cert b))) s fa = Inr ()"
    by (auto simp: verify_failed_authors_def Let_def)
  have "if ?nil then x \<le> bk_round b else x < bk_round b" if "x < s" for x
    using that checked_add_Some [OF s] by (auto simp: word_less_nat_alt word_le_nat_alt split: if_splits)
  then show ?thesis
    using c verify_well_formedD [OF assms(1)] by (auto simp: check_failed_authors_ok)
qed


end
