(* ===== verification/Safety_Storage.thy ===== *)
theory Safety_Storage
  imports Blocks
begin

text \<open>
  The errors of the safety rules (error.rs) and the persistent storage of their data
  (persistent\_safety\_storage.rs). The key-value store behind it (\<open>aptos_secure_storage\<close>) is a
  parameter: a record of the typed reads and writes that the code makes, with \<open>kv_laws\<close> for what
  is documented of them. The uncached branch of \<open>safety_data\<close> reads the key at the type
  \<open>Result<SafetyData, Error>\<close> (that is what its \<open>return ...?\<close> asks for), which is a read of its
  own here. The contract the safety rules rely on is the locale \<open>safety_store\<close>, interpreted on the
  definitions below.
\<close>

section \<open>Errors\<close>

text \<open>
  The constructors of \<open>Error\<close> that the safety rules raise. \<open>Panicked\<close> is not one of them: it
  stands for a run that ends in a panic.
\<close>

datatype sr_error =
    IncorrectEpoch u64 u64
  | IncorrectRound u64
  | IncorrectLastVotedRound u64 u64
  | IncorrectPreferredRound u64 u64
  | InvalidAccumulatorExtension string
  | InvalidEpochChangeProof string
  | InternalError string
  | InvalidLedgerInfo
  | InvalidProposal string
  | InvalidQuorumCertificate string
  | NotInitialized string
  | NotSafeForOrderVote u64 u64
  | SecureStorageMissingDataError string
  | SecureStorageUnexpectedError string
  | SerializationError string
  | ValidatorKeyNotFound string
  | ValidatorNotInSet author
  | VoteProposalSignatureNotFound
  | NotSafeToVote u64 u64 u64 u64
  | NotSafeToTimeout u64 u64 u64 u64
  | InvalidTimeoutCertificate string
  | InconsistentExecutionResult block_info block_info
  | InvalidOrderedLedgerInfo ledger_info
  | WaypointOutOfDate u64 u64 u64 u64
  | InvalidTimeout string
  | InvalidOneChainQuorumCertificate hash_value hash_value
  | Panicked string

datatype storage_error =
    PermissionDenied
  | KeyVersionNotFound string
  | KeyNotSet string
  | KeyAlreadyExists string
  | OtherStorageError string

fun sr_error_from_storage :: "storage_error \<Rightarrow> sr_error" where
  "sr_error_from_storage PermissionDenied = Panicked ''A permission error was thrown''"
| "sr_error_from_storage (KeyVersionNotFound k) = SecureStorageMissingDataError k"
| "sr_error_from_storage (KeyNotSet k) = SecureStorageMissingDataError k"
| "sr_error_from_storage (KeyAlreadyExists k) = SecureStorageUnexpectedError k"
| "sr_error_from_storage (OtherStorageError m) = SecureStorageUnexpectedError m"

fun storage_error_to_string :: "storage_error \<Rightarrow> string" where
  "storage_error_to_string PermissionDenied = ''Permission denied''"
| "storage_error_to_string (KeyVersionNotFound k) = k"
| "storage_error_to_string (KeyNotSet k) = k"
| "storage_error_to_string (KeyAlreadyExists k) = k"
| "storage_error_to_string (OtherStorageError m) = m"

section \<open>The key-value store\<close>

record 'st kv_storage =
  kv_get_safety_data :: "'st \<Rightarrow> storage_error + safety_data"
  kv_get_safety_data_as_result :: "'st \<Rightarrow> storage_error + (sr_error + safety_data)"
  kv_set_safety_data :: "safety_data \<Rightarrow> 'st \<Rightarrow> (storage_error + unit) \<times> 'st"
  kv_get_waypoint :: "'st \<Rightarrow> storage_error + waypoint"
  kv_set_waypoint :: "waypoint \<Rightarrow> 'st \<Rightarrow> (storage_error + unit) \<times> 'st"
  kv_get_author :: "'st \<Rightarrow> storage_error + author"
  kv_set_author :: "author \<Rightarrow> 'st \<Rightarrow> (storage_error + unit) \<times> 'st"
  \<comment> \<open>the key \<open>CONSENSUS_KEY\<close> (\<open>None\<close>) or \<open>CONSENSUS_KEY_<pk>\<close>\<close>
  kv_get_private_key :: "nat option \<Rightarrow> 'st \<Rightarrow> storage_error + nat"
  kv_set_private_key :: "nat \<Rightarrow> 'st \<Rightarrow> (storage_error + unit) \<times> 'st"

text \<open>
  The documented behaviour of the store: a write that succeeds is read back, a write that fails
  leaves the value, a write of one key leaves the others, and a value written as a \<open>SafetyData\<close>
  does not deserialize as a \<open>Result\<close>.
\<close>

definition kv_laws :: "'st kv_storage \<Rightarrow> bool" where
  "kv_laws K \<longleftrightarrow>
     (\<forall>d st st'. kv_set_safety_data K d st = (Inr (), st') \<longrightarrow> kv_get_safety_data K st' = Inr d) \<and>
     (\<forall>d st st' e. kv_set_safety_data K d st = (Inl e, st') \<longrightarrow>
        kv_get_safety_data K st' = kv_get_safety_data K st) \<and>
     (\<forall>w st. kv_get_safety_data K (snd (kv_set_waypoint K w st)) = kv_get_safety_data K st) \<and>
     (\<forall>st d. kv_get_safety_data K st = Inr d \<longrightarrow> \<not> is_ok (kv_get_safety_data_as_result K st))"

lemma kv_lawsD:
  assumes "kv_laws K"
  shows "kv_set_safety_data K d st = (Inr u, st') \<Longrightarrow> kv_get_safety_data K st' = Inr d"
    and "kv_set_safety_data K d st = (Inl e, st') \<Longrightarrow> kv_get_safety_data K st' = kv_get_safety_data K st"
    and "kv_set_waypoint K w st = (r, st') \<Longrightarrow> kv_get_safety_data K st' = kv_get_safety_data K st"
    and "kv_get_safety_data K st = Inr d \<Longrightarrow> \<not> is_ok (kv_get_safety_data_as_result K st)"
  using assms unfolding kv_laws_def by (simp, blast, metis snd_conv, blast)

section \<open>PersistentSafetyStorage\<close>

record 'st persistent_safety_storage =
  enable_cached_safety_data :: bool
  cached_safety_data :: "safety_data option"
  internal_store :: 'st

definition pss_new :: "'st \<Rightarrow> bool \<Rightarrow> 'st persistent_safety_storage" where
  "pss_new st enable =
     \<lparr>enable_cached_safety_data = enable, cached_safety_data = None, internal_store = st\<rparr>"

definition pss_author ::
  "'st kv_storage \<Rightarrow> 'st persistent_safety_storage \<Rightarrow> sr_error + author" where
  "pss_author K s = map_err sr_error_from_storage (kv_get_author K (internal_store s))"

definition consensus_sk_by_pk ::
  "laptos \<Rightarrow> 'st kv_storage \<Rightarrow> nat \<Rightarrow> 'st persistent_safety_storage \<Rightarrow> sr_error + nat" where
  "consensus_sk_by_pk L K pk s =
     (let explicit_sk = kv_get_private_key K (Some pk) (internal_store s);
          default_sk = kv_get_private_key K None (internal_store s)
      in bind_res
           (case (explicit_sk, default_sk) of
              (Inr sk_0, _) \<Rightarrow> Inr sk_0
            | (Inl _, Inr sk_1) \<Rightarrow> Inr sk_1
            | (Inl _, Inl _) \<Rightarrow> Inl (ValidatorKeyNotFound ''not found!''))
           (\<lambda>key. if x_public_key L key \<noteq> pk
                  then Inl (SecureStorageMissingDataError ''Incorrect sk saved for the expected pk'')
                  else Inr key))"

definition pss_safety_data ::
  "'st kv_storage \<Rightarrow> 'st persistent_safety_storage \<Rightarrow>
   (sr_error + safety_data) \<times> 'st persistent_safety_storage" where
  "pss_safety_data K s =
     (if \<not> enable_cached_safety_data s then
        (bind_res (map_err sr_error_from_storage (kv_get_safety_data_as_result K (internal_store s)))
           (\<lambda>value. value), s)
      else
        (case cached_safety_data s of
           Some cached \<Rightarrow> (Inr cached, s)
         | None \<Rightarrow>
             (case kv_get_safety_data K (internal_store s) of
                Inl e \<Rightarrow> (Inl (sr_error_from_storage e), s)
              | Inr safety_data \<Rightarrow>
                  (Inr safety_data, s\<lparr>cached_safety_data := Some safety_data\<rparr>))))"

definition pss_set_safety_data ::
  "'st kv_storage \<Rightarrow> safety_data \<Rightarrow> 'st persistent_safety_storage \<Rightarrow>
   (sr_error + unit) \<times> 'st persistent_safety_storage" where
  "pss_set_safety_data K data s =
     (case kv_set_safety_data K data (internal_store s) of
        (Inr _, st') \<Rightarrow>
          (Inr (), s\<lparr>internal_store := st', cached_safety_data := Some data\<rparr>)
      | (Inl error, st') \<Rightarrow>
          (Inl (SecureStorageUnexpectedError (storage_error_to_string error)),
           s\<lparr>internal_store := st', cached_safety_data := None\<rparr>))"

definition pss_waypoint ::
  "'st kv_storage \<Rightarrow> 'st persistent_safety_storage \<Rightarrow> sr_error + waypoint" where
  "pss_waypoint K s = map_err sr_error_from_storage (kv_get_waypoint K (internal_store s))"

definition pss_set_waypoint ::
  "'st kv_storage \<Rightarrow> waypoint \<Rightarrow> 'st persistent_safety_storage \<Rightarrow>
   (sr_error + unit) \<times> 'st persistent_safety_storage" where
  "pss_set_waypoint K w s =
     (case kv_set_waypoint K w (internal_store s) of
        (Inr _, st') \<Rightarrow> (Inr (), s\<lparr>internal_store := st'\<rparr>)
      | (Inl e, st') \<Rightarrow> (Inl (sr_error_from_storage e), s\<lparr>internal_store := st'\<rparr>))"

definition initialize_keys_and_accounts ::
  "'st kv_storage \<Rightarrow> author \<Rightarrow> nat \<Rightarrow> 'st \<Rightarrow> (sr_error + unit) \<times> 'st" where
  "initialize_keys_and_accounts K author consensus_private_key st =
     (case kv_set_private_key K consensus_private_key st of
        (Inl (KeyAlreadyExists _), st') \<Rightarrow> (Inr (), st')
      | (_, st') \<Rightarrow>
          (case kv_set_author K author st' of
             (Inl e, st'') \<Rightarrow> (Inl (sr_error_from_storage e), st'')
           | (Inr _, st'') \<Rightarrow> (Inr (), st'')))"

definition safety_data_new :: "u64 \<Rightarrow> safety_data" where
  "safety_data_new epoch =
     \<lparr>sd_epoch = epoch, sd_last_voted_round = 0, sd_preferred_round = 0, sd_one_chain_round = 0,
      sd_last_vote = None, sd_highest_timeout_round = 0\<rparr>"

text \<open>\<open>PersistentSafetyStorage::initialize\<close>; \<open>None\<close> is the panic of an \<open>expect\<close>.\<close>

definition pss_initialize ::
  "'st kv_storage \<Rightarrow> 'st \<Rightarrow> author \<Rightarrow> nat \<Rightarrow> waypoint \<Rightarrow> bool \<Rightarrow>
   'st persistent_safety_storage option" where
  "pss_initialize K st author consensus_private_key w enable =
     (case initialize_keys_and_accounts K author consensus_private_key st of
        (Inl _, _) \<Rightarrow> None
      | (Inr _, st1) \<Rightarrow>
          (let safety_data = safety_data_new 1;
               s = \<lparr>enable_cached_safety_data = enable, cached_safety_data = Some safety_data,
                    internal_store = st1\<rparr>
           in case pss_set_safety_data K safety_data s of
                (Inl _, _) \<Rightarrow> None
              | (Inr _, s1) \<Rightarrow>
                  (case pss_set_waypoint K w s1 of
                     (Inl _, _) \<Rightarrow> None
                   | (Inr _, s2) \<Rightarrow> Some s2)))"

section \<open>The contract of the storage\<close>

text \<open>
  A store of safety data: \<open>persisted\<close> is what is written down, \<open>get\<close> never returns anything
  else and keeps it, \<open>set\<close> replaces it when it succeeds and keeps it when it fails.
\<close>

locale safety_store =
  fixes ok :: "'s \<Rightarrow> bool" and persisted :: "'s \<Rightarrow> 'd option"
    and get :: "'s \<Rightarrow> ('e + 'd) \<times> 's" and set :: "'d \<Rightarrow> 's \<Rightarrow> ('e + unit) \<times> 's"
  assumes get_ok: "ok s \<Longrightarrow> get s = (r, s') \<Longrightarrow> ok s'"
    and get_keeps: "ok s \<Longrightarrow> get s = (r, s') \<Longrightarrow> persisted s' = persisted s"
    and get_reads: "ok s \<Longrightarrow> get s = (Inr d, s') \<Longrightarrow> persisted s = Some d"
    and set_ok: "ok s \<Longrightarrow> set d s = (w, s') \<Longrightarrow> ok s'"
    and set_writes: "ok s \<Longrightarrow> set d s = (Inr (), s') \<Longrightarrow> persisted s' = Some d"
    and set_fails: "ok s \<Longrightarrow> set d s = (Inl e, s') \<Longrightarrow> persisted s' = persisted s"
begin

lemma get_after_set:
  assumes "ok s" "set d s = (Inr (), s')" "get s' = (Inr d', s'')"
  shows "d' = d"
  using set_writes [OF assms(1,2)] get_reads [OF set_ok [OF assms(1,2)] assms(3)] by simp

lemma get_twice:
  assumes "ok s" "get s = (Inr d, s')" "get s' = (Inr d', s'')"
  shows "d' = d"
  using get_reads [OF assms(1,2)] get_keeps [OF assms(1,2)]
    get_reads [OF get_ok [OF assms(1,2)] assms(3)] by simp

end

definition pss_persisted :: "'st kv_storage \<Rightarrow> 'st persistent_safety_storage \<Rightarrow> safety_data option" where
  "pss_persisted K s = (case kv_get_safety_data K (internal_store s) of Inl _ \<Rightarrow> None | Inr d \<Rightarrow> Some d)"

text \<open>The coherence invariant: the store holds safety data and the cache, if filled, the same.\<close>

definition pss_ok :: "'st kv_storage \<Rightarrow> 'st persistent_safety_storage \<Rightarrow> bool" where
  "pss_ok K s \<longleftrightarrow> kv_laws K \<and>
     (\<exists>d. pss_persisted K s = Some d \<and> cached_safety_data s \<in> {None, Some d})"

lemma pss_persisted_Some: "pss_persisted K s = Some d \<longleftrightarrow> kv_get_safety_data K (internal_store s) = Inr d"
  by (simp add: pss_persisted_def split: sum.split)

interpretation pss: safety_store "pss_ok K" "pss_persisted K" "pss_safety_data K" "pss_set_safety_data K"
  for K :: "'st kv_storage"
proof unfold_locales
  fix s s' :: "'st persistent_safety_storage" and r w and d :: safety_data and e
  assume ok: "pss_ok K s"
  then obtain d0 where d0: "kv_get_safety_data K (internal_store s) = Inr d0"
    and c: "cached_safety_data s \<in> {None, Some d0}" and laws: "kv_laws K"
    by (auto simp: pss_ok_def pss_persisted_Some)
  have res: "\<not> is_ok (kv_get_safety_data_as_result K (internal_store s))"
    by (rule kv_lawsD(4) [OF laws d0])
  show "pss_ok K s'" "pss_persisted K s' = pss_persisted K s" if "pss_safety_data K s = (r, s')"
    using that d0 c laws
    by (auto simp: pss_safety_data_def pss_ok_def pss_persisted_def split: if_splits option.splits)
  show "pss_persisted K s = Some d" if "pss_safety_data K s = (Inr d, s')"
    using that d0 c res
    by (auto simp: pss_safety_data_def pss_persisted_Some is_ok_iff split: if_splits option.splits)
  show "pss_ok K s'" if "pss_set_safety_data K d s = (w, s')"
    using that laws d0 kv_lawsD(1,2) [OF laws, of d "internal_store s"]
    by (auto simp: pss_set_safety_data_def pss_ok_def pss_persisted_Some
        split: prod.splits sum.splits)
  show "pss_persisted K s' = Some d" if "pss_set_safety_data K d s = (Inr (), s')"
    using that kv_lawsD(1) [OF laws, of d "internal_store s"]
    by (auto simp: pss_set_safety_data_def pss_persisted_Some split: prod.splits sum.splits)
  show "pss_persisted K s' = pss_persisted K s" if "pss_set_safety_data K d s = (Inl e, s')"
    using that kv_lawsD(2) [OF laws, of d "internal_store s"]
    by (auto simp: pss_set_safety_data_def pss_persisted_def split: prod.splits sum.splits)
qed

lemma pss_set_waypoint_keeps:
  assumes "pss_ok K s" "pss_set_waypoint K w s = (r, s')"
  shows "pss_ok K s'" "pss_persisted K s' = pss_persisted K s"
proof -
  have "kv_get_safety_data K (internal_store s') = kv_get_safety_data K (internal_store s)"
    using assms kv_lawsD(3) [of K w "internal_store s"]
    by (auto simp: pss_set_waypoint_def pss_ok_def split: prod.splits sum.splits)
  moreover have "cached_safety_data s' = cached_safety_data s"
    using assms(2) by (auto simp: pss_set_waypoint_def split: prod.splits sum.splits)
  ultimately show "pss_ok K s'" "pss_persisted K s' = pss_persisted K s"
    using assms(1) by (auto simp: pss_ok_def pss_persisted_def)
qed

section \<open>An in-memory store for the witnesses\<close>

record mem_store =
  ms_safety_data :: "safety_data option"
  ms_waypoint :: waypoint
  ms_author :: author
  ms_key :: nat

definition mem_kv :: "mem_store kv_storage" where
  "mem_kv =
     \<lparr>kv_get_safety_data = (\<lambda>st. ok_or (KeyNotSet ''safety_data'') (ms_safety_data st)),
      kv_get_safety_data_as_result = (\<lambda>st. Inl (OtherStorageError ''unknown variant'')),
      kv_set_safety_data = (\<lambda>d st. (Inr (), st\<lparr>ms_safety_data := Some d\<rparr>)),
      kv_get_waypoint = (\<lambda>st. Inr (ms_waypoint st)),
      kv_set_waypoint = (\<lambda>w st. (Inr (), st\<lparr>ms_waypoint := w\<rparr>)),
      kv_get_author = (\<lambda>st. Inr (ms_author st)),
      kv_set_author = (\<lambda>a st. (Inr (), st\<lparr>ms_author := a\<rparr>)),
      kv_get_private_key = (\<lambda>k st. Inr (ms_key st)),
      kv_set_private_key = (\<lambda>k st. (Inr (), st\<lparr>ms_key := k\<rparr>))\<rparr>"

lemma kv_laws_mem [simp]: "kv_laws mem_kv"
  by (simp add: kv_laws_def mem_kv_def)

definition ex_mem_store :: mem_store where
  "ex_mem_store =
     \<lparr>ms_safety_data = Some (safety_data_new 1), ms_waypoint = \<lparr>wp_version = 0, wp_value = 0\<rparr>,
      ms_author = 0, ms_key = 0\<rparr>"

lemma pss_ok_ex_mem [simp]: "pss_ok mem_kv (pss_new ex_mem_store enable)"
  by (simp add: pss_ok_def pss_persisted_def pss_new_def) (simp add: mem_kv_def ex_mem_store_def)

section \<open>Properties\<close>

text \<open>
  C8. What is persisted survives a crash: after a successful \<open>set_safety_data\<close>, a restart on the
  same store (a new \<open>PersistentSafetyStorage\<close> with an empty cache) reads back exactly the data
  that were set, and so does every later read.
\<close>

theorem set_restart_get_roundtrip:
  assumes "kv_laws K" "pss_set_safety_data K d s = (Inr (), s')"
    and "pss_safety_data K (pss_new (internal_store s') True) = (r, s'')"
  shows "r = Inr d \<and> fst (pss_safety_data K s'') = Inr d"
  using assms kv_lawsD(1) [OF assms(1), of d "internal_store s"]
  by (auto simp: pss_set_safety_data_def pss_safety_data_def pss_new_def split: prod.splits sum.splits)

theorem set_restart_get_roundtrip_witness:
  "\<exists>s' r s''. pss_set_safety_data mem_kv (safety_data_new 5) (pss_new ex_mem_store True) = (Inr (), s') \<and>
     pss_safety_data mem_kv (pss_new (internal_store s') True) = (r, s'') \<and> r = Inr (safety_data_new 5)"
proof -
  let ?x = "pss_set_safety_data mem_kv (safety_data_new 5) (pss_new ex_mem_store True)"
  let ?y = "pss_safety_data mem_kv (pss_new (internal_store (snd ?x)) True)"
  have x: "?x = (Inr (), snd ?x)"
    by (simp add: pss_set_safety_data_def mem_kv_def pss_new_def)
  show ?thesis
    using set_restart_get_roundtrip [OF kv_laws_mem x, of "fst ?y" "snd ?y"] x
    by (metis prod.collapse)
qed



end
