(* ===== verification/Safety_Rules.thy ===== *)
theory Safety_Rules
  imports Safety_Storage
begin

text \<open>
  The safety rules of a validator (safety\_rules.rs, safety\_rules\_2chain.rs): the operations of
  \<open>TSafetyRules\<close> with every guard, in the order of the source, over the state of \<open>SafetyRules\<close>. An
  operation that fails leaves a state too, since a write may precede the failure. What the
  operations guarantee is in theory \<open>Safety_Rules_Facts\<close>.
\<close>

section \<open>State and checks\<close>

record 'st safety_rules =
  persistent_storage :: "'st persistent_safety_storage"
  validator_signer :: "(author \<times> nat) option"
  sr_epoch_state :: "epoch_state option"

definition safety_rules_new :: "'st persistent_safety_storage \<Rightarrow> 'st safety_rules" where
  "safety_rules_new ps =
     \<lparr>persistent_storage = ps, validator_signer = None, sr_epoch_state = None\<rparr>"

definition next_round :: "round \<Rightarrow> sr_error + round" where
  "next_round r = ok_or (IncorrectRound r) (checked_add r 1)"

definition signer :: "'st safety_rules \<Rightarrow> sr_error + (author \<times> nat)" where
  "signer s = ok_or (NotInitialized ''validator_signer'') (validator_signer s)"

definition epoch_state :: "'st safety_rules \<Rightarrow> sr_error + epoch_state" where
  "epoch_state s = ok_or (NotInitialized ''epoch_state'') (sr_epoch_state s)"

definition sign :: "laptos \<Rightarrow> signed_msg \<Rightarrow> 'st safety_rules \<Rightarrow> sr_error + signature" where
  "sign L msg s =
     bind_res (signer s) (\<lambda>(_, key). ok_or (SerializationError ''sign'') (x_sign L key msg))"

definition sr_safety_data :: "'st kv_storage \<Rightarrow> ('st safety_rules, sr_error, safety_data) op" where
  "sr_safety_data K s =
     (case pss_safety_data K (persistent_storage s) of
        (r, ps) \<Rightarrow> (r, s\<lparr>persistent_storage := ps\<rparr>))"

definition sr_set_safety_data ::
  "'st kv_storage \<Rightarrow> safety_data \<Rightarrow> ('st safety_rules, sr_error, unit) op" where
  "sr_set_safety_data K d s =
     (case pss_set_safety_data K d (persistent_storage s) of
        (r, ps) \<Rightarrow> (r, s\<lparr>persistent_storage := ps\<rparr>))"

definition sr_set_waypoint ::
  "'st kv_storage \<Rightarrow> waypoint \<Rightarrow> ('st safety_rules, sr_error, unit) op" where
  "sr_set_waypoint K w s =
     (case pss_set_waypoint K w (persistent_storage s) of
        (r, ps) \<Rightarrow> (r, s\<lparr>persistent_storage := ps\<rparr>))"

definition verify_epoch :: "u64 \<Rightarrow> safety_data \<Rightarrow> sr_error + unit" where
  "verify_epoch epoch sd =
     (if epoch \<noteq> sd_epoch sd then Inl (IncorrectEpoch epoch (sd_epoch sd)) else Inr ())"

definition verify_qc :: "laptos \<Rightarrow> quorum_cert \<Rightarrow> 'st safety_rules \<Rightarrow> sr_error + unit" where
  "verify_qc L qc s =
     bind_res (epoch_state s) (\<lambda>es.
       map_err InvalidQuorumCertificate (qc_verify L (es_verifier es) qc))"

definition verify_tc :: "laptos \<Rightarrow> timeout_cert \<Rightarrow> 'st safety_rules \<Rightarrow> sr_error + unit" where
  "verify_tc L tc s =
     bind_res (epoch_state s) (\<lambda>es.
       map_err InvalidTimeoutCertificate (tc_verify L (es_verifier es) tc))"

definition verify_maybe_tc ::
  "laptos \<Rightarrow> timeout_cert option \<Rightarrow> 'st safety_rules \<Rightarrow> sr_error + unit" where
  "verify_maybe_tc L maybe_tc s = (case maybe_tc of None \<Rightarrow> Inr () | Some tc \<Rightarrow> verify_tc L tc s)"

definition verify_author :: "author option \<Rightarrow> 'st safety_rules \<Rightarrow> sr_error + unit" where
  "verify_author author s =
     bind_res (signer s) (\<lambda>(validator_signer_author, _).
     bind_res (ok_or (InvalidProposal ''No author found in the proposal'') author) (\<lambda>a.
     if validator_signer_author \<noteq> a
     then Inl (InvalidProposal ''Proposal author is not validator signer!'') else Inr ()))"

text \<open>\<open>observe_qc\<close>: the updated data and whether anything changed.\<close>

definition observe_qc :: "quorum_cert \<Rightarrow> safety_data \<Rightarrow> safety_data \<times> bool" where
  "observe_qc qc sd =
     (let one_chain = bi_round (certified_block qc);
          two_chain = bi_round (parent_block qc);
          (sd1, updated1) =
            (if one_chain > sd_one_chain_round sd
             then (sd\<lparr>sd_one_chain_round := one_chain\<rparr>, True) else (sd, False));
          (sd2, updated2) =
            (if two_chain > sd_preferred_round sd1
             then (sd1\<lparr>sd_preferred_round := two_chain\<rparr>, True) else (sd1, updated1))
      in (sd2, updated2))"

definition update_highest_timeout_round :: "two_chain_timeout \<Rightarrow> safety_data \<Rightarrow> safety_data" where
  "update_highest_timeout_round timeout sd =
     (if tt_round timeout > sd_highest_timeout_round sd
      then sd\<lparr>sd_highest_timeout_round := tt_round timeout\<rparr> else sd)"

definition verify_and_update_preferred_round ::
  "quorum_cert \<Rightarrow> safety_data \<Rightarrow> sr_error + (safety_data \<times> bool)" where
  "verify_and_update_preferred_round qc sd =
     (let preferred_round = sd_preferred_round sd; one_chain_round = bi_round (certified_block qc) in
      if one_chain_round < preferred_round
      then Inl (IncorrectPreferredRound one_chain_round preferred_round)
      else Inr (observe_qc qc sd))"

definition verify_and_update_last_vote_round :: "round \<Rightarrow> safety_data \<Rightarrow> sr_error + safety_data" where
  "verify_and_update_last_vote_round round sd =
     (if round \<le> sd_last_voted_round sd
      then Inl (IncorrectLastVotedRound round (sd_last_voted_round sd))
      else Inr (sd\<lparr>sd_last_voted_round := round\<rparr>))"

section \<open>The two-chain rules\<close>

definition safe_to_timeout ::
  "two_chain_timeout \<Rightarrow> timeout_cert option \<Rightarrow> safety_data \<Rightarrow> sr_error + unit" where
  "safe_to_timeout timeout maybe_tc sd =
     (let round = tt_round timeout;
          qc_round = tt_hqc_round timeout;
          tc_round' = (case maybe_tc of None \<Rightarrow> 0 | Some tc \<Rightarrow> tc_round tc)
      in bind_res (next_round qc_round) (\<lambda>qn.
         bind_res (if round = qn then Inr True
                   else bind_res (next_round tc_round') (\<lambda>tn. Inr (round = tn))) (\<lambda>c.
         if c \<and> qc_round \<ge> sd_one_chain_round sd then Inr ()
         else Inl (NotSafeToTimeout round qc_round tc_round' (sd_one_chain_round sd)))))"

definition safe_to_vote :: "block \<Rightarrow> timeout_cert option \<Rightarrow> sr_error + unit" where
  "safe_to_vote b maybe_tc =
     (let round = bk_round b;
          qc_round = bi_round (certified_block (bk_quorum_cert b));
          tc_round' = (case maybe_tc of None \<Rightarrow> 0 | Some tc \<Rightarrow> tc_round tc);
          hqc_round = (case maybe_tc of None \<Rightarrow> 0 | Some tc \<Rightarrow> tc_highest_hqc_round tc)
      in bind_res (next_round qc_round) (\<lambda>qn.
         bind_res (if round = qn then Inr True
                   else bind_res (next_round tc_round') (\<lambda>tn. Inr (round = tn \<and> qc_round \<ge> hqc_round))) (\<lambda>c.
         if c then Inr () else Inl (NotSafeToVote round qc_round tc_round' hqc_round))))"

definition safe_for_order_vote :: "block \<Rightarrow> safety_data \<Rightarrow> sr_error + unit" where
  "safe_for_order_vote b sd =
     (if bk_round b > sd_highest_timeout_round sd then Inr ()
      else Inl (NotSafeForOrderVote (bk_round b) (sd_highest_timeout_round sd)))"

definition construct_ledger_info_2chain ::
  "laptos \<Rightarrow> block \<Rightarrow> hash_value \<Rightarrow> sr_error + ledger_info" where
  "construct_ledger_info_2chain L proposed_block consensus_data_hash =
     (let block1 = bk_round proposed_block;
          block0 = bi_round (certified_block (bk_quorum_cert proposed_block))
      in bind_res (next_round block0) (\<lambda>n.
         let commit_info = (if n = block1 then certified_block (bk_quorum_cert proposed_block)
                            else x_block_info_empty L)
         in Inr \<lparr>li_commit_info = commit_info, li_consensus_data_hash = consensus_data_hash, li_block = None\<rparr>))"

section \<open>Operations\<close>

definition verify_proposal ::
  "laptos \<Rightarrow> 'st kv_storage \<Rightarrow> u64 \<Rightarrow> vote_proposal \<Rightarrow> ('st safety_rules, sr_error, vote_data) op" where
  "verify_proposal L K now vp =
     (let b = vp_block vp in
      bind_op (sr_safety_data K) (\<lambda>sd.
      bind_op (of_res (verify_epoch (bk_epoch b) sd)) (\<lambda>_.
      bind_op (read_op (verify_qc L (bk_quorum_cert b))) (\<lambda>_.
      bind_op (read_op epoch_state) (\<lambda>es.
      bind_op (of_res (map_err InvalidProposal (validate_signature L (es_verifier es) b))) (\<lambda>_.
      bind_op (of_res (map_err InvalidProposal (verify_well_formed L now b))) (\<lambda>_.
      of_res (ok_or (Panicked ''decoupled_execution must be true'') (gen_vote_data L vp)))))))))"

definition verify_order_vote_proposal ::
  "laptos \<Rightarrow> 'st kv_storage \<Rightarrow> order_vote_proposal \<Rightarrow> ('st safety_rules, sr_error, unit) op" where
  "verify_order_vote_proposal L K ovp =
     (let b = ovp_block ovp; qc = ovp_quorum_cert ovp in
      bind_op (sr_safety_data K) (\<lambda>sd.
      bind_op (of_res (verify_epoch (bk_epoch b) sd)) (\<lambda>_.
      if certified_block qc \<noteq> ovp_block_info ovp then
        throw (InvalidOneChainQuorumCertificate (bi_id (certified_block qc)) (bi_id (ovp_block_info ovp)))
      else if bi_id (certified_block qc) \<noteq> bk_id b then
        throw (InvalidOneChainQuorumCertificate (bi_id (certified_block qc)) (bk_id b))
      else read_op (verify_qc L qc))))"

definition guarded_sign_timeout_with_qc ::
  "laptos \<Rightarrow> 'st kv_storage \<Rightarrow> two_chain_timeout \<Rightarrow> timeout_cert option \<Rightarrow>
   ('st safety_rules, sr_error, signature) op" where
  "guarded_sign_timeout_with_qc L K timeout timeout_cert =
     bind_op (read_op signer) (\<lambda>_.
     bind_op (sr_safety_data K) (\<lambda>sd.
     bind_op (of_res (verify_epoch (tt_epoch timeout) sd)) (\<lambda>_.
     bind_op (read_op epoch_state) (\<lambda>es.
     bind_op (of_res (map_err InvalidTimeout (tt_verify L (es_verifier es) timeout))) (\<lambda>_.
     bind_op (read_op (verify_maybe_tc L timeout_cert)) (\<lambda>_.
     bind_op (of_res (safe_to_timeout timeout timeout_cert sd)) (\<lambda>_.
     if tt_round timeout < sd_last_voted_round sd then
       throw (IncorrectLastVotedRound (tt_round timeout) (sd_last_voted_round sd))
     else
       bind_op (of_res (if tt_round timeout > sd_last_voted_round sd
                        then verify_and_update_last_vote_round (tt_round timeout) sd else Inr sd))
       (\<lambda>sd1.
       bind_op (sr_set_safety_data K (update_highest_timeout_round timeout sd1)) (\<lambda>_.
       read_op (sign L (MsgTimeout (tt_signing_format timeout))))))))))))"

text \<open>The part of \<open>guarded_construct_and_sign_vote_two_chain\<close> after the check for an earlier vote.\<close>

definition vote_fresh ::
  "laptos \<Rightarrow> 'st kv_storage \<Rightarrow> block \<Rightarrow> vote_data \<Rightarrow> timeout_cert option \<Rightarrow> safety_data \<Rightarrow>
   ('st safety_rules, sr_error, vote) op" where
  "vote_fresh L K b vote_data timeout_cert sd =
     bind_op (of_res (verify_and_update_last_vote_round (bd_round (bk_block_data b)) sd)) (\<lambda>sd1.
     bind_op (of_res (safe_to_vote b timeout_cert)) (\<lambda>_.
     let sd2 = fst (observe_qc (bk_quorum_cert b) sd1) in
     bind_op (read_op signer) (\<lambda>(author, _).
     bind_op (of_res (construct_ledger_info_2chain L b (x_hash_vote_data L vote_data))) (\<lambda>ledger_info.
     bind_op (read_op (sign L (MsgLedgerInfo ledger_info))) (\<lambda>signature.
     let vote = \<lparr>v_vote_data = vote_data, v_author = author, v_ledger_info = ledger_info,
                 v_signature = signature, v_two_chain_timeout = None\<rparr> in
     bind_op (sr_set_safety_data K (sd2\<lparr>sd_last_vote := Some vote\<rparr>)) (\<lambda>_.
     ret vote))))))"

definition guarded_construct_and_sign_vote_two_chain ::
  "laptos \<Rightarrow> 'st kv_storage \<Rightarrow> u64 \<Rightarrow> vote_proposal \<Rightarrow> timeout_cert option \<Rightarrow>
   ('st safety_rules, sr_error, vote) op" where
  "guarded_construct_and_sign_vote_two_chain L K now vp timeout_cert =
     bind_op (read_op signer) (\<lambda>_.
     bind_op (verify_proposal L K now vp) (\<lambda>vote_data.
     bind_op (read_op (verify_maybe_tc L timeout_cert)) (\<lambda>_.
     let b = vp_block vp in
     bind_op (sr_safety_data K) (\<lambda>sd.
     case sd_last_vote sd of
       Some vote \<Rightarrow>
         if v_round vote = bk_round b then ret vote
         else vote_fresh L K b vote_data timeout_cert sd
     | None \<Rightarrow> vote_fresh L K b vote_data timeout_cert sd))))"

definition guarded_construct_and_sign_order_vote ::
  "laptos \<Rightarrow> 'st kv_storage \<Rightarrow> order_vote_proposal \<Rightarrow> ('st safety_rules, sr_error, order_vote) op" where
  "guarded_construct_and_sign_order_vote L K ovp =
     bind_op (read_op signer) (\<lambda>_.
     bind_op (verify_order_vote_proposal L K ovp) (\<lambda>_.
     let b = ovp_block ovp in
     bind_op (sr_safety_data K) (\<lambda>sd.
     let sd1 = fst (observe_qc (ovp_quorum_cert ovp) sd) in
     bind_op (of_res (safe_for_order_vote b sd1)) (\<lambda>_.
     bind_op (read_op signer) (\<lambda>(author, _).
     let ledger_info = \<lparr>li_commit_info = ovp_block_info ovp, li_consensus_data_hash = x_hash_zero L, li_block = None\<rparr> in
     bind_op (read_op (sign L (MsgLedgerInfo ledger_info))) (\<lambda>signature.
     let order_vote = \<lparr>ov_author = author, ov_ledger_info = ledger_info, ov_signature = signature\<rparr> in
     bind_op (sr_set_safety_data K sd1) (\<lambda>_.
     ret order_vote)))))))"

text \<open>The trace line of \<open>guarded_consensus_state\<close>, which only runs when tracing is on, is left out.\<close>

definition guarded_consensus_state ::
  "'st kv_storage \<Rightarrow> ('st safety_rules, sr_error, safety_data \<times> waypoint \<times> bool) op" where
  "guarded_consensus_state K =
     bind_op (read_op (\<lambda>s. pss_waypoint K (persistent_storage s))) (\<lambda>_.
     bind_op (sr_safety_data K) (\<lambda>_.
     bind_op (sr_safety_data K) (\<lambda>sd.
     bind_op (read_op (\<lambda>s. pss_waypoint K (persistent_storage s))) (\<lambda>w.
     read_op (\<lambda>s. Inr (sd, w, is_ok (signer s)))))))"

text \<open>The end of \<open>guarded_initialize\<close>: find the key of this epoch, drop the signer on failure.\<close>

definition reconcile_key ::
  "laptos \<Rightarrow> 'st kv_storage \<Rightarrow> epoch_state \<Rightarrow> author \<Rightarrow> ('st safety_rules, sr_error, unit) op" where
  "reconcile_key L K es author s =
     (let initialize_result =
        (case x_get_public_key L (es_verifier es) author of
           None \<Rightarrow> (Inl (ValidatorNotInSet author), s)
         | Some expected_key \<Rightarrow>
             if (case signer s of Inl _ \<Rightarrow> None | Inr (_, key) \<Rightarrow> Some (x_public_key L key)) = Some expected_key
             then (Inr (), s)
             else
               (case consensus_sk_by_pk L K expected_key (persistent_storage s) of
                  Inr consensus_key \<Rightarrow> (Inr (), s\<lparr>validator_signer := Some (author, consensus_key)\<rparr>)
                | Inl (SecureStorageMissingDataError error) \<Rightarrow> (Inl (ValidatorKeyNotFound error), s)
                | Inl error \<Rightarrow> (Inl error, s)))
      in case initialize_result of
           (Inl error, s') \<Rightarrow> (Inl error, s'\<lparr>validator_signer := None\<rparr>)
         | (Inr _, s') \<Rightarrow> (Inr (), s'))"

text \<open>The middle of \<open>guarded_initialize\<close>: compare the epochs, start a new one, adopt the state.\<close>

definition adopt_epoch_state ::
  "laptos \<Rightarrow> 'st kv_storage \<Rightarrow> epoch_state \<Rightarrow> ('st safety_rules, sr_error, unit) op" where
  "adopt_epoch_state L K es =
     bind_op (\<lambda>s. (Inr (), s\<lparr>sr_epoch_state := Some es\<rparr>)) (\<lambda>_.
     bind_op (read_op (\<lambda>s. pss_author K (persistent_storage s))) (\<lambda>author.
     reconcile_key L K es author))"

definition enter_epoch ::
  "laptos \<Rightarrow> 'st kv_storage \<Rightarrow> waypoint \<Rightarrow> waypoint \<Rightarrow> epoch_state \<Rightarrow>
   ('st safety_rules, sr_error, unit) op" where
  "enter_epoch L K waypoint new_waypoint es =
     bind_op (sr_safety_data K) (\<lambda>sd.
     let current_epoch = sd_epoch sd in
     bind_op (if current_epoch > es_epoch es then
                throw (WaypointOutOfDate (wp_version waypoint) (wp_version new_waypoint)
                         current_epoch (es_epoch es))
              else if current_epoch < es_epoch es then
                sr_set_safety_data K (safety_data_new (es_epoch es))
              else ret ()) (\<lambda>_.
     adopt_epoch_state L K es))"

definition guarded_initialize ::
  "laptos \<Rightarrow> 'st kv_storage \<Rightarrow> nat \<Rightarrow> ('st safety_rules, sr_error, unit) op" where
  "guarded_initialize L K proof =
     bind_op (read_op (\<lambda>s. pss_waypoint K (persistent_storage s))) (\<lambda>waypoint.
     bind_op (of_res (map_err InvalidEpochChangeProof (x_epoch_change_proof_verify L proof waypoint)))
     (\<lambda>last_li.
     let ledger_info = lws_ledger_info last_li in
     bind_op (of_res (ok_or InvalidLedgerInfo (x_li_next_epoch_state L ledger_info))) (\<lambda>es.
     bind_op (of_res (map_err InternalError (x_waypoint_new_epoch_boundary L ledger_info)))
     (\<lambda>new_waypoint.
     bind_op (if wp_version new_waypoint > wp_version waypoint
              then sr_set_waypoint K new_waypoint else ret ()) (\<lambda>_.
     enter_epoch L K waypoint new_waypoint es)))))"

definition guarded_sign_proposal ::
  "laptos \<Rightarrow> 'st kv_storage \<Rightarrow> block_data \<Rightarrow> ('st safety_rules, sr_error, signature) op" where
  "guarded_sign_proposal L K bd =
     bind_op (read_op signer) (\<lambda>_.
     bind_op (read_op (verify_author (bt_author (bd_block_type bd)))) (\<lambda>_.
     bind_op (sr_safety_data K) (\<lambda>sd.
     bind_op (of_res (verify_epoch (bd_epoch bd) sd)) (\<lambda>_.
     if bd_round bd \<le> sd_last_voted_round sd then
       throw (InvalidProposal ''Proposed round is not higher than last voted round'')
     else
       bind_op (read_op (verify_qc L (bd_quorum_cert bd))) (\<lambda>_.
       bind_op (of_res (verify_and_update_preferred_round (bd_quorum_cert bd) sd)) (\<lambda>_.
       read_op (sign L (MsgBlockData bd))))))))"

definition guarded_sign_commit_vote ::
  "laptos \<Rightarrow> li_with_sigs \<Rightarrow> ledger_info \<Rightarrow> ('st safety_rules, sr_error, signature) op" where
  "guarded_sign_commit_vote L ledger_info new_ledger_info =
     bind_op (read_op signer) (\<lambda>_.
     let old_ledger_info = lws_ledger_info ledger_info in
     if \<not> x_is_ordered_only L (li_commit_info old_ledger_info) \<and>
        li_commit_info old_ledger_info \<noteq> li_commit_info new_ledger_info then
       throw (InvalidOrderedLedgerInfo old_ledger_info)
     else if \<not> x_match_ordered_only L (li_commit_info old_ledger_info) (li_commit_info new_ledger_info) then
       throw (InconsistentExecutionResult (li_commit_info old_ledger_info) (li_commit_info new_ledger_info))
     else
       bind_op (read_op epoch_state) (\<lambda>es.
       if x_verify_signatures L (es_verifier es) ledger_info
       then read_op (sign L (MsgLedgerInfo new_ledger_info))
       else throw (InvalidQuorumCertificate ''verify_signatures'')))"

end
