(* ===== verification/Safety_Rules_Facts.thy ===== *)
theory Safety_Rules_Facts
  imports Safety_Rules
begin

text \<open>
  What the operations of \<open>Safety_Rules\<close> do: for each, the checks a success has passed, what it
  signs and what it persists, and that a failure leaves the persisted data (by the weakest
  preconditions of \<open>Prelude\<close>). The machine at the end runs any sequence of operations and
  restarts; it is an instance of \<open>monotone_machine\<close>: the persisted safety data never go back.
\<close>

section \<open>What the operations do to the persisted data\<close>

definition sr_persisted :: "'st kv_storage \<Rightarrow> 'st safety_rules \<Rightarrow> safety_data option" where
  "sr_persisted K s = pss_persisted K (persistent_storage s)"

definition sr_ok :: "'st kv_storage \<Rightarrow> 'st safety_rules \<Rightarrow> bool" where
  "sr_ok K s = pss_ok K (persistent_storage s)"

text \<open>\<open>sr_frame\<close>: the signer and the epoch are untouched. \<open>sr_same\<close>: so are the persisted data.\<close>

definition sr_frame :: "'st kv_storage \<Rightarrow> 'st safety_rules \<Rightarrow> 'st safety_rules \<Rightarrow> bool" where
  "sr_frame K s s' \<longleftrightarrow> sr_ok K s' \<and> validator_signer s' = validator_signer s \<and>
     sr_epoch_state s' = sr_epoch_state s"

definition sr_same :: "'st kv_storage \<Rightarrow> 'st safety_rules \<Rightarrow> 'st safety_rules \<Rightarrow> bool" where
  "sr_same K s s' \<longleftrightarrow> sr_frame K s s' \<and> sr_persisted K s' = sr_persisted K s"

lemma sr_same_refl [simp]: "sr_ok K s \<Longrightarrow> sr_same K s s"
  by (simp add: sr_same_def sr_frame_def)

lemma sr_same_trans: "sr_same K s t \<Longrightarrow> sr_same K t u \<Longrightarrow> sr_same K s u"
  by (simp add: sr_same_def sr_frame_def)

lemma sr_sameD:
  "sr_same K s s' \<Longrightarrow> sr_ok K s'"
  "sr_same K s s' \<Longrightarrow> sr_persisted K s' = sr_persisted K s"
  "sr_same K s s' \<Longrightarrow> validator_signer s' = validator_signer s"
  "sr_same K s s' \<Longrightarrow> sr_epoch_state s' = sr_epoch_state s"
  "sr_same K s s' \<Longrightarrow> signer s' = signer s"
  "sr_same K s s' \<Longrightarrow> epoch_state s' = epoch_state s"
  "sr_same K s s' \<Longrightarrow> sign L m s' = sign L m s"
  "sr_same K s s' \<Longrightarrow> verify_qc L qc s' = verify_qc L qc s"
  "sr_same K s s' \<Longrightarrow> verify_maybe_tc L mtc s' = verify_maybe_tc L mtc s"
  by (simp_all add: sr_same_def sr_frame_def signer_def epoch_state_def sign_def verify_qc_def
      verify_maybe_tc_def verify_tc_def split: option.split)

lemma sr_persisted_exists: "sr_ok K s \<Longrightarrow> \<exists>d. sr_persisted K s = Some d"
  by (auto simp: sr_ok_def sr_persisted_def pss_ok_def)

lemma wp_sr_safety_data:
  assumes "sr_ok K s"
    and "\<And>d s'. sr_same K s s' \<Longrightarrow> sr_persisted K s = Some d \<Longrightarrow> Q d s'"
    and "\<And>e s'. sr_same K s s' \<Longrightarrow> E e s'"
  shows "wp (sr_safety_data K) Q E s"
proof -
  obtain r ps where r: "pss_safety_data K (persistent_storage s) = (r, ps)" by fastforce
  have ok: "pss_ok K (persistent_storage s)" using assms(1) by (simp add: sr_ok_def)
  have "sr_same K s (s\<lparr>persistent_storage := ps\<rparr>)"
    using pss.get_ok [OF ok r] pss.get_keeps [OF ok r]
    by (simp add: sr_same_def sr_frame_def sr_ok_def sr_persisted_def)
  then show ?thesis
    using r assms(2,3) pss.get_reads [OF ok] unfolding wp_def sr_safety_data_def
    by (cases r) (auto simp: sr_persisted_def)
qed

lemma wp_sr_set_safety_data:
  assumes "sr_ok K s"
    and "\<And>s'. sr_frame K s s' \<Longrightarrow> sr_persisted K s' = Some d \<Longrightarrow> Q () s'"
    and "\<And>e s'. sr_same K s s' \<Longrightarrow> E e s'"
  shows "wp (sr_set_safety_data K d) Q E s"
proof -
  obtain r ps where r: "pss_set_safety_data K d (persistent_storage s) = (r, ps)" by fastforce
  have ok: "pss_ok K (persistent_storage s)" using assms(1) by (simp add: sr_ok_def)
  have f: "sr_frame K s (s\<lparr>persistent_storage := ps\<rparr>)"
    using pss.set_ok [OF ok r] by (simp add: sr_frame_def sr_ok_def)
  show ?thesis
  proof (cases r)
    case (Inl e)
    then show ?thesis
      using r f assms(3) pss.set_fails [OF ok, of d e ps] unfolding wp_def sr_set_safety_data_def
      by (simp add: sr_same_def sr_persisted_def)
  next
    case (Inr u)
    then show ?thesis
      using r f assms(2) pss.set_writes [OF ok, of d ps] unfolding wp_def sr_set_safety_data_def
      by (simp add: sr_persisted_def)
  qed
qed

text \<open>What a successful \<open>verify_proposal\<close> has checked.\<close>

definition proposal_checked ::
  "laptos \<Rightarrow> u64 \<Rightarrow> vote_proposal \<Rightarrow> epoch_state \<Rightarrow> safety_data \<Rightarrow> bool" where
  "proposal_checked L now vp es d \<longleftrightarrow>
     bk_epoch (vp_block vp) = sd_epoch d \<and>
     qc_verify L (es_verifier es) (bk_quorum_cert (vp_block vp)) = Inr () \<and>
     validate_signature L (es_verifier es) (vp_block vp) = Inr () \<and>
     verify_well_formed L now (vp_block vp) = Inr ()"

lemma wp_verify_proposal:
  assumes "sr_ok K s"
  shows "wp (verify_proposal L K now vp)
     (\<lambda>vd s'. sr_same K s s' \<and> vd = vote_data_ordering_only L vp \<and>
        (\<exists>d es. sr_persisted K s = Some d \<and> sr_epoch_state s = Some es \<and> proposal_checked L now vp es d))
     (\<lambda>_ s'. sr_same K s s') s"
  unfolding verify_proposal_def Let_def wp_bind
  by (rule wp_sr_safety_data [OF assms])
    (auto simp: sr_sameD verify_epoch_def verify_qc_def epoch_state_def gen_vote_data_def
      proposal_checked_def split: if_splits)

definition vote_update :: "block \<Rightarrow> vote \<Rightarrow> safety_data \<Rightarrow> safety_data" where
  "vote_update b v d =
     fst (observe_qc (bk_quorum_cert b) (d\<lparr>sd_last_voted_round := bk_round b\<rparr>))\<lparr>sd_last_vote := Some v\<rparr>"

text \<open>A fresh vote: what is checked, what is signed, what is persisted.\<close>

definition fresh_vote ::
  "laptos \<Rightarrow> vote_proposal \<Rightarrow> timeout_cert option \<Rightarrow> author \<Rightarrow> safety_data \<Rightarrow> vote \<Rightarrow> bool" where
  "fresh_vote L vp mtc author d v \<longleftrightarrow>
     sd_last_voted_round d < bk_round (vp_block vp) \<and>
     safe_to_vote (vp_block vp) mtc = Inr () \<and>
     v_author v = author \<and> v_two_chain_timeout v = None \<and>
     v_vote_data v = vote_data_ordering_only L vp \<and>
     construct_ledger_info_2chain L (vp_block vp) (x_hash_vote_data L (v_vote_data v)) = Inr (v_ledger_info v)"

lemma wp_vote_fresh:
  assumes "sr_ok K s" "sr_persisted K s = Some d"
  shows "wp (vote_fresh L K (vp_block vp) (vote_data_ordering_only L vp) mtc d)
     (\<lambda>v s'. sr_frame K s s' \<and> sr_persisted K s' = Some (vote_update (vp_block vp) v d) \<and>
        (\<exists>a k. validator_signer s = Some (a, k) \<and> fresh_vote L vp mtc a d v))
     (\<lambda>_ s'. sr_same K s s') s"
  unfolding vote_fresh_def Let_def wp_bind
  using assms
  by (auto simp: verify_and_update_last_vote_round_def signer_def fresh_vote_def vote_update_def
      block_accessor_defs split: if_splits intro!: wp_sr_set_safety_data)

definition vote_post ::
  "laptos \<Rightarrow> 'st kv_storage \<Rightarrow> u64 \<Rightarrow> vote_proposal \<Rightarrow> timeout_cert option \<Rightarrow>
   'st safety_rules \<Rightarrow> vote \<Rightarrow> 'st safety_rules \<Rightarrow> bool" where
  "vote_post L K now vp mtc s v s' \<longleftrightarrow>
     (\<exists>d es a k. sr_persisted K s = Some d \<and> sr_epoch_state s = Some es \<and>
        validator_signer s = Some (a, k) \<and> sr_frame K s s' \<and>
        proposal_checked L now vp es d \<and>
        (\<forall>tc. mtc = Some tc \<longrightarrow> tc_verify L (es_verifier es) tc = Inr ()) \<and>
        (sd_last_vote d = Some v \<and> v_round v = bk_round (vp_block vp) \<and> sr_persisted K s' = Some d \<or>
         fresh_vote L vp mtc a d v \<and> sr_persisted K s' = Some (vote_update (vp_block vp) v d)))"

lemma verify_maybe_tc_ok:
  "verify_maybe_tc L mtc s = Inr u \<Longrightarrow> sr_epoch_state s = Some es \<Longrightarrow> mtc = Some tc \<Longrightarrow>
     tc_verify L (es_verifier es) tc = Inr ()"
  by (auto simp: verify_maybe_tc_def verify_tc_def epoch_state_def split: option.splits)

lemma vote_fresh_post:
  assumes t: "sr_same K s t" and d: "sr_persisted K s = Some d" and es: "sr_epoch_state s = Some es"
    and c: "proposal_checked L now vp es d" and tc: "verify_maybe_tc L mtc s = Inr ()"
  shows "wp (vote_fresh L K (vp_block vp) (vote_data_ordering_only L vp) mtc d)
      (vote_post L K now vp mtc s) (\<lambda>_ s'. sr_same K s s') t"
proof (rule wp_mono [OF wp_vote_fresh])
  show "sr_ok K t" "sr_persisted K t = Some d" using t d by (simp_all add: sr_sameD)
  show "sr_same K t s' \<Longrightarrow> sr_same K s s'" for s' by (rule sr_same_trans [OF t])
  show "vote_post L K now vp mtc s v s'"
    if "sr_frame K t s' \<and> sr_persisted K s' = Some (vote_update (vp_block vp) v d) \<and>
        (\<exists>a k. validator_signer t = Some (a, k) \<and> fresh_vote L vp mtc a d v)" for v s'
    using that t d es c verify_maybe_tc_ok [OF tc es]
    by (auto simp: vote_post_def sr_same_def sr_frame_def)
qed

lemma vote_replay_post:
  assumes t: "sr_same K s t" and d: "sr_persisted K s = Some d" and es: "sr_epoch_state s = Some es"
    and c: "proposal_checked L now vp es d" and tc: "verify_maybe_tc L mtc s = Inr ()"
    and "validator_signer s = Some ak" "sd_last_vote d = Some v" "v_round v = bk_round (vp_block vp)"
  shows "vote_post L K now vp mtc s v t"
  using assms verify_maybe_tc_ok [OF tc es] by (cases ak) (simp add: vote_post_def sr_same_def)

lemma wp_vote:
  assumes "sr_ok K s"
  shows "wp (guarded_construct_and_sign_vote_two_chain L K now vp mtc)
     (vote_post L K now vp mtc s) (\<lambda>_ s'. sr_same K s s') s"
proof -
  have rest: "wp (read_op (verify_maybe_tc L mtc)) (\<lambda>_. wp (sr_safety_data K) (\<lambda>sd. wp (case sd_last_vote sd of
        Some vote \<Rightarrow> if v_round vote = bk_round (vp_block vp) then ret vote
          else vote_fresh L K (vp_block vp) (vote_data_ordering_only L vp) mtc sd
      | None \<Rightarrow> vote_fresh L K (vp_block vp) (vote_data_ordering_only L vp) mtc sd)
      (vote_post L K now vp mtc s) (\<lambda>_ s'. sr_same K s s')) (\<lambda>_ s'. sr_same K s s')) (\<lambda>_ s'. sr_same K s s') t"
    if t: "sr_same K s t" and ak: "validator_signer s = Some ak" and d: "sr_persisted K s = Some d"
      and es: "sr_epoch_state s = Some es" and c: "proposal_checked L now vp es d"
    for t d es ak
  proof (simp add: sr_sameD [OF t] t, intro impI wp_sr_safety_data [OF sr_sameD(1) [OF t]])
    fix sd u assume tc: "verify_maybe_tc L mtc s = Inr ()"
      and u: "sr_same K t u" "sr_persisted K t = Some sd"
    have su: "sr_same K s u" by (rule sr_same_trans [OF t u(1)])
    have [simp]: "sd = d" using u(2) d sr_sameD(2) [OF t] by simp
    show "wp (case sd_last_vote sd of
        Some vote \<Rightarrow> if v_round vote = bk_round (vp_block vp) then ret vote
          else vote_fresh L K (vp_block vp) (vote_data_ordering_only L vp) mtc sd
      | None \<Rightarrow> vote_fresh L K (vp_block vp) (vote_data_ordering_only L vp) mtc sd)
      (vote_post L K now vp mtc s) (\<lambda>_ s'. sr_same K s s') u"
      by (simp add: vote_fresh_post [OF su d es c tc] vote_replay_post [OF su d es c tc ak] split: option.split)
  qed (rule sr_same_trans [OF t])
  show ?thesis
    unfolding guarded_construct_and_sign_vote_two_chain_def Let_def wp_bind wp_read_op [of signer]
    using assms
    by (auto simp: signer_def intro!: wp_mono [OF wp_verify_proposal [OF assms]] rest)
qed

text \<open>Timeouts.\<close>

definition timeout_update :: "two_chain_timeout \<Rightarrow> safety_data \<Rightarrow> safety_data" where
  "timeout_update t d = update_highest_timeout_round t
     (if tt_round t > sd_last_voted_round d then d\<lparr>sd_last_voted_round := tt_round t\<rparr> else d)"

definition timeout_checked ::
  "laptos \<Rightarrow> two_chain_timeout \<Rightarrow> timeout_cert option \<Rightarrow> epoch_state \<Rightarrow> safety_data \<Rightarrow> bool" where
  "timeout_checked L t mtc es d \<longleftrightarrow>
     tt_epoch t = sd_epoch d \<and> tt_verify L (es_verifier es) t = Inr () \<and>
     (\<forall>tc. mtc = Some tc \<longrightarrow> tc_verify L (es_verifier es) tc = Inr ()) \<and>
     safe_to_timeout t mtc d = Inr () \<and> sd_last_voted_round d \<le> tt_round t"

definition timeout_post ::
  "laptos \<Rightarrow> 'st kv_storage \<Rightarrow> two_chain_timeout \<Rightarrow> timeout_cert option \<Rightarrow>
   'st safety_rules \<Rightarrow> 'st safety_rules \<Rightarrow> bool" where
  "timeout_post L K t mtc s s' \<longleftrightarrow>
     (\<exists>d es. sr_persisted K s = Some d \<and> sr_epoch_state s = Some es \<and> sr_frame K s s' \<and>
        timeout_checked L t mtc es d \<and> sr_persisted K s' = Some (timeout_update t d))"

text \<open>The data are written before the signature is made, so they stay written if signing fails.\<close>

lemma timeout_final:
  assumes "sr_same K s u" "sr_persisted K s = Some d" "sr_epoch_state s = Some es"
    and "tt_epoch t = sd_epoch d" "tt_verify L (es_verifier es) t = Inr ()"
    and "verify_maybe_tc L mtc s = Inr ()" "safe_to_timeout t mtc d = Inr ()"
    and "d1 = d \<and> tt_round t = sd_last_voted_round d \<or>
         verify_and_update_last_vote_round (tt_round t) d = Inr d1"
  shows "wp (sr_set_safety_data K (update_highest_timeout_round t d1))
      (\<lambda>_. wp (read_op (sign L (MsgTimeout (tt_signing_format t))))
        (\<lambda>sig s'. timeout_post L K t mtc s s' \<and> sign L (MsgTimeout (tt_signing_format t)) s = Inr sig)
        (\<lambda>_ s'. sr_same K s s' \<or> timeout_post L K t mtc s s'))
      (\<lambda>_ s'. sr_same K s s' \<or> timeout_post L K t mtc s s') u"
proof -
  have "timeout_checked L t mtc es d" "update_highest_timeout_round t d1 = timeout_update t d"
    using assms verify_maybe_tc_ok [OF assms(6,3)]
    by (auto simp: timeout_checked_def timeout_update_def verify_and_update_last_vote_round_def
        split: if_splits)
  then show ?thesis
    using assms(1-3)
    by (intro wp_sr_set_safety_data)
      (auto simp: timeout_post_def sr_same_def sr_frame_def sign_def signer_def)
qed

lemma wp_timeout:
  assumes "sr_ok K s"
  shows "wp (guarded_sign_timeout_with_qc L K t mtc)
     (\<lambda>sig s'. timeout_post L K t mtc s s' \<and> sign L (MsgTimeout (tt_signing_format t)) s = Inr sig)
     (\<lambda>_ s'. sr_same K s s' \<or> timeout_post L K t mtc s s') s"
  unfolding guarded_sign_timeout_with_qc_def wp_bind wp_read_op [of signer]
  using assms
  by (auto intro!: wp_sr_safety_data [OF assms] timeout_final
      simp: sr_sameD verify_epoch_def epoch_state_def signer_def simp del: tt_verify_ok split: if_splits)

text \<open>Order votes.\<close>

definition order_vote_checked ::
  "laptos \<Rightarrow> order_vote_proposal \<Rightarrow> epoch_state \<Rightarrow> safety_data \<Rightarrow> bool" where
  "order_vote_checked L ovp es d \<longleftrightarrow>
     bk_epoch (ovp_block ovp) = sd_epoch d \<and>
     certified_block (ovp_quorum_cert ovp) = ovp_block_info ovp \<and>
     bi_id (ovp_block_info ovp) = bk_id (ovp_block ovp) \<and>
     qc_verify L (es_verifier es) (ovp_quorum_cert ovp) = Inr () \<and>
     sd_highest_timeout_round d < bk_round (ovp_block ovp)"

definition order_vote_post ::
  "laptos \<Rightarrow> 'st kv_storage \<Rightarrow> order_vote_proposal \<Rightarrow>
   'st safety_rules \<Rightarrow> order_vote \<Rightarrow> 'st safety_rules \<Rightarrow> bool" where
  "order_vote_post L K ovp s ov s' \<longleftrightarrow>
     (\<exists>d es a k. sr_persisted K s = Some d \<and> sr_epoch_state s = Some es \<and>
        validator_signer s = Some (a, k) \<and> sr_frame K s s' \<and> order_vote_checked L ovp es d \<and>
        ov_author ov = a \<and>
        ov_ledger_info ov = \<lparr>li_commit_info = ovp_block_info ovp, li_consensus_data_hash = x_hash_zero L, li_block = None\<rparr> \<and>
        sr_persisted K s' = Some (fst (observe_qc (ovp_quorum_cert ovp) d)))"

lemma observe_qc_keeps [simp]:
  "sd_epoch (fst (observe_qc qc d)) = sd_epoch d"
  "sd_last_voted_round (fst (observe_qc qc d)) = sd_last_voted_round d"
  "sd_last_vote (fst (observe_qc qc d)) = sd_last_vote d"
  "sd_highest_timeout_round (fst (observe_qc qc d)) = sd_highest_timeout_round d"
  by (simp_all add: observe_qc_def Let_def)

lemma observe_qc_rounds [simp]:
  "sd_one_chain_round (fst (observe_qc qc d)) = max (sd_one_chain_round d) (bi_round (certified_block qc))"
  "sd_preferred_round (fst (observe_qc qc d)) = max (sd_preferred_round d) (bi_round (parent_block qc))"
  by (auto simp: observe_qc_def Let_def max_def)

lemma wp_order_vote:
  assumes "sr_ok K s"
  shows "wp (guarded_construct_and_sign_order_vote L K ovp)
     (order_vote_post L K ovp s) (\<lambda>_ s'. sr_same K s s') s"
proof -
  let ?li = "\<lparr>li_commit_info = ovp_block_info ovp, li_consensus_data_hash = x_hash_zero L, li_block = None\<rparr>"
  have final: "wp (sr_set_safety_data K (fst (observe_qc (ovp_quorum_cert ovp) d)))
      (\<lambda>_. wp (ret \<lparr>ov_author = a, ov_ledger_info = ?li, ov_signature = sig\<rparr>)
        (order_vote_post L K ovp s) (\<lambda>_ s'. sr_same K s s')) (\<lambda>_ s'. sr_same K s s') u"
    if "sr_same K s u" "sr_persisted K s = Some d" "sr_epoch_state s = Some es"
      "validator_signer s = Some (a, k)" "order_vote_checked L ovp es d" for u d es a k sig
    using that
    by (intro wp_sr_set_safety_data) (auto simp: order_vote_post_def sr_same_def sr_frame_def)
  have check: "wp (verify_order_vote_proposal L K ovp)
      (\<lambda>_ u. sr_same K s u \<and> (\<exists>d es. sr_persisted K s = Some d \<and> sr_epoch_state s = Some es \<and>
          (sd_highest_timeout_round d < bk_round (ovp_block ovp) \<longrightarrow> order_vote_checked L ovp es d)))
      (\<lambda>_ s'. sr_same K s s') s"
    unfolding verify_order_vote_proposal_def Let_def wp_bind
    by (rule wp_sr_safety_data [OF assms])
      (auto simp: sr_sameD verify_epoch_def verify_qc_def epoch_state_def order_vote_checked_def
        split: if_splits)
  have rest: "wp (sr_safety_data K) (\<lambda>sd. wp
      (let sd1 = fst (observe_qc (ovp_quorum_cert ovp) sd) in
       bind_op (of_res (safe_for_order_vote (ovp_block ovp) sd1)) (\<lambda>_.
       bind_op (read_op signer) (\<lambda>(author, _).
       bind_op (read_op (sign L (MsgLedgerInfo ?li))) (\<lambda>signature.
       bind_op (sr_set_safety_data K sd1) (\<lambda>_.
       ret \<lparr>ov_author = author, ov_ledger_info = ?li, ov_signature = signature\<rparr>)))))
      (order_vote_post L K ovp s) (\<lambda>_ s'. sr_same K s s')) (\<lambda>_ s'. sr_same K s s') t"
    if t: "sr_same K s t" and d: "sr_persisted K s = Some d" and es: "sr_epoch_state s = Some es"
      and ak: "validator_signer s = Some ak"
      and c: "sd_highest_timeout_round d < bk_round (ovp_block ovp) \<longrightarrow> order_vote_checked L ovp es d"
    for t d es ak
  proof (rule wp_sr_safety_data [OF sr_sameD(1) [OF t]])
    fix sd u assume u: "sr_same K t u" "sr_persisted K t = Some sd"
    have su: "sr_same K s u" by (rule sr_same_trans [OF t u(1)])
    have [simp]: "sd = d" using u(2) d sr_sameD(2) [OF t] by simp
    show "wp (let sd1 = fst (observe_qc (ovp_quorum_cert ovp) sd) in
       bind_op (of_res (safe_for_order_vote (ovp_block ovp) sd1)) (\<lambda>_.
       bind_op (read_op signer) (\<lambda>(author, _).
       bind_op (read_op (sign L (MsgLedgerInfo ?li))) (\<lambda>signature.
       bind_op (sr_set_safety_data K sd1) (\<lambda>_.
       ret \<lparr>ov_author = author, ov_ledger_info = ?li, ov_signature = signature\<rparr>)))))
      (order_vote_post L K ovp s) (\<lambda>_ s'. sr_same K s s') u"
      using c su final [OF su d es] ak
      by (cases ak) (auto simp: Let_def safe_for_order_vote_def signer_def sr_sameD [OF su] simp del: wp_ret)
  qed (rule sr_same_trans [OF t])
  show ?thesis
    unfolding guarded_construct_and_sign_order_vote_def wp_bind wp_read_op [of signer]
    using assms
    by (auto simp: signer_def Let_def intro!: wp_mono [OF check] rest [unfolded Let_def])
qed

text \<open>The other operations: signing a proposal or a commit vote and reading the state write nothing.\<close>

lemma wp_sign_proposal:
  assumes "sr_ok K s"
  shows "wp (guarded_sign_proposal L K bd)
     (\<lambda>sig s'. sr_same K s s' \<and>
        (\<exists>d es a k. sr_persisted K s = Some d \<and> sr_epoch_state s = Some es \<and>
           validator_signer s = Some (a, k) \<and> bt_author (bd_block_type bd) = Some a \<and>
           bd_epoch bd = sd_epoch d \<and> sd_last_voted_round d < bd_round bd \<and>
           qc_verify L (es_verifier es) (bd_quorum_cert bd) = Inr () \<and>
           sd_preferred_round d \<le> bi_round (certified_block (bd_quorum_cert bd))))
     (\<lambda>_ s'. sr_same K s s') s"
  unfolding guarded_sign_proposal_def wp_bind wp_read_op [of signer] wp_read_op [of "verify_author _"]
  using assms
  by (auto intro!: wp_sr_safety_data [OF assms]
      simp: sr_sameD verify_epoch_def verify_qc_def epoch_state_def signer_def verify_author_def
        verify_and_update_preferred_round_def Let_def not_le not_less
      split: if_splits)

lemma wp_sign_commit_vote:
  assumes "sr_ok K s"
  shows "wp (guarded_sign_commit_vote L lws new_li)
     (\<lambda>sig s'. s' = s \<and> (\<exists>es. sr_epoch_state s = Some es \<and>
        x_verify_signatures L (es_verifier es) lws \<and>
        x_match_ordered_only L (li_commit_info (lws_ledger_info lws)) (li_commit_info new_li) \<and>
        (x_is_ordered_only L (li_commit_info (lws_ledger_info lws)) \<or>
         li_commit_info (lws_ledger_info lws) = li_commit_info new_li)))
     (\<lambda>_ s'. s' = s) s"
  using assms
  by (auto simp: guarded_sign_commit_vote_def Let_def epoch_state_def)

lemma wp_consensus_state:
  assumes "sr_ok K s"
  shows "wp (guarded_consensus_state K) (\<lambda>_ s'. sr_same K s s') (\<lambda>_ s'. sr_same K s s') s"
  unfolding guarded_consensus_state_def wp_bind wp_read_op [of "\<lambda>s. pss_waypoint K (persistent_storage s)"]
  using assms
  by (auto intro!: wp_sr_safety_data intro: sr_sameD sr_same_trans)

text \<open>Initialisation moves to the epoch of the proof, never to an earlier one.\<close>

definition proof_gives :: "laptos \<Rightarrow> nat \<Rightarrow> epoch_state \<Rightarrow> bool" where
  "proof_gives L proof es \<longleftrightarrow>
     (\<exists>w lws. x_epoch_change_proof_verify L proof w = Inr lws \<and>
        x_li_next_epoch_state L (lws_ledger_info lws) = Some es)"

lemma proof_givesI:
  "x_epoch_change_proof_verify L proof w = Inr lws \<Longrightarrow>
   x_li_next_epoch_state L (lws_ledger_info lws) = Some es \<Longrightarrow> proof_gives L proof es"
  by (auto simp: proof_gives_def)

definition init_post ::
  "laptos \<Rightarrow> 'st kv_storage \<Rightarrow> nat \<Rightarrow> 'st safety_rules \<Rightarrow> 'st safety_rules \<Rightarrow> bool" where
  "init_post L K proof s s' \<longleftrightarrow> sr_same K s s' \<or>
     (\<exists>d es. sr_ok K s' \<and> sr_persisted K s = Some d \<and> proof_gives L proof es \<and>
        sr_epoch_state s' = Some es \<and> sd_epoch d \<le> es_epoch es \<and>
        sr_persisted K s' = Some (if sd_epoch d < es_epoch es then safety_data_new (es_epoch es) else d))"

lemma wp_sr_set_waypoint:
  assumes "sr_ok K s" "\<And>s'. sr_same K s s' \<Longrightarrow> Q () s'" "\<And>e s'. sr_same K s s' \<Longrightarrow> E e s'"
  shows "wp (sr_set_waypoint K w) Q E s"
proof -
  obtain r ps where r: "pss_set_waypoint K w (persistent_storage s) = (r, ps)" by fastforce
  have "sr_same K s (s\<lparr>persistent_storage := ps\<rparr>)"
    using pss_set_waypoint_keeps [OF _ r] assms(1)
    by (simp add: sr_same_def sr_frame_def sr_ok_def sr_persisted_def)
  then show ?thesis
    using r assms(2,3) unfolding wp_def sr_set_waypoint_def by (cases r) auto
qed

lemma wp_reconcile_key:
  assumes "sr_ok K s"
    and "\<And>s'. sr_ok K s' \<Longrightarrow> sr_persisted K s' = sr_persisted K s \<Longrightarrow>
               sr_epoch_state s' = sr_epoch_state s \<Longrightarrow> P s'"
  shows "wp (reconcile_key L K es a) (\<lambda>_. P) (\<lambda>_. P) s"
proof -
  have "P (s\<lparr>validator_signer := x\<rparr>)" for x
    using assms(1) by (auto intro!: assms(2) simp: sr_ok_def sr_persisted_def)
  moreover have "P s" using assms by auto
  ultimately show ?thesis
    by (simp add: wp_def reconcile_key_def Let_def split: option.split sum.split sr_error.split)
qed

lemma wp_adopt_epoch_state:
  assumes "sr_ok K t" "sr_persisted K s = Some d" "proof_gives L proof es" "sd_epoch d \<le> es_epoch es"
    and "sr_persisted K t = Some (if sd_epoch d < es_epoch es then safety_data_new (es_epoch es) else d)"
  shows "wp (adopt_epoch_state L K es) (\<lambda>_. init_post L K proof s) (\<lambda>_. init_post L K proof s) t"
proof -
  let ?t = "t\<lparr>sr_epoch_state := Some es\<rparr>"
  have t: "sr_ok K ?t" "sr_persisted K ?t = sr_persisted K t"
    using assms(1) by (simp_all add: sr_ok_def sr_persisted_def)
  have p: "init_post L K proof s u"
    if "sr_ok K u" "sr_persisted K u = sr_persisted K ?t" "sr_epoch_state u = Some es" for u
    using that t(2) assms by (auto simp: init_post_def)
  show ?thesis
    using p [OF t(1)] unfolding adopt_epoch_state_def wp_bind
    by (simp add: wp_def [of "\<lambda>s. (Inr (), _ s)"]) (auto intro!: wp_reconcile_key [OF t(1)] p)
qed

lemma wp_enter_epoch:
  assumes t: "sr_same K s t" and v: "proof_gives L proof es"
  shows "wp (enter_epoch L K w w' es) (\<lambda>_. init_post L K proof s) (\<lambda>_. init_post L K proof s) t"
  unfolding enter_epoch_def wp_bind
proof (rule wp_sr_safety_data [OF sr_sameD(1) [OF t]])
  fix d u assume u: "sr_same K t u" and "sr_persisted K t = Some d"
  then have d: "sr_persisted K s = Some d" using t by (simp add: sr_sameD)
  have su: "sr_same K s u" by (rule sr_same_trans [OF t u])
  have same: "init_post L K proof s s'" if "sr_same K u s'" for s'
    using sr_same_trans [OF su that] by (simp add: init_post_def)
  show "wp (let current_epoch = sd_epoch d in
      bind_op (if es_epoch es < current_epoch
               then throw (WaypointOutOfDate (wp_version w) (wp_version w') current_epoch (es_epoch es))
               else if current_epoch < es_epoch es then sr_set_safety_data K (safety_data_new (es_epoch es))
               else ret ()) (\<lambda>_. adopt_epoch_state L K es))
      (\<lambda>_. init_post L K proof s) (\<lambda>_. init_post L K proof s) u"
    using sr_sameD(1,2) [OF su] d same
    by (auto intro!: wp_adopt_epoch_state [OF _ d v] wp_sr_set_safety_data simp: Let_def sr_frame_def not_less)
qed (use t in \<open>auto simp: init_post_def dest: sr_same_trans\<close>)

lemma wp_initialize:
  assumes "sr_ok K s"
  shows "wp (guarded_initialize L K proof) (\<lambda>_. init_post L K proof s) (\<lambda>_. init_post L K proof s) s"
proof -
  have "init_post L K proof s s'" if "sr_same K s s'" for s'
    using that by (simp add: init_post_def)
  then show ?thesis
    unfolding guarded_initialize_def Let_def wp_bind
    using assms by (auto intro!: wp_sr_set_waypoint wp_enter_epoch intro: proof_givesI)
qed

section \<open>The machine\<close>

datatype sr_op =
    Initialize nat
  | SignProposal block_data
  | SignTimeoutWithQc two_chain_timeout "timeout_cert option"
  | ConstructAndSignVoteTwoChain u64 vote_proposal "timeout_cert option"
  | ConstructAndSignOrderVote order_vote_proposal
  | SignCommitVote li_with_sigs ledger_info
  | ConsensusState
  | Restart bool

fun sr_step :: "laptos \<Rightarrow> 'st kv_storage \<Rightarrow> 'st safety_rules \<Rightarrow> sr_op \<Rightarrow> 'st safety_rules" where
  "sr_step L K s (Initialize proof) = snd (guarded_initialize L K proof s)"
| "sr_step L K s (SignProposal bd) = snd (guarded_sign_proposal L K bd s)"
| "sr_step L K s (SignTimeoutWithQc t mtc) = snd (guarded_sign_timeout_with_qc L K t mtc s)"
| "sr_step L K s (ConstructAndSignVoteTwoChain now vp mtc) =
     snd (guarded_construct_and_sign_vote_two_chain L K now vp mtc s)"
| "sr_step L K s (ConstructAndSignOrderVote ovp) = snd (guarded_construct_and_sign_order_vote L K ovp s)"
| "sr_step L K s (SignCommitVote lws li) = snd (guarded_sign_commit_vote L lws li s)"
| "sr_step L K s ConsensusState = snd (guarded_consensus_state K s)"
| "sr_step L K s (Restart enable) =
     safety_rules_new (pss_new (internal_store (persistent_storage s)) enable)"

text \<open>
  The order on safety data: a later epoch, or the same epoch with no round lower and the last vote
  either kept or replaced by one for a round above the last voted round.
\<close>

definition sd_le :: "safety_data \<Rightarrow> safety_data \<Rightarrow> bool" where
  "sd_le d d' \<longleftrightarrow> sd_epoch d < sd_epoch d' \<or>
     sd_epoch d = sd_epoch d' \<and>
     sd_last_voted_round d \<le> sd_last_voted_round d' \<and>
     sd_preferred_round d \<le> sd_preferred_round d' \<and>
     sd_one_chain_round d \<le> sd_one_chain_round d' \<and>
     sd_highest_timeout_round d \<le> sd_highest_timeout_round d' \<and>
     (sd_last_vote d' = sd_last_vote d \<or>
      (\<exists>v. sd_last_vote d' = Some v \<and> sd_last_voted_round d < v_round v))"

definition sr_le :: "'st kv_storage \<Rightarrow> 'st safety_rules \<Rightarrow> 'st safety_rules \<Rightarrow> bool" where
  "sr_le K s s' \<longleftrightarrow>
     (\<forall>d. sr_persisted K s = Some d \<longrightarrow> (\<exists>d'. sr_persisted K s' = Some d' \<and> sd_le d d'))"

text \<open>The last vote belongs to the epoch and is not above the last voted round.\<close>

definition sd_wf :: "safety_data \<Rightarrow> bool" where
  "sd_wf d \<longleftrightarrow>
     (\<forall>v. sd_last_vote d = Some v \<longrightarrow> v_epoch v = sd_epoch d \<and> v_round v \<le> sd_last_voted_round d)"

definition sr_inv :: "'st kv_storage \<Rightarrow> 'st safety_rules \<Rightarrow> bool" where
  "sr_inv K s \<longleftrightarrow> sr_ok K s \<and> (\<forall>d. sr_persisted K s = Some d \<longrightarrow> sd_wf d)"

lemma sd_le_refl [simp]: "sd_le d d"
  by (simp add: sd_le_def)

lemma sd_le_trans: "sd_le a b \<Longrightarrow> sd_le b c \<Longrightarrow> sd_le a c"
  unfolding sd_le_def by (elim disjE conjE) (auto intro: order_trans order.strict_trans2 order.strict_trans1 order.strict_trans)

lemma sr_le_refl [simp]: "sr_le K s s"
  by (simp add: sr_le_def)

lemma sr_le_trans: "sr_le K s t \<Longrightarrow> sr_le K t u \<Longrightarrow> sr_le K s u"
  unfolding sr_le_def by (meson sd_le_trans)

lemma vote_data_of_proposal [simp]:
  "v_vote_data v = vote_data_ordering_only L vp \<Longrightarrow> v_round v = bk_round (vp_block vp)"
  "v_vote_data v = vote_data_ordering_only L vp \<Longrightarrow> v_epoch v = bk_epoch (vp_block vp)"
  by (simp_all add: v_round_def v_epoch_def vote_data_ordering_only_def)

lemma vote_update_le:
  assumes "fresh_vote L vp mtc a d v" "bk_epoch (vp_block vp) = sd_epoch d"
  shows "sd_le d (vote_update (vp_block vp) v d)" "sd_wf (vote_update (vp_block vp) v d)"
  using assms by (auto simp: fresh_vote_def vote_update_def sd_le_def sd_wf_def max_def)

lemma timeout_update_le:
  assumes "sd_wf d"
  shows "sd_le d (timeout_update t d)" "sd_wf (timeout_update t d)"
  using assms by (auto simp: timeout_update_def update_highest_timeout_round_def sd_le_def sd_wf_def)

lemma observe_qc_le:
  assumes "sd_wf d"
  shows "sd_le d (fst (observe_qc qc d))" "sd_wf (fst (observe_qc qc d))"
  using assms by (auto simp: sd_le_def sd_wf_def)

text \<open>One step of the machine: the invariant is kept and the data do not go back.\<close>

definition sr_good :: "'st kv_storage \<Rightarrow> 'st safety_rules \<Rightarrow> 'st safety_rules \<Rightarrow> bool" where
  "sr_good K s s' \<longleftrightarrow> sr_inv K s' \<and> sr_le K s s'"

lemma sr_good_same: "sr_inv K s \<Longrightarrow> sr_same K s s' \<Longrightarrow> sr_good K s s'"
  by (auto simp: sr_good_def sr_inv_def sr_le_def sr_sameD)

lemma sr_good_update:
  "sr_persisted K s = Some d \<Longrightarrow> sr_ok K s' \<Longrightarrow> sr_persisted K s' = Some d' \<Longrightarrow> sd_le d d' \<Longrightarrow> sd_wf d' \<Longrightarrow>
   sr_good K s s'"
  by (simp add: sr_good_def sr_inv_def sr_le_def)

lemma sr_good_vote: "sr_inv K s \<Longrightarrow> vote_post L K now vp mtc s v s' \<Longrightarrow> sr_good K s s'"
  unfolding vote_post_def
  by (elim exE conjE disjE)
    (auto simp: sr_frame_def proposal_checked_def sr_inv_def vote_update_le intro: sr_good_update)

lemma sr_good_timeout: "sr_inv K s \<Longrightarrow> timeout_post L K t mtc s s' \<Longrightarrow> sr_good K s s'"
  by (auto simp: timeout_post_def sr_frame_def sr_inv_def timeout_update_le intro: sr_good_update)

lemma sr_good_order_vote: "sr_inv K s \<Longrightarrow> order_vote_post L K ovp s ov s' \<Longrightarrow> sr_good K s s'"
  by (auto simp: order_vote_post_def sr_frame_def sr_inv_def observe_qc_le intro: sr_good_update)

lemma sr_good_init: "sr_inv K s \<Longrightarrow> init_post L K proof s s' \<Longrightarrow> sr_good K s s'"
  unfolding init_post_def
  by (elim disjE exE conjE)
    (auto simp: sr_good_same sr_inv_def safety_data_new_def sd_wf_def sd_le_def intro: sr_good_update
      split: if_splits)

lemma sr_good_restart:
  "sr_inv K s \<Longrightarrow> sr_good K s (safety_rules_new (pss_new (internal_store (persistent_storage s)) enable))"
  by (auto simp: sr_good_def sr_inv_def sr_le_def sr_ok_def sr_persisted_def pss_ok_def pss_persisted_def
      safety_rules_new_def pss_new_def)

lemma sr_step_good:
  assumes "sr_inv K s"
  shows "sr_good K s (sr_step L K s x)"
proof -
  have ok: "sr_ok K s" using assms by (simp add: sr_inv_def)
  note s = sr_good_same [OF assms] and g = wp_snd [of _ "sr_good K s" s]
  show ?thesis
  proof (cases x)
    case (Initialize p)
    then show ?thesis
      using g [OF wp_mono [OF wp_initialize [OF ok]]] sr_good_init [OF assms] by simp
  next
    case (SignProposal bd)
    then show ?thesis using g [OF wp_mono [OF wp_sign_proposal [OF ok]]] s by simp
  next
    case (SignTimeoutWithQc t mtc)
    then show ?thesis
      using g [OF wp_mono [OF wp_timeout [OF ok]]] s sr_good_timeout [OF assms] by (simp, blast)
  next
    case (ConstructAndSignVoteTwoChain now vp mtc)
    then show ?thesis using g [OF wp_mono [OF wp_vote [OF ok]]] s sr_good_vote [OF assms] by simp
  next
    case (ConstructAndSignOrderVote ovp)
    then show ?thesis
      using g [OF wp_mono [OF wp_order_vote [OF ok]]] s sr_good_order_vote [OF assms] by simp
  next
    case (SignCommitVote lws li)
    then show ?thesis
      using g [OF wp_mono [OF wp_sign_commit_vote [OF ok]]] assms by (simp add: sr_good_def)
  next
    case ConsensusState
    then show ?thesis using g [OF wp_mono [OF wp_consensus_state [OF ok]]] s by simp
  next
    case (Restart enable)
    then show ?thesis using sr_good_restart [OF assms] by simp
  qed
qed

interpretation sr: monotone_machine "sr_step L K" "sr_inv K" "sr_le K" for L :: laptos and K :: "'st kv_storage"
  using sr_step_good by unfold_locales (auto simp: sr_good_def intro: sr_le_trans)

section \<open>A concrete validator for the witnesses\<close>

text \<open>The only validator of epoch 1, with a fresh store, and the nil block of each round.\<close>

definition ex_sr :: "mem_store safety_rules" where
  "ex_sr = \<lparr>persistent_storage = pss_new ex_mem_store True, validator_signer = Some (0, 0),
            sr_epoch_state = Some \<lparr>es_epoch = 1, es_verifier = 1\<rparr>\<rparr>"

definition ex_vote_proposal :: "round \<Rightarrow> round \<Rightarrow> vote_proposal" where
  "ex_vote_proposal r p =
     \<lparr>vp_block = block_new_nil example_laptos r (ex_qc 1 p (if p = 0 then 0 else p - 1) (if p = 0 then 0 else 1)) [],
      vp_next_epoch_state = None, vp_decoupled_execution = True\<rparr>"

definition ex_order_vote_proposal :: "round \<Rightarrow> order_vote_proposal" where
  "ex_order_vote_proposal r =
     \<lparr>ovp_block = vp_block (ex_vote_proposal r (r - 1)),
      ovp_block_info = ex_block_info 1 r, ovp_quorum_cert = ex_qc 1 r (r - 1) 1\<rparr>"

definition ex_timeout :: "round \<Rightarrow> round \<Rightarrow> two_chain_timeout" where
  "ex_timeout r q = \<lparr>tt_epoch = 1, tt_round = r, tt_quorum_cert = ex_qc 1 q (if q = 0 then 0 else q - 1) (if q = 0 then 0 else 1)\<rparr>"

lemma sr_inv_ex [simp]: "sr_inv mem_kv ex_sr"
  by (simp add: sr_inv_def sr_ok_def ex_sr_def)
    (simp add: sr_persisted_def pss_persisted_def pss_new_def mem_kv_def ex_mem_store_def
      safety_data_new_def sd_wf_def)

lemma op_success: "is_ok (fst x) \<Longrightarrow> x = (Inr (projr (fst x)), snd x)"
  by (cases x) (auto simp: is_ok_iff)

section \<open>Properties\<close>

lemma next_round_Inr [simp]: "next_round r = Inr n \<longleftrightarrow> r \<noteq> u64_max \<and> n = r + 1"
  by (auto simp: next_round_def checked_add_one_Some)

lemma safe_to_vote_ok:
  "safe_to_vote b mtc = Inr () \<longleftrightarrow>
     bi_round (certified_block (bk_quorum_cert b)) \<noteq> u64_max \<and>
     (bk_round b = bi_round (certified_block (bk_quorum_cert b)) + 1 \<or>
      (case mtc of
         None \<Rightarrow> bk_round b = 1
       | Some tc \<Rightarrow> tc_round tc \<noteq> u64_max \<and> bk_round b = tc_round tc + 1 \<and>
                   tc_highest_hqc_round tc \<le> bi_round (certified_block (bk_quorum_cert b))))"
  by (auto simp: safe_to_vote_def Let_def u64_max_def split: option.split if_splits)

lemma safe_to_timeout_ok:
  "safe_to_timeout t mtc d = Inr () \<longleftrightarrow>
     tt_hqc_round t \<noteq> u64_max \<and> sd_one_chain_round d \<le> tt_hqc_round t \<and>
     (tt_round t = tt_hqc_round t + 1 \<or>
      (case mtc of
         None \<Rightarrow> tt_round t = 1
       | Some tc \<Rightarrow> tc_round tc \<noteq> u64_max \<and> tt_round t = tc_round tc + 1))"
  by (auto simp: safe_to_timeout_def Let_def u64_max_def split: option.split if_splits)

text \<open>The state after a vote records it.\<close>

lemma vote_recorded:
  assumes "sr_inv K s" "guarded_construct_and_sign_vote_two_chain L K now vp mtc s = (Inr v, s')"
  shows "\<exists>d'. sr_persisted K s' = Some d' \<and> sd_last_vote d' = Some v \<and> v_round v \<le> sd_last_voted_round d' \<and>
     v_epoch v = sd_epoch d' \<and> v_round v = bk_round (vp_block vp) \<and> v_epoch v = bk_epoch (vp_block vp)"
proof -
  have ok: "sr_ok K s" using assms(1) by (simp add: sr_inv_def)
  have post: "vote_post L K now vp mtc s v s'" by (rule wp_okD [OF wp_vote [OF ok] assms(2)])
  have inv: "sr_inv K s'" using sr_good_vote [OF assms(1) post] by (simp add: sr_good_def)
  from post obtain d' where d': "sr_persisted K s' = Some d'" "sd_last_vote d' = Some v"
    "v_round v = bk_round (vp_block vp)" "sd_epoch d' = bk_epoch (vp_block vp)"
    by (auto simp: vote_post_def fresh_vote_def vote_update_def proposal_checked_def)
  then show ?thesis using inv by (simp add: sr_inv_def sd_wf_def)
qed

lemma vote_needs:
  assumes "sr_inv K s" "guarded_construct_and_sign_vote_two_chain L K now vp mtc s = (Inr v, s')"
  shows "\<exists>d. sr_persisted K s = Some d \<and> sd_epoch d = bk_epoch (vp_block vp) \<and>
     (sd_last_vote d = Some v \<or> sd_last_voted_round d < bk_round (vp_block vp))"
proof -
  have ok: "sr_ok K s" using assms(1) by (simp add: sr_inv_def)
  show ?thesis
    using wp_okD [OF wp_vote [OF ok] assms(2)]
    by (auto simp: vote_post_def fresh_vote_def proposal_checked_def)
qed

text \<open>
  C3. One vote per round. Whatever a validator's safety rules are asked in between (any number of
  votes, timeouts, order votes, proposals, epoch changes, and restarts that lose everything but
  the store), two votes they release for the same epoch and round are the same vote.
\<close>

theorem one_vote_per_round:
  assumes "sr_inv K s"
    and "guarded_construct_and_sign_vote_two_chain L K now1 vp1 mtc1 s = (Inr v1, s1)"
    and "guarded_construct_and_sign_vote_two_chain L K now2 vp2 mtc2 (run_ops (sr_step L K) s1 ops) = (Inr v2, s2)"
    and "v_epoch v1 = v_epoch v2" "v_round v1 = v_round v2"
  shows "v1 = v2"
proof -
  obtain d1 where d1: "sr_persisted K s1 = Some d1" "sd_last_vote d1 = Some v1"
    "v_round v1 \<le> sd_last_voted_round d1" "v_epoch v1 = sd_epoch d1"
    using vote_recorded [OF assms(1,2)] by auto
  have i1: "sr_inv K s1"
    using sr.step_inv [OF assms(1), of L "ConstructAndSignVoteTwoChain now1 vp1 mtc1"] assms(2) by simp
  note i2 = sr.run_inv [OF i1, of L ops]
  obtain d2 where d2: "sr_persisted K (run_ops (sr_step L K) s1 ops) = Some d2" "sd_le d1 d2"
    using sr.run_mono [OF i1, of L ops] d1(1) by (auto simp: sr_le_def)
  obtain d3 where d3: "sr_persisted K (run_ops (sr_step L K) s1 ops) = Some d3"
    "sd_epoch d3 = bk_epoch (vp_block vp2)" "sd_last_vote d3 = Some v2 \<or> sd_last_voted_round d3 < bk_round (vp_block vp2)"
    using vote_needs [OF i2 assms(3)] by auto
  have v2: "v_round v2 = bk_round (vp_block vp2)" "v_epoch v2 = bk_epoch (vp_block vp2)"
    using vote_recorded [OF i2 assms(3)] by auto
  have "sd_epoch d1 = sd_epoch d2" using d1(4) d2(1) d3(1,2) v2(2) assms(4) by simp
  then have le: "sd_last_voted_round d1 \<le> sd_last_voted_round d2"
    "sd_last_vote d2 = Some v1 \<or> (\<exists>v. sd_last_vote d2 = Some v \<and> sd_last_voted_round d1 < v_round v)"
    using d2(2) d1(2) by (auto simp: sd_le_def)
  have r: "v_round v2 \<le> sd_last_voted_round d1" using assms(5) d1(3) by simp
  have "sd_last_vote d2 = Some v2"
    using d3 d2(1) v2(1) le(1) r by (auto dest: leD order_trans)
  then show "v1 = v2" using le(2) r by (auto dest: leD)
qed

theorem one_vote_per_round_witness:
  "let c1 = guarded_construct_and_sign_vote_two_chain example_laptos mem_kv 0 (ex_vote_proposal 1 0) None ex_sr;
       s2 = run_ops (sr_step example_laptos mem_kv) (snd c1) [Restart True, Initialize 0];
       c2 = guarded_construct_and_sign_vote_two_chain example_laptos mem_kv 7 (ex_vote_proposal 1 0) None s2
   in is_ok (fst c1) \<and> is_ok (fst c2) \<and> projr (fst c1) = projr (fst c2)"
proof -
  let ?m = "\<lambda>now. guarded_construct_and_sign_vote_two_chain example_laptos mem_kv now (ex_vote_proposal 1 0) None"
  let ?s2 = "run_ops (sr_step example_laptos mem_kv) (snd (?m 0 ex_sr)) [Restart True, Initialize 0]"
  have 1: "is_ok (fst (?m 0 ex_sr))" by code_simp
  have 2: "is_ok (fst (?m 7 ?s2))" by code_simp
  have 3: "v_epoch (projr (fst (?m 0 ex_sr))) = v_epoch (projr (fst (?m 7 ?s2)))"
    "v_round (projr (fst (?m 0 ex_sr))) = v_round (projr (fst (?m 7 ?s2)))" by code_simp+
  show ?thesis
    unfolding Let_def
    using 1 2 one_vote_per_round [OF sr_inv_ex op_success [OF 1] op_success [OF 2] 3] by blast
qed

text \<open>
  C4. The persisted safety data never go back: along every sequence of operations and restarts the
  epoch does not decrease, and within an epoch no recorded round decreases and the last vote is
  only replaced by a vote for a round above every round voted in before.
\<close>

theorem safety_data_never_goes_back:
  assumes "sr_inv K s" "sr_persisted K s = Some d"
  shows "\<exists>d'. sr_persisted K (run_ops (sr_step L K) s ops) = Some d' \<and> sd_le d d'"
  using sr.run_mono [OF assms(1), of L ops] assms(2) by (simp add: sr_le_def)

theorem safety_data_never_goes_back_witness:
  "\<exists>d'. sr_persisted mem_kv (run_ops (sr_step example_laptos mem_kv) ex_sr
      [ConstructAndSignVoteTwoChain 0 (ex_vote_proposal 1 0) None, Restart True]) = Some d' \<and>
    sd_le (safety_data_new 1) d'"
proof (rule safety_data_never_goes_back)
  show "sr_persisted mem_kv ex_sr = Some (safety_data_new 1)"
    by (simp add: sr_persisted_def pss_persisted_def pss_new_def mem_kv_def ex_mem_store_def ex_sr_def)
qed simp

text \<open>
  C5. An order vote and a timeout of one validator never contradict each other. After an order
  vote for a block of round r, every timeout of that epoch that the validator signs carries a
  quorum certificate of round at least r, whatever happens in between.
\<close>

theorem timeout_after_order_vote:
  assumes "sr_inv K s"
    and "guarded_construct_and_sign_order_vote L K ovp s = (Inr ov, s1)"
    and "guarded_sign_timeout_with_qc L K t mtc (run_ops (sr_step L K) s1 ops) = (Inr sig, s2)"
    and "tt_epoch t = bk_epoch (ovp_block ovp)"
  shows "bi_round (ovp_block_info ovp) \<le> tt_hqc_round t"
proof -
  have ok: "sr_ok K s" using assms(1) by (simp add: sr_inv_def)
  note post = wp_okD [OF wp_order_vote [OF ok] assms(2)]
  have i1: "sr_inv K s1" using sr_good_order_vote [OF assms(1) post] by (simp add: sr_good_def)
  obtain d1 where d1: "sr_persisted K s1 = Some d1" "bi_round (ovp_block_info ovp) \<le> sd_one_chain_round d1"
    "sd_epoch d1 = bk_epoch (ovp_block ovp)"
    using post by (auto simp: order_vote_post_def order_vote_checked_def)
  obtain d2 where d2: "sr_persisted K (run_ops (sr_step L K) s1 ops) = Some d2" "sd_le d1 d2"
    using sr.run_mono [OF i1, of L ops] d1(1) by (auto simp: sr_le_def)
  have "sr_ok K (run_ops (sr_step L K) s1 ops)"
    using sr.run_inv [OF i1, of L ops] by (simp add: sr_inv_def)
  from wp_okD [OF wp_timeout [OF this] assms(3)]
  have "timeout_post L K t mtc (run_ops (sr_step L K) s1 ops) s2" by simp
  then have "sd_epoch d2 = tt_epoch t" "sd_one_chain_round d2 \<le> tt_hqc_round t"
    using d2(1) by (auto simp: timeout_post_def timeout_checked_def safe_to_timeout_ok)
  then show ?thesis
    using d1 d2(2) assms(4) by (auto simp: sd_le_def intro: order_trans)
qed

theorem timeout_after_order_vote_witness:
  "let c1 = guarded_construct_and_sign_order_vote example_laptos mem_kv (ex_order_vote_proposal 1) ex_sr;
       c2 = guarded_sign_timeout_with_qc example_laptos mem_kv (ex_timeout 2 1) None (snd c1)
   in is_ok (fst c1) \<and> is_ok (fst c2) \<and> bi_round (ex_block_info 1 1) \<le> tt_hqc_round (ex_timeout 2 1)"
proof -
  let ?m1 = "guarded_construct_and_sign_order_vote example_laptos mem_kv (ex_order_vote_proposal 1)"
  let ?m2 = "guarded_sign_timeout_with_qc example_laptos mem_kv (ex_timeout 2 1) None"
  let ?s2 = "run_ops (sr_step example_laptos mem_kv) (snd (?m1 ex_sr)) []"
  have 1: "is_ok (fst (?m1 ex_sr))" by code_simp
  have 2: "is_ok (fst (?m2 ?s2))" by code_simp
  have 3: "tt_epoch (ex_timeout 2 1) = bk_epoch (ovp_block (ex_order_vote_proposal 1))" by code_simp
  show ?thesis
    unfolding Let_def
    using 1 2 timeout_after_order_vote [OF sr_inv_ex op_success [OF 1] op_success [OF 2] 3]
    by (simp add: ex_order_vote_proposal_def)
qed

text \<open>
  C6. The other order: after a timeout for round k no order vote of that epoch is released for
  a block of round k or below.
\<close>

theorem order_vote_after_timeout:
  assumes "sr_inv K s"
    and "guarded_sign_timeout_with_qc L K t mtc s = (Inr sig, s1)"
    and "guarded_construct_and_sign_order_vote L K ovp (run_ops (sr_step L K) s1 ops) = (Inr ov, s2)"
    and "tt_epoch t = bk_epoch (ovp_block ovp)"
  shows "tt_round t < bk_round (ovp_block ovp)"
proof -
  have ok: "sr_ok K s" using assms(1) by (simp add: sr_inv_def)
  have post: "timeout_post L K t mtc s s1" using wp_okD [OF wp_timeout [OF ok] assms(2)] by simp
  have i1: "sr_inv K s1" using sr_good_timeout [OF assms(1) post] by (simp add: sr_good_def)
  obtain d1 where d1: "sr_persisted K s1 = Some d1" "tt_round t \<le> sd_highest_timeout_round d1"
    "sd_epoch d1 = tt_epoch t"
    using post
    by (auto simp: timeout_post_def timeout_checked_def timeout_update_def update_highest_timeout_round_def not_less)
  obtain d2 where d2: "sr_persisted K (run_ops (sr_step L K) s1 ops) = Some d2" "sd_le d1 d2"
    using sr.run_mono [OF i1, of L ops] d1(1) by (auto simp: sr_le_def)
  have "sr_ok K (run_ops (sr_step L K) s1 ops)"
    using sr.run_inv [OF i1, of L ops] by (simp add: sr_inv_def)
  from wp_okD [OF wp_order_vote [OF this] assms(3)]
  have "sd_epoch d2 = bk_epoch (ovp_block ovp)" "sd_highest_timeout_round d2 < bk_round (ovp_block ovp)"
    using d2(1) by (auto simp: order_vote_post_def order_vote_checked_def)
  then show ?thesis
    using d1 d2(2) assms(4) by (auto simp: sd_le_def intro: order.strict_trans1 order_trans)
qed

theorem order_vote_after_timeout_witness:
  "let c1 = guarded_sign_timeout_with_qc example_laptos mem_kv (ex_timeout 1 0) None ex_sr;
       c2 = guarded_construct_and_sign_order_vote example_laptos mem_kv (ex_order_vote_proposal 2) (snd c1)
   in is_ok (fst c1) \<and> is_ok (fst c2) \<and> tt_round (ex_timeout 1 0) < bk_round (ovp_block (ex_order_vote_proposal 2))"
proof -
  let ?m1 = "guarded_sign_timeout_with_qc example_laptos mem_kv (ex_timeout 1 0) None"
  let ?m2 = "guarded_construct_and_sign_order_vote example_laptos mem_kv (ex_order_vote_proposal 2)"
  let ?s2 = "run_ops (sr_step example_laptos mem_kv) (snd (?m1 ex_sr)) []"
  have 1: "is_ok (fst (?m1 ex_sr))" by code_simp
  have 2: "is_ok (fst (?m2 ?s2))" by code_simp
  have 3: "tt_epoch (ex_timeout 1 0) = bk_epoch (ovp_block (ex_order_vote_proposal 2))" by code_simp
  show ?thesis
    unfolding Let_def
    using 1 2 order_vote_after_timeout [OF sr_inv_ex op_success [OF 1] op_success [OF 2] 3] by simp
qed



end
