(* ===== verification/Agreement.thy ===== *)
theory Agreement
  imports Safety_Rules_Facts
begin

text \<open>
  Agreement of the two-chain protocol, over the safety rules as coded. The system has any number
  of validators. Each honest one runs \<open>Safety_Rules\<close> on its own store: it signs only what the
  operations release, may restart at any point and may change epochs; the others are
  unconstrained. The log of what honest validators signed grows with every step.

  The hypotheses are the usual ones of the protocol, stated where they are used: two quorums of a
  validator set share an honest member; a certificate that verifies was signed by the honest
  members of a quorum (\<open>li_unforged\<close>, \<open>tc_unforged\<close>); the hash of vote data has no collision on the
  vote data that occur and is never the zero hash; and what the callers of the safety rules
  promise about their arguments, which the rules do not check themselves (\<open>tc_epoch\<close> is the
  block's epoch; an order-vote proposal describes its block; the ledger info of a commit vote
  keeps the consensus hash or zeroes it).
\<close>

section \<open>The system\<close>

datatype event =
    Voted author vote_data ledger_info
  | TimedOut author timeout_signing_repr
  | OrderVoted author ledger_info
  | CommitVoted author ledger_info

record 'st setting =
  p_laptos :: laptos
  p_kv :: "'st kv_storage"
  p_honest :: "author set"
  p_verifier :: "u64 \<Rightarrow> validator_verifier"
  p_quorums :: "validator_verifier \<Rightarrow> author set set"
  p_universe :: "vote_data set"

record 'st sys =
  nodes :: "author \<Rightarrow> 'st safety_rules"
  log :: "event set"

definition core :: "block_info \<Rightarrow> u64 \<times> round \<times> hash_value" where
  "core bi = (bi_epoch bi, bi_round bi, bi_id bi)"

text \<open>The cryptographic and protocol assumptions on the setting.\<close>

definition setting_ok :: "'st setting \<Rightarrow> bool" where
  "setting_ok P \<longleftrightarrow>
     (\<forall>vv Q Q'. Q \<in> p_quorums P vv \<and> Q' \<in> p_quorums P vv \<longrightarrow> Q \<inter> Q' \<inter> p_honest P \<noteq> {}) \<and>
     inj_on (x_hash_vote_data (p_laptos P)) (p_universe P) \<and>
     x_hash_zero (p_laptos P) \<notin> x_hash_vote_data (p_laptos P) ` p_universe P \<and>
     (\<forall>a b. x_match_ordered_only (p_laptos P) a b \<longrightarrow> core a = core b)"

definition signed_li :: "event set \<Rightarrow> author \<Rightarrow> ledger_info \<Rightarrow> bool" where
  "signed_li E h li \<longleftrightarrow>
     (\<exists>vd. Voted h vd li \<in> E) \<or> OrderVoted h li \<in> E \<or> CommitVoted h li \<in> E"

text \<open>A certificate that verifies was signed by every honest member of some quorum.\<close>

definition li_unforged :: "'st setting \<Rightarrow> event set \<Rightarrow> validator_verifier \<Rightarrow> li_with_sigs \<Rightarrow> bool" where
  "li_unforged P E vv lws \<longleftrightarrow>
     (x_verify_signatures (p_laptos P) vv lws \<longrightarrow>
      (\<exists>Q \<in> p_quorums P vv. \<forall>h \<in> Q \<inter> p_honest P. signed_li E h (lws_ledger_info lws)))"

definition tc_unforged :: "'st setting \<Rightarrow> event set \<Rightarrow> validator_verifier \<Rightarrow> timeout_cert \<Rightarrow> bool" where
  "tc_unforged P E vv tc \<longleftrightarrow>
     (x_verify_aggregate_signatures (p_laptos P) vv (tc_timeout_messages (p_laptos P) vv tc)
        (asr_sig (tc_signatures_with_rounds tc)) \<longrightarrow>
      (\<exists>Q \<in> p_quorums P vv. \<forall>h \<in> Q \<inter> p_honest P.
         \<exists>t \<in> set (tc_timeout_messages (p_laptos P) vv tc). TimedOut h t \<in> E))"

text \<open>
  One step: an honest validator \<open>a\<close> serves a request. \<open>quiet\<close> covers the requests that release
  no vote or timeout: initialisation for the next epoch, proposals, state queries, restarts, and
  every request that fails.
\<close>

fun quiet_op :: "'st setting \<Rightarrow> 'st safety_rules \<Rightarrow> sr_op \<Rightarrow> bool" where
  "quiet_op P s (Initialize proof) =
     (\<forall>es. proof_gives (p_laptos P) proof es \<longrightarrow> es_verifier es = p_verifier P (es_epoch es))"
| "quiet_op P s (SignTimeoutWithQc t mtc) =
     (\<not> is_ok (fst (guarded_sign_timeout_with_qc (p_laptos P) (p_kv P) t mtc s)))"
| "quiet_op P s (ConstructAndSignVoteTwoChain now vp mtc) =
     (\<not> is_ok (fst (guarded_construct_and_sign_vote_two_chain (p_laptos P) (p_kv P) now vp mtc s)))"
| "quiet_op P s (ConstructAndSignOrderVote ovp) =
     (\<not> is_ok (fst (guarded_construct_and_sign_order_vote (p_laptos P) (p_kv P) ovp s)))"
| "quiet_op P s (SignCommitVote lws li) = (\<not> is_ok (fst (guarded_sign_commit_vote (p_laptos P) lws li s)))"
| "quiet_op P s (SignProposal bd) = True"
| "quiet_op P s ConsensusState = True"
| "quiet_op P s (Restart enable) = True"

definition qc_presented :: "'st setting \<Rightarrow> event set \<Rightarrow> 'st safety_rules \<Rightarrow> quorum_cert \<Rightarrow> bool" where
  "qc_presented P E s qc \<longleftrightarrow> qc_vote_data qc \<in> p_universe P \<and>
     (\<forall>es. sr_epoch_state s = Some es \<longrightarrow> li_unforged P E (es_verifier es) (qc_signed_ledger_info qc))"

inductive sys_step :: "'st setting \<Rightarrow> 'st sys \<Rightarrow> 'st sys \<Rightarrow> bool" for P :: "'st setting" where
  vote: "sys_step P S \<lparr>nodes = (nodes S)(a := s'),
                       log = insert (Voted a (v_vote_data v) (v_ledger_info v)) (log S)\<rparr>"
  if "a \<in> p_honest P"
    and "guarded_construct_and_sign_vote_two_chain (p_laptos P) (p_kv P) now vp mtc (nodes S a) = (Inr v, s')"
    and "qc_presented P (log S) (nodes S a) (bk_quorum_cert (vp_block vp))"
    and "vote_data_ordering_only (p_laptos P) vp \<in> p_universe P"
    and "\<forall>tc es. mtc = Some tc \<and> sr_epoch_state (nodes S a) = Some es \<longrightarrow>
           tc_epoch tc = bk_epoch (vp_block vp) \<and> tc_unforged P (log S) (es_verifier es) tc"
| timeout: "sys_step P S \<lparr>nodes = (nodes S)(a := s'),
                          log = insert (TimedOut a (tt_signing_format t)) (log S)\<rparr>"
  if "a \<in> p_honest P"
    and "guarded_sign_timeout_with_qc (p_laptos P) (p_kv P) t mtc (nodes S a) = (Inr sig, s')"
| order: "sys_step P S \<lparr>nodes = (nodes S)(a := s'),
                        log = insert (OrderVoted a (ov_ledger_info ov)) (log S)\<rparr>"
  if "a \<in> p_honest P"
    and "guarded_construct_and_sign_order_vote (p_laptos P) (p_kv P) ovp (nodes S a) = (Inr ov, s')"
    and "qc_presented P (log S) (nodes S a) (ovp_quorum_cert ovp)"
    and "bi_epoch (ovp_block_info ovp) = bk_epoch (ovp_block ovp)"
    and "bi_round (ovp_block_info ovp) = bk_round (ovp_block ovp)"
| commit: "sys_step P S \<lparr>nodes = (nodes S)(a := s'), log = insert (CommitVoted a new_li) (log S)\<rparr>"
  if "a \<in> p_honest P"
    and "guarded_sign_commit_vote (p_laptos P) lws new_li (nodes S a) = (Inr sig, s')"
    and "\<forall>es. sr_epoch_state (nodes S a) = Some es \<longrightarrow>
           li_unforged P (log S) (es_verifier es) lws \<and> bi_epoch (li_commit_info (lws_ledger_info lws)) = es_epoch es"
    and "li_commit_info (lws_ledger_info lws) \<noteq> x_block_info_empty (p_laptos P)"
    and "li_consensus_data_hash (lws_ledger_info lws) \<in>
           insert (x_hash_zero (p_laptos P)) (x_hash_vote_data (p_laptos P) ` p_universe P)"
    and "li_consensus_data_hash new_li \<in>
           {x_hash_zero (p_laptos P), li_consensus_data_hash (lws_ledger_info lws)}"
| quiet: "sys_step P S (S\<lparr>nodes := (nodes S)(a := sr_step (p_laptos P) (p_kv P) (nodes S a) x)\<rparr>)"
  if "a \<in> p_honest P" and "quiet_op P (nodes S a) x"

text \<open>Initially nothing is signed and every honest store holds the data of a new epoch.\<close>

definition sys_init :: "'st setting \<Rightarrow> 'st sys \<Rightarrow> bool" where
  "sys_init P S \<longleftrightarrow> log S = {} \<and>
     (\<forall>a \<in> p_honest P. sr_ok (p_kv P) (nodes S a) \<and>
        (\<exists>e. sr_persisted (p_kv P) (nodes S a) = Some (safety_data_new e)) \<and>
        sr_epoch_state (nodes S a) = None)"

inductive reachable :: "'st setting \<Rightarrow> 'st sys \<Rightarrow> bool" for P :: "'st setting" where
  init: "sys_init P S \<Longrightarrow> reachable P S"
| step: "reachable P S \<Longrightarrow> sys_step P S S' \<Longrightarrow> reachable P S'"

section \<open>Certified, committed, extends\<close>

definition certified :: "'st setting \<Rightarrow> event set \<Rightarrow> vote_data \<Rightarrow> bool" where
  "certified P E vd \<longleftrightarrow>
     (\<exists>Q \<in> p_quorums P (p_verifier P (bi_epoch (vd_proposed vd))).
        \<forall>h \<in> Q \<inter> p_honest P. \<exists>li. Voted h vd li \<in> E)"

definition order_certified :: "'st setting \<Rightarrow> event set \<Rightarrow> block_info \<Rightarrow> bool" where
  "order_certified P E b \<longleftrightarrow>
     (\<exists>Q \<in> p_quorums P (p_verifier P (bi_epoch b)).
        \<forall>h \<in> Q \<inter> p_honest P. \<exists>li. OrderVoted h li \<in> E \<and> core (li_commit_info li) = core b)"

text \<open>A block is committed by an order certificate or by a certified child of the next round.\<close>

definition committed :: "'st setting \<Rightarrow> event set \<Rightarrow> block_info \<Rightarrow> bool" where
  "committed P E b \<longleftrightarrow> order_certified P E b \<or>
     (\<exists>vd. certified P E vd \<and> core (vd_parent vd) = core b \<and>
        unat (bi_round (vd_proposed vd)) = unat (bi_round b) + 1)"

inductive extends :: "'st setting \<Rightarrow> event set \<Rightarrow> vote_data \<Rightarrow> block_info \<Rightarrow> bool"
  for P :: "'st setting" and E :: "event set" where
  self: "core (vd_proposed vd) = core b \<Longrightarrow> extends P E vd b"
| parent: "certified P E vd' \<Longrightarrow> vd_proposed vd' = vd_parent vd \<Longrightarrow> extends P E vd' b \<Longrightarrow> extends P E vd b"

text \<open>A timeout certificate of epoch \<open>e\<close> and round \<open>k\<close> with highest round \<open>q\<close>.\<close>

definition tc_backed :: "'st setting \<Rightarrow> event set \<Rightarrow> u64 \<Rightarrow> round \<Rightarrow> round \<Rightarrow> bool" where
  "tc_backed P E e k q \<longleftrightarrow>
     (\<exists>Q \<in> p_quorums P (p_verifier P e). \<forall>h \<in> Q \<inter> p_honest P.
        \<exists>t. TimedOut h t \<in> E \<and> tsr_epoch t = e \<and> tsr_round t = k \<and> tsr_hqc_round t \<le> q)"

lemma certified_mono: "certified P E vd \<Longrightarrow> E \<subseteq> E' \<Longrightarrow> certified P E' vd"
  unfolding certified_def by (meson subsetD)

lemma order_certified_mono: "order_certified P E b \<Longrightarrow> E \<subseteq> E' \<Longrightarrow> order_certified P E' b"
  unfolding order_certified_def by (meson subsetD)

lemma committed_mono: "committed P E b \<Longrightarrow> E \<subseteq> E' \<Longrightarrow> committed P E' b"
  unfolding committed_def by (meson certified_mono order_certified_mono)

lemma tc_backed_mono: "tc_backed P E e k q \<Longrightarrow> E \<subseteq> E' \<Longrightarrow> tc_backed P E' e k q"
  unfolding tc_backed_def by (meson subsetD)

section \<open>The invariant of the log\<close>

text \<open>What every vote of an honest validator has passed.\<close>

definition vote_justified :: "'st setting \<Rightarrow> event set \<Rightarrow> vote_data \<Rightarrow> ledger_info \<Rightarrow> bool" where
  "vote_justified P E vd li \<longleftrightarrow> vd \<in> p_universe P \<and>
     bi_epoch (vd_parent vd) = bi_epoch (vd_proposed vd) \<and>
     bi_round (vd_parent vd) < bi_round (vd_proposed vd) \<and>
     (unat (bi_round (vd_proposed vd)) = unat (bi_round (vd_parent vd)) + 1 \<or>
      bi_round (vd_proposed vd) = 1 \<or>
      (\<exists>k q. unat (bi_round (vd_proposed vd)) = unat k + 1 \<and> q \<le> bi_round (vd_parent vd) \<and>
         tc_backed P E (bi_epoch (vd_proposed vd)) k q)) \<and>
     (bi_round (vd_parent vd) \<noteq> 0 \<longrightarrow> (\<exists>vd'. certified P E vd' \<and> vd_proposed vd' = vd_parent vd)) \<and>
     li_consensus_data_hash li = x_hash_vote_data (p_laptos P) vd \<and>
     (li_commit_info li = x_block_info_empty (p_laptos P) \<or>
      li_commit_info li = vd_parent vd \<and>
      unat (bi_round (vd_proposed vd)) = unat (bi_round (vd_parent vd)) + 1)"

definition order_justified :: "'st setting \<Rightarrow> event set \<Rightarrow> ledger_info \<Rightarrow> bool" where
  "order_justified P E li \<longleftrightarrow> li_consensus_data_hash li = x_hash_zero (p_laptos P) \<and>
     bi_round (li_commit_info li) \<noteq> 0 \<and>
     (\<exists>vd. certified P E vd \<and> vd_proposed vd = li_commit_info li)"

definition commit_justified :: "'st setting \<Rightarrow> event set \<Rightarrow> ledger_info \<Rightarrow> bool" where
  "commit_justified P E li \<longleftrightarrow> committed P E (li_commit_info li) \<and>
     (li_consensus_data_hash li = x_hash_zero (p_laptos P) \<or>
      (\<exists>vd \<in> p_universe P. li_consensus_data_hash li = x_hash_vote_data (p_laptos P) vd \<and> certified P E vd))"

text \<open>No honest validator contradicts itself.\<close>

definition votes_once :: "event set \<Rightarrow> bool" where
  "votes_once E \<longleftrightarrow>
     (\<forall>a vd li vd' li'. Voted a vd li \<in> E \<longrightarrow> Voted a vd' li' \<in> E \<longrightarrow>
        bi_epoch (vd_proposed vd) = bi_epoch (vd_proposed vd') \<longrightarrow>
        bi_round (vd_proposed vd) = bi_round (vd_proposed vd') \<longrightarrow> vd = vd')"

definition timeouts_see_votes :: "event set \<Rightarrow> bool" where
  "timeouts_see_votes E \<longleftrightarrow>
     (\<forall>a vd li t. Voted a vd li \<in> E \<longrightarrow> TimedOut a t \<in> E \<longrightarrow>
        tsr_epoch t = bi_epoch (vd_proposed vd) \<longrightarrow> bi_round (vd_proposed vd) \<le> tsr_round t \<longrightarrow>
        bi_round (vd_parent vd) \<le> tsr_hqc_round t)"

definition timeouts_see_orders :: "event set \<Rightarrow> bool" where
  "timeouts_see_orders E \<longleftrightarrow>
     (\<forall>a li t. OrderVoted a li \<in> E \<longrightarrow> TimedOut a t \<in> E \<longrightarrow>
        tsr_epoch t = bi_epoch (li_commit_info li) \<longrightarrow> bi_round (li_commit_info li) \<le> tsr_round t \<longrightarrow>
        bi_round (li_commit_info li) \<le> tsr_hqc_round t)"

definition consistent :: "event set \<Rightarrow> bool" where
  "consistent E \<longleftrightarrow> votes_once E \<and> timeouts_see_votes E \<and> timeouts_see_orders E"

definition justified :: "'st setting \<Rightarrow> event set \<Rightarrow> bool" where
  "justified P E \<longleftrightarrow>
     (\<forall>a vd li. Voted a vd li \<in> E \<longrightarrow> vote_justified P E vd li) \<and>
     (\<forall>a li. OrderVoted a li \<in> E \<longrightarrow> order_justified P E li) \<and>
     (\<forall>a li. CommitVoted a li \<in> E \<longrightarrow> commit_justified P E li)"

lemma vote_justified_mono: "vote_justified P E vd li \<Longrightarrow> E \<subseteq> E' \<Longrightarrow> vote_justified P E' vd li"
  unfolding vote_justified_def by (meson tc_backed_mono certified_mono)

lemma order_justified_mono: "order_justified P E li \<Longrightarrow> E \<subseteq> E' \<Longrightarrow> order_justified P E' li"
  unfolding order_justified_def by (meson certified_mono)

lemma commit_justified_mono: "commit_justified P E li \<Longrightarrow> E \<subseteq> E' \<Longrightarrow> commit_justified P E' li"
  unfolding commit_justified_def by (meson certified_mono committed_mono)

lemmas justified_mono = vote_justified_mono order_justified_mono commit_justified_mono

section \<open>Consequences of the invariant\<close>

lemma quorum_meet:
  assumes "setting_ok P" "Q \<in> p_quorums P vv" "Q' \<in> p_quorums P vv"
  obtains h where "h \<in> Q \<inter> p_honest P" "h \<in> Q' \<inter> p_honest P"
  using assms unfolding setting_ok_def by blast

lemma consistent_votes:
  "consistent E \<Longrightarrow> Voted a vd li \<in> E \<Longrightarrow> Voted a vd' li' \<in> E \<Longrightarrow>
   bi_epoch (vd_proposed vd) = bi_epoch (vd_proposed vd') \<Longrightarrow>
   bi_round (vd_proposed vd) = bi_round (vd_proposed vd') \<Longrightarrow> vd = vd'"
  unfolding consistent_def votes_once_def by blast

lemma consistent_vote_timeout:
  "consistent E \<Longrightarrow> Voted a vd li \<in> E \<Longrightarrow> TimedOut a t \<in> E \<Longrightarrow>
   tsr_epoch t = bi_epoch (vd_proposed vd) \<Longrightarrow> bi_round (vd_proposed vd) \<le> tsr_round t \<Longrightarrow>
   bi_round (vd_parent vd) \<le> tsr_hqc_round t"
  unfolding consistent_def timeouts_see_votes_def by blast

lemma consistent_order_timeout:
  "consistent E \<Longrightarrow> OrderVoted a li \<in> E \<Longrightarrow> TimedOut a t \<in> E \<Longrightarrow>
   tsr_epoch t = bi_epoch (li_commit_info li) \<Longrightarrow> bi_round (li_commit_info li) \<le> tsr_round t \<Longrightarrow>
   bi_round (li_commit_info li) \<le> tsr_hqc_round t"
  unfolding consistent_def timeouts_see_orders_def by blast

lemma certified_justified:
  assumes "setting_ok P" "justified P E" "certified P E vd"
  obtains li where "vote_justified P E vd li"
proof -
  from assms(3) obtain Q where Q: "Q \<in> p_quorums P (p_verifier P (bi_epoch (vd_proposed vd)))"
    and v: "\<forall>h \<in> Q \<inter> p_honest P. \<exists>li. Voted h vd li \<in> E"
    unfolding certified_def by (elim bexE)
  obtain h where "h \<in> Q \<inter> p_honest P" using quorum_meet [OF assms(1) Q Q] by blast
  then show ?thesis using v assms(2) that unfolding justified_def by blast
qed

lemma certified_unique:
  assumes "setting_ok P" "consistent E" "certified P E vd" "certified P E vd'"
    and ep: "bi_epoch (vd_proposed vd) = bi_epoch (vd_proposed vd')"
    and r: "bi_round (vd_proposed vd) = bi_round (vd_proposed vd')"
  shows "vd = vd'"
proof -
  from assms(3) obtain Q where Q: "Q \<in> p_quorums P (p_verifier P (bi_epoch (vd_proposed vd)))"
    and v: "\<forall>h \<in> Q \<inter> p_honest P. \<exists>li. Voted h vd li \<in> E"
    unfolding certified_def by (elim bexE)
  from assms(4) obtain Q' where Q': "Q' \<in> p_quorums P (p_verifier P (bi_epoch (vd_proposed vd')))"
    and v': "\<forall>h \<in> Q' \<inter> p_honest P. \<exists>li. Voted h vd' li \<in> E"
    unfolding certified_def by (elim bexE)
  obtain h where h: "h \<in> Q \<inter> p_honest P" "h \<in> Q' \<inter> p_honest P"
    using quorum_meet [OF assms(1) Q Q' [folded ep]] by blast
  obtain li li' where "Voted h vd li \<in> E" "Voted h vd' li' \<in> E" using bspec [OF v h(1)] bspec [OF v' h(2)] by blast
  then show ?thesis by (rule consistent_votes [OF assms(2) _ _ ep r])
qed

text \<open>A timeout certificate at or above a committed round has seen the committed block.\<close>

lemma committed_order_tc:
  assumes "setting_ok P" "consistent E" "order_certified P E b" "tc_backed P E (bi_epoch b) k q"
    and "bi_round b \<le> k"
  shows "bi_round b \<le> q"
proof -
  from assms(3) obtain Q where Q: "Q \<in> p_quorums P (p_verifier P (bi_epoch b))"
    and o: "\<forall>h \<in> Q \<inter> p_honest P. \<exists>li. OrderVoted h li \<in> E \<and> core (li_commit_info li) = core b"
    unfolding order_certified_def by (elim bexE)
  from assms(4) obtain Q' where Q': "Q' \<in> p_quorums P (p_verifier P (bi_epoch b))"
    and t: "\<forall>h \<in> Q' \<inter> p_honest P.
      \<exists>t. TimedOut h t \<in> E \<and> tsr_epoch t = bi_epoch b \<and> tsr_round t = k \<and> tsr_hqc_round t \<le> q"
    unfolding tc_backed_def by (elim bexE)
  obtain h where h: "h \<in> Q \<inter> p_honest P" "h \<in> Q' \<inter> p_honest P"
    using quorum_meet [OF assms(1) Q Q'] by blast
  obtain li where li: "OrderVoted h li \<in> E" "core (li_commit_info li) = core b" using bspec [OF o h(1)] by blast
  obtain t where t: "TimedOut h t \<in> E" "tsr_epoch t = bi_epoch b" "tsr_round t = k" "tsr_hqc_round t \<le> q"
    using bspec [OF t h(2)] by blast
  have "bi_round b \<le> tsr_hqc_round t"
    using consistent_order_timeout [OF assms(2) li(1) t(1)] li(2) t(2,3) assms(5) by (simp add: core_def)
  then show ?thesis using t(4) by simp
qed

lemma committed_child_tc:
  assumes "setting_ok P" "consistent E" "certified P E c" "tc_backed P E (bi_epoch (vd_proposed c)) k q"
    and "bi_round (vd_proposed c) \<le> k"
  shows "bi_round (vd_parent c) \<le> q"
proof -
  from assms(3) obtain Q where Q: "Q \<in> p_quorums P (p_verifier P (bi_epoch (vd_proposed c)))"
    and v: "\<forall>h \<in> Q \<inter> p_honest P. \<exists>li. Voted h c li \<in> E"
    unfolding certified_def by (elim bexE)
  from assms(4) obtain Q' where Q': "Q' \<in> p_quorums P (p_verifier P (bi_epoch (vd_proposed c)))"
    and t: "\<forall>h \<in> Q' \<inter> p_honest P.
      \<exists>t. TimedOut h t \<in> E \<and> tsr_epoch t = bi_epoch (vd_proposed c) \<and> tsr_round t = k \<and> tsr_hqc_round t \<le> q"
    unfolding tc_backed_def by (elim bexE)
  obtain h where h: "h \<in> Q \<inter> p_honest P" "h \<in> Q' \<inter> p_honest P"
    using quorum_meet [OF assms(1) Q Q'] by blast
  obtain li where li: "Voted h c li \<in> E" using bspec [OF v h(1)] by blast
  obtain t where t: "TimedOut h t \<in> E" "tsr_epoch t = bi_epoch (vd_proposed c)" "tsr_round t = k"
    "tsr_hqc_round t \<le> q"
    using bspec [OF t h(2)] by blast
  have "bi_round (vd_parent c) \<le> tsr_hqc_round t"
    using consistent_vote_timeout [OF assms(2) li t(1,2)] t(3) assms(5) by simp
  then show ?thesis using t(4) by simp
qed

text \<open>The parent of a certified block above a committed block is not below it.\<close>

lemma parent_above_committed:
  assumes ok: "setting_ok P" "consistent E" "justified P E" and b: "committed P E b" "bi_round b \<noteq> 0"
    and vd: "certified P E vd" and ep: "bi_epoch (vd_proposed vd) = bi_epoch b"
    and r: "bi_round b < bi_round (vd_proposed vd)"
  shows "bi_round b \<le> bi_round (vd_parent vd)"
proof -
  obtain li where j: "vote_justified P E vd li" by (rule certified_justified [OF ok(1,3) vd])
  have "unat (bi_round (vd_proposed vd)) = unat (bi_round (vd_parent vd)) + 1 \<or>
      bi_round (vd_proposed vd) = 1 \<or>
      (\<exists>k q. unat (bi_round (vd_proposed vd)) = unat k + 1 \<and> q \<le> bi_round (vd_parent vd) \<and>
         tc_backed P E (bi_epoch b) k q)"
    using j ep by (simp add: vote_justified_def)
  then consider "unat (bi_round (vd_proposed vd)) = unat (bi_round (vd_parent vd)) + 1"
    | "bi_round (vd_proposed vd) = 1"
    | k q where "unat (bi_round (vd_proposed vd)) = unat k + 1" "q \<le> bi_round (vd_parent vd)"
      "tc_backed P E (bi_epoch b) k q"
    by (elim disjE exE conjE)
  then show ?thesis
  proof cases
    case 1
    then show ?thesis using r by (simp add: word_less_nat_alt word_le_nat_alt)
  next
    case 2
    then show ?thesis using r b(2) by (simp add: word_less_nat_alt unat_eq_0)
  next
    case (3 k q)
    have k: "bi_round b \<le> k" using r 3(1) by (simp add: word_less_nat_alt word_le_nat_alt)
    have "bi_round b \<le> q \<or> bi_round b \<le> bi_round (vd_parent vd)"
      using b(1) unfolding committed_def
    proof
      assume "order_certified P E b"
      then show ?thesis using committed_order_tc [OF ok(1,2) _ 3(3) k] by simp
    next
      assume "\<exists>c. certified P E c \<and> core (vd_parent c) = core b \<and>
        unat (bi_round (vd_proposed c)) = unat (bi_round b) + 1"
      then obtain c where c: "certified P E c" "core (vd_parent c) = core b"
        "unat (bi_round (vd_proposed c)) = unat (bi_round b) + 1" by blast
      obtain li' where "vote_justified P E c li'" by (rule certified_justified [OF ok(1,3) c(1)])
      then have ec: "bi_epoch (vd_proposed c) = bi_epoch b" and pc: "bi_round (vd_parent c) = bi_round b"
        using c(2) by (auto simp: vote_justified_def core_def)
      show ?thesis
      proof (cases "bi_round (vd_proposed c) \<le> k")
        case True
        then show ?thesis using committed_child_tc [OF ok(1,2) c(1), of k q] 3(3) ec pc by simp
      next
        case False
        then have "bi_round (vd_proposed vd) = bi_round (vd_proposed c)"
          using c(3) 3(1) k by (simp add: word_le_nat_alt word_unat_eq_iff)
        then have "vd = c" using certified_unique [OF ok(1,2) vd c(1)] ep ec by simp
        then show ?thesis using pc by simp
      qed
    qed
    then show ?thesis using 3(2) by auto
  qed
qed

lemma committed_certified:
  assumes ok: "setting_ok P" "justified P E" and b: "committed P E b" "bi_round b \<noteq> 0"
  obtains vd where "certified P E vd" "core (vd_proposed vd) = core b"
proof -
  have "\<exists>vd. certified P E vd \<and> core (vd_proposed vd) = core b"
    using b(1) unfolding committed_def
  proof
    assume "order_certified P E b"
    then obtain Q where Q: "Q \<in> p_quorums P (p_verifier P (bi_epoch b))"
      and o: "\<forall>h \<in> Q \<inter> p_honest P. \<exists>li. OrderVoted h li \<in> E \<and> core (li_commit_info li) = core b"
      unfolding order_certified_def by (elim bexE)
    obtain h where "h \<in> Q \<inter> p_honest P" using quorum_meet [OF ok(1) Q Q] by blast
    then obtain li where "OrderVoted h li \<in> E" "core (li_commit_info li) = core b" using o by blast
    then show ?thesis using ok(2) unfolding justified_def order_justified_def by metis
  next
    assume "\<exists>c. certified P E c \<and> core (vd_parent c) = core b \<and>
      unat (bi_round (vd_proposed c)) = unat (bi_round b) + 1"
    then obtain c where c: "certified P E c" "core (vd_parent c) = core b" by blast
    obtain li where "vote_justified P E c li" by (rule certified_justified [OF ok c(1)])
    moreover have "bi_round (vd_parent c) \<noteq> 0" using c(2) b(2) by (simp add: core_def)
    ultimately show ?thesis using c(2) unfolding vote_justified_def by metis
  qed
  then show ?thesis using that by blast
qed

text \<open>Every certified block at or above a committed block extends it.\<close>

lemma certified_extends_committed:
  assumes ok: "setting_ok P" "consistent E" "justified P E" and b: "committed P E b" "bi_round b \<noteq> 0"
    and vd: "certified P E vd" and ep: "bi_epoch (vd_proposed vd) = bi_epoch b"
    and r: "bi_round b \<le> bi_round (vd_proposed vd)"
  shows "extends P E vd b"
  using vd ep r
proof (induction "unat (bi_round (vd_proposed vd))" arbitrary: vd rule: less_induct)
  case less
  obtain vb where vb: "certified P E vb" "core (vd_proposed vb) = core b"
    by (rule committed_certified [OF ok(1,3) b])
  show ?case
  proof (cases "bi_round (vd_proposed vd) = bi_round b")
    case True
    then have "vd = vb" using certified_unique [OF ok(1,2) less.prems(1) vb(1)] vb(2) less.prems(2) by (simp add: core_def)
    then show ?thesis using vb(2) by (simp add: extends.self)
  next
    case False
    then have lt: "bi_round b < bi_round (vd_proposed vd)" using less.prems(3) by simp
    have ge: "bi_round b \<le> bi_round (vd_parent vd)"
      by (rule parent_above_committed [OF ok b less.prems(1,2) lt])
    obtain li where j: "vote_justified P E vd li" by (rule certified_justified [OF ok(1,3) less.prems(1)])
    have "bi_round (vd_parent vd) \<noteq> 0" using ge b(2) by (auto simp: word_le_nat_alt unat_eq_0)
    then obtain vp where vp: "certified P E vp" "vd_proposed vp = vd_parent vd"
      using j unfolding vote_justified_def by blast
    have "extends P E vp b"
    proof (rule less.hyps)
      show "unat (bi_round (vd_proposed vp)) < unat (bi_round (vd_proposed vd))"
        using j vp(2) by (simp add: vote_justified_def word_less_nat_alt)
      show "bi_epoch (vd_proposed vp) = bi_epoch b" using j vp(2) less.prems(2) by (simp add: vote_justified_def)
    qed (use vp ge in auto)
    then show ?thesis using vp by (rule extends.parent [rotated 2])
  qed
qed

section \<open>What verified certificates mean\<close>

text \<open>A ledger info that verifies, with its consensus hash one that the protocol uses.\<close>

lemma signed_li_justified:
  assumes "justified P E" "signed_li E h li"
  shows "(\<exists>vd. Voted h vd li \<in> E \<and> vote_justified P E vd li) \<or>
     OrderVoted h li \<in> E \<and> order_justified P E li \<or> commit_justified P E li"
  using assms unfolding justified_def signed_li_def by blast

lemma verified_hash_certified:
  assumes ok: "setting_ok P" "justified P E" and vd: "vd \<in> p_universe P"
    and vv: "vv = p_verifier P (bi_epoch (vd_proposed vd))"
    and v: "x_verify_signatures (p_laptos P) vv lws" "li_unforged P E vv lws"
    and h: "li_consensus_data_hash (lws_ledger_info lws) = x_hash_vote_data (p_laptos P) vd"
  shows "certified P E vd"
proof -
  let ?li = "lws_ledger_info lws"
  have inj: "vd' = vd" if "vd' \<in> p_universe P" "x_hash_vote_data (p_laptos P) vd' = x_hash_vote_data (p_laptos P) vd" for vd'
    using ok(1) vd that unfolding setting_ok_def by (auto dest: inj_onD)
  have nz: "li_consensus_data_hash ?li \<noteq> x_hash_zero (p_laptos P)"
    using ok(1) vd h unfolding setting_ok_def by (metis imageI)
  obtain Q where Q: "Q \<in> p_quorums P vv" and s: "\<forall>h \<in> Q \<inter> p_honest P. signed_li E h ?li"
    using v unfolding li_unforged_def by blast
  show ?thesis
  proof (cases "commit_justified P E ?li")
    case True
    then obtain vd' where "vd' \<in> p_universe P" "x_hash_vote_data (p_laptos P) vd' = x_hash_vote_data (p_laptos P) vd"
      "certified P E vd'"
      using nz h unfolding commit_justified_def by metis
    then show ?thesis using inj by blast
  next
    case False
    have "\<exists>li. Voted a vd li \<in> E" if a: "a \<in> Q \<inter> p_honest P" for a
    proof -
      have "\<not> order_justified P E ?li" using nz by (simp add: order_justified_def)
      then obtain vd' where "Voted a vd' ?li \<in> E" "vote_justified P E vd' ?li"
        using signed_li_justified [OF ok(2) bspec [OF s a]] False by blast
      moreover from this have "vd' = vd" using inj h by (simp add: vote_justified_def)
      ultimately show ?thesis by blast
    qed
    then show ?thesis using Q vv unfolding certified_def by blast
  qed
qed

text \<open>A verified ledger info with a commit info commits that block.\<close>

lemma verified_commit_justified:
  assumes ok: "setting_ok P" "justified P E" and vv: "vv = p_verifier P (bi_epoch (li_commit_info (lws_ledger_info lws)))"
    and v: "x_verify_signatures (p_laptos P) vv lws" "li_unforged P E vv lws"
    and ne: "li_commit_info (lws_ledger_info lws) \<noteq> x_block_info_empty (p_laptos P)"
    and h: "li_consensus_data_hash (lws_ledger_info lws) \<in>
           insert (x_hash_zero (p_laptos P)) (x_hash_vote_data (p_laptos P) ` p_universe P)"
  shows "commit_justified P E (lws_ledger_info lws)"
proof -
  let ?li = "lws_ledger_info lws"
  let ?b = "li_commit_info ?li"
  obtain Q where Q: "Q \<in> p_quorums P vv" and s: "\<forall>h \<in> Q \<inter> p_honest P. signed_li E h ?li"
    using v unfolding li_unforged_def by blast
  obtain a where a: "a \<in> Q \<inter> p_honest P" using quorum_meet [OF ok(1) Q Q] by blast
  consider (commit) "commit_justified P E ?li"
    | (vote) vd where "vote_justified P E vd ?li"
    | (order) "li_consensus_data_hash ?li = x_hash_zero (p_laptos P)" "\<not> commit_justified P E ?li"
        "\<And>vd. \<not> vote_justified P E vd ?li"
    using signed_li_justified [OF ok(2) bspec [OF s a]] order_justified_def by blast
  then show ?thesis
  proof cases
    case commit
    then show ?thesis .
  next
    case (vote vd)
    then have p: "?b = vd_parent vd" "unat (bi_round (vd_proposed vd)) = unat (bi_round (vd_parent vd)) + 1"
      and u: "vd \<in> p_universe P" "li_consensus_data_hash ?li = x_hash_vote_data (p_laptos P) vd"
      and e: "bi_epoch (vd_parent vd) = bi_epoch (vd_proposed vd)"
      using ne by (auto simp: vote_justified_def)
    have "certified P E vd"
      using verified_hash_certified [OF ok u(1) _ v u(2)] vv p(1) e by simp
    then show ?thesis using p u unfolding commit_justified_def committed_def by auto
  next
    case order
    have "\<exists>li. OrderVoted c li \<in> E \<and> core (li_commit_info li) = core ?b" if c: "c \<in> Q \<inter> p_honest P" for c
      using signed_li_justified [OF ok(2) bspec [OF s c]] order(2,3) by blast
    then have "order_certified P E ?b" using Q vv unfolding order_certified_def by blast
    then show ?thesis using order(1) by (simp add: commit_justified_def committed_def)
  qed
qed

section \<open>The invariant of a validator\<close>

text \<open>The persisted data are above everything the validator signed in the epoch.\<close>

definition covers :: "event set \<Rightarrow> author \<Rightarrow> safety_data \<Rightarrow> bool" where
  "covers E a d \<longleftrightarrow>
     (\<forall>vd li. Voted a vd li \<in> E \<longrightarrow> bi_epoch (vd_proposed vd) \<le> sd_epoch d \<and>
        (bi_epoch (vd_proposed vd) = sd_epoch d \<longrightarrow>
           bi_round (vd_proposed vd) \<le> sd_last_voted_round d \<and> bi_round (vd_parent vd) \<le> sd_one_chain_round d)) \<and>
     (\<forall>t. TimedOut a t \<in> E \<longrightarrow> tsr_epoch t \<le> sd_epoch d \<and>
        (tsr_epoch t = sd_epoch d \<longrightarrow>
           tsr_round t \<le> sd_last_voted_round d \<and> tsr_round t \<le> sd_highest_timeout_round d)) \<and>
     (\<forall>li. OrderVoted a li \<in> E \<longrightarrow> bi_epoch (li_commit_info li) \<le> sd_epoch d \<and>
        (bi_epoch (li_commit_info li) = sd_epoch d \<longrightarrow> bi_round (li_commit_info li) \<le> sd_one_chain_round d))"

definition last_vote_logged :: "event set \<Rightarrow> author \<Rightarrow> safety_data \<Rightarrow> bool" where
  "last_vote_logged E a d \<longleftrightarrow>
     (\<forall>v. sd_last_vote d = Some v \<longrightarrow> Voted a (v_vote_data v) (v_ledger_info v) \<in> E)"

definition epoch_known :: "'st setting \<Rightarrow> 'st safety_rules \<Rightarrow> bool" where
  "epoch_known P s \<longleftrightarrow>
     (\<forall>es d. sr_epoch_state s = Some es \<longrightarrow> sr_persisted (p_kv P) s = Some d \<longrightarrow>
        es_epoch es = sd_epoch d \<and> es_verifier es = p_verifier P (sd_epoch d))"

definition node_ok :: "'st setting \<Rightarrow> event set \<Rightarrow> author \<Rightarrow> 'st safety_rules \<Rightarrow> bool" where
  "node_ok P E a s \<longleftrightarrow> sr_inv (p_kv P) s \<and> epoch_known P s \<and>
     (\<forall>d. sr_persisted (p_kv P) s = Some d \<longrightarrow> covers E a d \<and> last_vote_logged E a d)"

definition sys_inv :: "'st setting \<Rightarrow> 'st sys \<Rightarrow> bool" where
  "sys_inv P S \<longleftrightarrow> consistent (log S) \<and> justified P (log S) \<and>
     (\<forall>a \<in> p_honest P. node_ok P (log S) a (nodes S a))"

lemma covers_mono: "covers E a d \<Longrightarrow> sd_le d d' \<Longrightarrow> covers E a d'"
  unfolding covers_def sd_le_def
  by (elim conjE disjE; intro conjI allI impI; fastforce)

section \<open>Preservation\<close>

text \<open>A quorum certificate that passed \<open>verify_qc\<close> certifies its block, unless it is for round 0.\<close>

lemma presented_qc_certified:
  assumes ok: "setting_ok P" "justified P E"
    and qc: "qc_presented P E s qc" "qc_verify (p_laptos P) (es_verifier es) qc = Inr ()"
    and es: "sr_epoch_state s = Some es" "es_verifier es = p_verifier P (bi_epoch (certified_block qc))"
    and r: "bi_round (certified_block qc) \<noteq> 0"
  shows "certified P E (qc_vote_data qc)"
proof (rule verified_hash_certified [OF ok])
  show "qc_vote_data qc \<in> p_universe P" using qc(1) by (simp add: qc_presented_def)
  show "es_verifier es = p_verifier P (bi_epoch (vd_proposed (qc_vote_data qc)))"
    using es(2) by (simp add: certified_block_def)
  show "x_verify_signatures (p_laptos P) (es_verifier es) (qc_signed_ledger_info qc)"
    by (rule qc_verify_nongenesis(1) [OF qc(2) r])
  show "li_unforged P E (es_verifier es) (qc_signed_ledger_info qc)"
    using qc(1) es(1) by (simp add: qc_presented_def)
  show "li_consensus_data_hash (lws_ledger_info (qc_signed_ledger_info qc)) =
      x_hash_vote_data (p_laptos P) (qc_vote_data qc)"
    by (rule qc_verify_hash [OF qc(2)])
qed

lemma verified_tc_backed:
  assumes "tc_verify (p_laptos P) vv tc = Inr ()" "tc_unforged P E vv tc" "vv = p_verifier P (tc_epoch tc)"
  shows "tc_backed P E (tc_epoch tc) (tc_round tc) (tc_highest_hqc_round tc)"
proof -
  let ?ms = "tc_timeout_messages (p_laptos P) vv tc"
  have v: "x_verify_aggregate_signatures (p_laptos P) vv ?ms (asr_sig (tc_signatures_with_rounds tc))"
    and m: "tc_highest_hqc_round tc = Max (set (asr_rounds (tc_signatures_with_rounds tc)))"
    using assms(1) by (auto simp: tc_verify_ok)
  have t: "tsr_epoch t = tc_epoch tc \<and> tsr_round t = tc_round tc \<and> tsr_hqc_round t \<le> tc_highest_hqc_round tc"
    if "t \<in> set ?ms" for t
    using that m by (auto simp: tc_timeout_messages_def get_voters_and_rounds_def dest: set_zip_rightD)
  obtain Q where Q: "Q \<in> p_quorums P vv" "\<forall>h \<in> Q \<inter> p_honest P. \<exists>t \<in> set ?ms. TimedOut h t \<in> E"
    using assms(2) v unfolding tc_unforged_def by blast
  have "\<exists>t. TimedOut h t \<in> E \<and> tsr_epoch t = tc_epoch tc \<and> tsr_round t = tc_round tc \<and>
      tsr_hqc_round t \<le> tc_highest_hqc_round tc" if "h \<in> Q \<inter> p_honest P" for h
    using bspec [OF Q(2) that] t by blast
  then show ?thesis using Q(1) assms(3) unfolding tc_backed_def by blast
qed

text \<open>The vote data of a proposal.\<close>

lemma vote_data_ordering_only_simps [simp]:
  "vd_parent (vote_data_ordering_only L vp) = certified_block (bk_quorum_cert (vp_block vp))"
  "bi_epoch (vd_proposed (vote_data_ordering_only L vp)) = bk_epoch (vp_block vp)"
  "bi_round (vd_proposed (vote_data_ordering_only L vp)) = bk_round (vp_block vp)"
  by (simp_all add: vote_data_ordering_only_def)

lemma construct_ledger_info_ok:
  assumes "construct_ledger_info_2chain L b h = Inr li"
  shows "li_consensus_data_hash li = h"
    and "li_commit_info li = x_block_info_empty L \<or>
         li_commit_info li = certified_block (bk_quorum_cert b) \<and>
         unat (bk_round b) = unat (bi_round (certified_block (bk_quorum_cert b))) + 1"
  using assms
  by (auto simp: construct_ledger_info_2chain_def Let_def split: if_splits)
    (metis unat_plus_one Suc_eq_plus1)

lemma safe_to_vote_rule:
  assumes "safe_to_vote b mtc = Inr ()"
  shows "unat (bk_round b) = unat (bi_round (certified_block (bk_quorum_cert b))) + 1 \<or> bk_round b = 1 \<or>
     (\<exists>tc. mtc = Some tc \<and> unat (bk_round b) = unat (tc_round tc) + 1 \<and>
        tc_highest_hqc_round tc \<le> bi_round (certified_block (bk_quorum_cert b)))"
  using assms by (auto simp: safe_to_vote_ok unat_plus_one split: option.splits)

lemma fresh_vote_justified:
  assumes ok: "setting_ok P" "justified P E" and es: "sr_epoch_state s = Some es"
    and vv: "es_verifier es = p_verifier P (sd_epoch d)"
    and c: "proposal_checked (p_laptos P) now vp es d" and f: "fresh_vote (p_laptos P) vp mtc a d v"
    and tcv: "\<forall>tc. mtc = Some tc \<longrightarrow> tc_verify (p_laptos P) (es_verifier es) tc = Inr ()"
    and qc: "qc_presented P E s (bk_quorum_cert (vp_block vp))"
    and u: "vote_data_ordering_only (p_laptos P) vp \<in> p_universe P"
    and tc: "\<forall>tc es. mtc = Some tc \<and> sr_epoch_state s = Some es \<longrightarrow>
           tc_epoch tc = bk_epoch (vp_block vp) \<and> tc_unforged P E (es_verifier es) tc"
  shows "vote_justified P E (v_vote_data v) (v_ledger_info v)"
proof -
  let ?vd = "vote_data_ordering_only (p_laptos P) vp" and ?qc = "bk_quorum_cert (vp_block vp)"
  have e: "bk_epoch (vp_block vp) = sd_epoch d" "bi_epoch (certified_block ?qc) = bk_epoch (vp_block vp)"
    "bi_round (certified_block ?qc) < bk_round (vp_block vp)"
    and q: "qc_verify (p_laptos P) (es_verifier es) ?qc = Inr ()"
    using c verify_well_formedD by (auto simp: proposal_checked_def)
  have vd: "v_vote_data v = ?vd" and st: "safe_to_vote (vp_block vp) mtc = Inr ()"
    and li: "construct_ledger_info_2chain (p_laptos P) (vp_block vp) (x_hash_vote_data (p_laptos P) ?vd) = Inr (v_ledger_info v)"
    using f by (auto simp: fresh_vote_def)
  have cert: "\<exists>vd'. certified P E vd' \<and> vd_proposed vd' = vd_parent ?vd" if "bi_round (vd_parent ?vd) \<noteq> 0"
    using presented_qc_certified [OF ok qc q es _] that vv e by (auto simp: certified_block_def)
  have tc_ok: "tc_backed P E (bk_epoch (vp_block vp)) (tc_round t) (tc_highest_hqc_round t)" if "mtc = Some t" for t
    using verified_tc_backed [of P "es_verifier es" t E] that tcv tc es vv e(1) by force
  show ?thesis
    unfolding vote_justified_def vd
    using safe_to_vote_rule [OF st] tc_ok cert construct_ledger_info_ok [OF li] e u
    by (auto simp: u)
qed

text \<open>Events of one validator do not concern the others.\<close>

fun author_of :: "event \<Rightarrow> author" where
  "author_of (Voted a _ _) = a"
| "author_of (TimedOut a _) = a"
| "author_of (OrderVoted a _) = a"
| "author_of (CommitVoted a _) = a"

lemma covers_other: "author_of x \<noteq> a \<Longrightarrow> covers (insert x E) a d = covers E a d"
  by (cases x) (simp_all add: covers_def)

lemma last_vote_logged_mono: "last_vote_logged E a d \<Longrightarrow> last_vote_logged (insert x E) a d"
  by (simp add: last_vote_logged_def)

lemma node_ok_other:
  assumes "node_ok P E b s" "author_of x \<noteq> b"
  shows "node_ok P (insert x E) b s"
  using assms by (simp add: node_ok_def covers_other last_vote_logged_mono)

lemma justified_insert:
  assumes "justified P E"
    and "\<And>vd li. x = Voted a vd li \<Longrightarrow> vote_justified P E vd li"
    and "\<And>li. x = OrderVoted a li \<Longrightarrow> order_justified P E li"
    and "\<And>li. x = CommitVoted a li \<Longrightarrow> commit_justified P E li"
    and "author_of x = a"
  shows "justified P (insert x E)"
proof -
  have sub: "E \<subseteq> insert x E" by blast
  show ?thesis
    unfolding justified_def
    using assms
    by (intro conjI allI impI) (auto simp: justified_def intro!: justified_mono [OF _ sub])
qed

text \<open>
  A step of validator \<open>a\<close> that logs \<open>x\<close> keeps the invariant if the log stays consistent and
  justified and the new data of \<open>a\<close> cover the log.
\<close>

lemma sys_inv_step:
  assumes "sys_inv P S" "author_of x = a" "consistent (insert x (log S))" "justified P (insert x (log S))"
    and "node_ok P (insert x (log S)) a s'"
  shows "sys_inv P \<lparr>nodes = (nodes S)(a := s'), log = insert x (log S)\<rparr>"
  using assms by (auto simp: sys_inv_def intro: node_ok_other)

lemma sys_invD:
  assumes "sys_inv P S" "a \<in> p_honest P"
  shows "consistent (log S)" "justified P (log S)" "sr_inv (p_kv P) (nodes S a)" "sr_ok (p_kv P) (nodes S a)"
    and "epoch_known P (nodes S a)"
    and "sr_persisted (p_kv P) (nodes S a) = Some d \<Longrightarrow> covers (log S) a d \<and> last_vote_logged (log S) a d"
  using assms by (auto simp: sys_inv_def node_ok_def sr_inv_def)

lemma node_okI:
  assumes "sr_persisted (p_kv P) s' = Some d" "sr_inv (p_kv P) s'" "epoch_known P s'"
    and "covers E a d" "last_vote_logged E a d"
  shows "node_ok P E a s'"
  using assms by (simp add: node_ok_def)

lemma epoch_known_frame:
  assumes "epoch_known P s" "sr_frame (p_kv P) s s'"
    and "sr_persisted (p_kv P) s = Some d" "sr_persisted (p_kv P) s' = Some d'" "sd_epoch d' = sd_epoch d"
  shows "epoch_known P s'"
  using assms by (simp add: epoch_known_def sr_frame_def)

lemma vote_update_simps [simp]:
  "sd_epoch (vote_update b v d) = sd_epoch d"
  "sd_last_voted_round (vote_update b v d) = bk_round b"
  "sd_one_chain_round (vote_update b v d) = max (sd_one_chain_round d) (bi_round (certified_block (bk_quorum_cert b)))"
  "sd_highest_timeout_round (vote_update b v d) = sd_highest_timeout_round d"
  "sd_last_vote (vote_update b v d) = Some v"
  by (simp_all add: vote_update_def)

lemma timeout_update_simps [simp]:
  "sd_epoch (timeout_update t d) = sd_epoch d"
  "sd_one_chain_round (timeout_update t d) = sd_one_chain_round d"
  "sd_last_vote (timeout_update t d) = sd_last_vote d"
  by (simp_all add: timeout_update_def update_highest_timeout_round_def)

lemma timeout_update_ge:
  "tt_round t \<le> sd_highest_timeout_round (timeout_update t d)"
  "tt_round t \<le> sd_last_voted_round (timeout_update t d)"
  by (auto simp: timeout_update_def update_highest_timeout_round_def not_less)

text \<open>A new vote is for a round above everything signed before in the epoch.\<close>

lemma consistent_vote:
  assumes "consistent E" "covers E a d" "bi_epoch (vd_proposed vd) = sd_epoch d"
    and "sd_last_voted_round d < bi_round (vd_proposed vd)"
  shows "consistent (insert (Voted a vd li) E)"
proof -
  have old: "\<not> bi_round (vd_proposed vd) \<le> bi_round (vd_proposed vd')"
    if "Voted a vd' li' \<in> E" "bi_epoch (vd_proposed vd') = bi_epoch (vd_proposed vd)" for vd' li'
    using assms(2,3,4) that unfolding covers_def by (metis leD le_less_trans)
  have tmo: "\<not> bi_round (vd_proposed vd) \<le> tsr_round t"
    if "TimedOut a t \<in> E" "tsr_epoch t = bi_epoch (vd_proposed vd)" for t
    using assms(2,3,4) that unfolding covers_def by (metis leD le_less_trans)
  show ?thesis
    unfolding consistent_def votes_once_def timeouts_see_votes_def timeouts_see_orders_def
    using tmo
    by (auto intro: consistent_votes [OF assms(1)] consistent_vote_timeout [OF assms(1)]
        consistent_order_timeout [OF assms(1)]) (metis old order_refl)+
qed

lemma consistent_timeout:
  assumes "consistent E" "covers E a d" "tsr_epoch t = sd_epoch d" "sd_one_chain_round d \<le> tsr_hqc_round t"
  shows "consistent (insert (TimedOut a t) E)"
proof -
  have v: "bi_round (vd_parent vd) \<le> tsr_hqc_round t"
    if "Voted a vd li \<in> E" "tsr_epoch t = bi_epoch (vd_proposed vd)" for vd li
    using assms(2,3,4) that unfolding covers_def by (metis order_trans)
  have o: "bi_round (li_commit_info li) \<le> tsr_hqc_round t"
    if "OrderVoted a li \<in> E" "tsr_epoch t = bi_epoch (li_commit_info li)" for li
    using assms(2,3,4) that unfolding covers_def by (metis order_trans)
  show ?thesis
    unfolding consistent_def votes_once_def timeouts_see_votes_def timeouts_see_orders_def
    using v o
    by (auto intro: consistent_votes [OF assms(1)] consistent_vote_timeout [OF assms(1)]
        consistent_order_timeout [OF assms(1)])
qed

lemma consistent_order:
  assumes "consistent E" "covers E a d" "bi_epoch (li_commit_info li) = sd_epoch d"
    and "sd_highest_timeout_round d < bi_round (li_commit_info li)"
  shows "consistent (insert (OrderVoted a li) E)"
proof -
  have "\<not> bi_round (li_commit_info li) \<le> tsr_round t"
    if "TimedOut a t \<in> E" "tsr_epoch t = bi_epoch (li_commit_info li)" for t
    using assms(2,3,4) that unfolding covers_def by (metis leD le_less_trans)
  then show ?thesis
    unfolding consistent_def votes_once_def timeouts_see_votes_def timeouts_see_orders_def
    by (auto intro: consistent_votes [OF assms(1)] consistent_vote_timeout [OF assms(1)]
        consistent_order_timeout [OF assms(1)])
qed

lemma consistent_commit: "consistent E \<Longrightarrow> consistent (insert (CommitVoted a li) E)"
  by (simp add: consistent_def votes_once_def timeouts_see_votes_def timeouts_see_orders_def)

lemma covers_vote:
  assumes "covers E a d" "sd_epoch d' = sd_epoch d" "sd_le d d'"
    and "bi_epoch (vd_proposed vd) = sd_epoch d" "bi_round (vd_proposed vd) \<le> sd_last_voted_round d'"
    and "bi_round (vd_parent vd) \<le> sd_one_chain_round d'"
  shows "covers (insert (Voted a vd li) E) a d'"
  using covers_mono [OF assms(1,3)] assms by (auto simp: covers_def)

lemma covers_timeout:
  assumes "covers E a d" "sd_epoch d' = sd_epoch d" "sd_le d d'"
    and "tsr_epoch t = sd_epoch d" "tsr_round t \<le> sd_last_voted_round d'" "tsr_round t \<le> sd_highest_timeout_round d'"
  shows "covers (insert (TimedOut a t) E) a d'"
  using covers_mono [OF assms(1,3)] assms by (auto simp: covers_def)

lemma covers_order:
  assumes "covers E a d" "sd_epoch d' = sd_epoch d" "sd_le d d'"
    and "bi_epoch (li_commit_info li) = sd_epoch d" "bi_round (li_commit_info li) \<le> sd_one_chain_round d'"
  shows "covers (insert (OrderVoted a li) E) a d'"
  using covers_mono [OF assms(1,3)] assms by (auto simp: covers_def)

lemma covers_commit: "covers E a d \<Longrightarrow> covers (insert (CommitVoted a li) E) a d"
  by (simp add: covers_def)

lemma justified_new:
  assumes "justified P E"
  shows "vote_justified P E vd li \<Longrightarrow> justified P (insert (Voted a vd li) E)"
    and "justified P (insert (TimedOut a t) E)"
    and "order_justified P E li \<Longrightarrow> justified P (insert (OrderVoted a li) E)"
    and "commit_justified P E li \<Longrightarrow> justified P (insert (CommitVoted a li) E)"
  using assms by (auto intro: justified_insert [of P E _ a])

lemma vote_step_inv:
  assumes inv: "sys_inv P S" and ok: "setting_ok P" and a: "a \<in> p_honest P"
    and run: "guarded_construct_and_sign_vote_two_chain (p_laptos P) (p_kv P) now vp mtc (nodes S a) = (Inr v, s')"
    and qc: "qc_presented P (log S) (nodes S a) (bk_quorum_cert (vp_block vp))"
    and u: "vote_data_ordering_only (p_laptos P) vp \<in> p_universe P"
    and tc: "\<forall>tc es. mtc = Some tc \<and> sr_epoch_state (nodes S a) = Some es \<longrightarrow>
           tc_epoch tc = bk_epoch (vp_block vp) \<and> tc_unforged P (log S) (es_verifier es) tc"
  shows "sys_inv P \<lparr>nodes = (nodes S)(a := s'), log = insert (Voted a (v_vote_data v) (v_ledger_info v)) (log S)\<rparr>"
proof -
  note I = sys_invD [OF inv a]
  have post: "vote_post (p_laptos P) (p_kv P) now vp mtc (nodes S a) v s'"
    by (rule wp_okD [OF wp_vote [OF I(4)] run])
  have inv': "sr_inv (p_kv P) s'" using sr_good_vote [OF I(3) post] by (simp add: sr_good_def)
  from post obtain d es b k where d: "sr_persisted (p_kv P) (nodes S a) = Some d"
    and es: "sr_epoch_state (nodes S a) = Some es" and fr: "sr_frame (p_kv P) (nodes S a) s'"
    and c: "proposal_checked (p_laptos P) now vp es d"
    and tcv: "\<forall>tc. mtc = Some tc \<longrightarrow> tc_verify (p_laptos P) (es_verifier es) tc = Inr ()"
    and how: "sd_last_vote d = Some v \<and> sr_persisted (p_kv P) s' = Some d \<or>
      fresh_vote (p_laptos P) vp mtc b d v \<and> sr_persisted (p_kv P) s' = Some (vote_update (vp_block vp) v d)"
    unfolding vote_post_def by blast
  have cov: "covers (log S) a d" and lv: "last_vote_logged (log S) a d" using I(6) [OF d] by auto
  have vv: "es_verifier es = p_verifier P (sd_epoch d)" using I(5) es d by (simp add: epoch_known_def)
  from how show ?thesis
  proof
    assume h: "sd_last_vote d = Some v \<and> sr_persisted (p_kv P) s' = Some d"
    then have "Voted a (v_vote_data v) (v_ledger_info v) \<in> log S" using lv by (simp add: last_vote_logged_def)
    then have *: "insert (Voted a (v_vote_data v) (v_ledger_info v)) (log S) = log S" by blast
    have "node_ok P (log S) a s'"
      using h inv' epoch_known_frame [OF I(5) fr d] cov lv by (intro node_okI) auto
    then show ?thesis using I(1,2) by (intro sys_inv_step [OF inv]) (auto simp: *)
  next
    assume h: "fresh_vote (p_laptos P) vp mtc b d v \<and> sr_persisted (p_kv P) s' = Some (vote_update (vp_block vp) v d)"
    then have vd: "v_vote_data v = vote_data_ordering_only (p_laptos P) vp"
      and lt: "sd_last_voted_round d < bk_round (vp_block vp)" by (auto simp: fresh_vote_def)
    have ep: "bk_epoch (vp_block vp) = sd_epoch d" using c by (simp add: proposal_checked_def)
    have j: "vote_justified P (log S) (v_vote_data v) (v_ledger_info v)"
      using h by (intro fresh_vote_justified [OF ok I(2) es vv c _ tcv qc u tc]) blast
    have "node_ok P (insert (Voted a (v_vote_data v) (v_ledger_info v)) (log S)) a s'"
      using h inv' epoch_known_frame [OF I(5) fr d] vd ep vote_update_le(1) [of "p_laptos P" vp mtc b d v]
      by (intro node_okI covers_vote [OF cov]) (auto simp: last_vote_logged_def)
    then show ?thesis
      using consistent_vote [OF I(1) cov, of "v_vote_data v"] justified_new(1) [OF I(2) j] vd ep lt
      by (intro sys_inv_step [OF inv]) auto
  qed
qed

lemma timeout_step_inv:
  assumes inv: "sys_inv P S" and a: "a \<in> p_honest P"
    and run: "guarded_sign_timeout_with_qc (p_laptos P) (p_kv P) t mtc (nodes S a) = (Inr sig, s')"
  shows "sys_inv P \<lparr>nodes = (nodes S)(a := s'), log = insert (TimedOut a (tt_signing_format t)) (log S)\<rparr>"
proof -
  note I = sys_invD [OF inv a]
  have post: "timeout_post (p_laptos P) (p_kv P) t mtc (nodes S a) s'"
    using wp_okD [OF wp_timeout [OF I(4)] run] by simp
  have inv': "sr_inv (p_kv P) s'" using sr_good_timeout [OF I(3) post] by (simp add: sr_good_def)
  from post obtain d es where d: "sr_persisted (p_kv P) (nodes S a) = Some d"
    and fr: "sr_frame (p_kv P) (nodes S a) s'" and c: "timeout_checked (p_laptos P) t mtc es d"
    and d': "sr_persisted (p_kv P) s' = Some (timeout_update t d)"
    unfolding timeout_post_def by blast
  have cov: "covers (log S) a d" and lv: "last_vote_logged (log S) a d" using I(6) [OF d] by auto
  have wf: "sd_wf d" using I(3) d by (simp add: sr_inv_def)
  have ep: "tt_epoch t = sd_epoch d" and one: "sd_one_chain_round d \<le> tt_hqc_round t"
    using c by (auto simp: timeout_checked_def safe_to_timeout_ok)
  have "node_ok P (insert (TimedOut a (tt_signing_format t)) (log S)) a s'"
    using inv' epoch_known_frame [OF I(5) fr d d'] timeout_update_le(1) [OF wf] timeout_update_ge ep lv
    by (intro node_okI [OF d'] covers_timeout [OF cov]) (auto simp: tt_signing_format_def last_vote_logged_def)
  then show ?thesis
    using consistent_timeout [OF I(1) cov, of "tt_signing_format t"] justified_new(2) [OF I(2)] ep one
    by (intro sys_inv_step [OF inv]) (auto simp: tt_signing_format_def)
qed

lemma order_step_inv:
  assumes inv: "sys_inv P S" and ok: "setting_ok P" and a: "a \<in> p_honest P"
    and run: "guarded_construct_and_sign_order_vote (p_laptos P) (p_kv P) ovp (nodes S a) = (Inr ov, s')"
    and qc: "qc_presented P (log S) (nodes S a) (ovp_quorum_cert ovp)"
    and e: "bi_epoch (ovp_block_info ovp) = bk_epoch (ovp_block ovp)"
    and r: "bi_round (ovp_block_info ovp) = bk_round (ovp_block ovp)"
  shows "sys_inv P \<lparr>nodes = (nodes S)(a := s'), log = insert (OrderVoted a (ov_ledger_info ov)) (log S)\<rparr>"
proof -
  note I = sys_invD [OF inv a]
  have post: "order_vote_post (p_laptos P) (p_kv P) ovp (nodes S a) ov s'"
    by (rule wp_okD [OF wp_order_vote [OF I(4)] run])
  have inv': "sr_inv (p_kv P) s'" using sr_good_order_vote [OF I(3) post] by (simp add: sr_good_def)
  let ?d' = "\<lambda>d. fst (observe_qc (ovp_quorum_cert ovp) d)"
  from post obtain d es where d: "sr_persisted (p_kv P) (nodes S a) = Some d"
    and es: "sr_epoch_state (nodes S a) = Some es"
    and fr: "sr_frame (p_kv P) (nodes S a) s'" and c: "order_vote_checked (p_laptos P) ovp es d"
    and li: "ov_ledger_info ov = \<lparr>li_commit_info = ovp_block_info ovp, li_consensus_data_hash = x_hash_zero (p_laptos P), li_block = None\<rparr>"
    and d': "sr_persisted (p_kv P) s' = Some (?d' d)"
    unfolding order_vote_post_def by blast
  have cov: "covers (log S) a d" and lv: "last_vote_logged (log S) a d" using I(6) [OF d] by auto
  have wf: "sd_wf d" using I(3) d by (simp add: sr_inv_def)
  have cb: "certified_block (ovp_quorum_cert ovp) = ovp_block_info ovp"
    and v: "qc_verify (p_laptos P) (es_verifier es) (ovp_quorum_cert ovp) = Inr ()"
    and ep: "bi_epoch (ovp_block_info ovp) = sd_epoch d"
    and hi: "sd_highest_timeout_round d < bi_round (ovp_block_info ovp)"
    using c e r by (auto simp: order_vote_checked_def)
  have nz: "bi_round (ovp_block_info ovp) \<noteq> 0" using hi by auto
  have "es_verifier es = p_verifier P (sd_epoch d)" using I(5) es d by (simp add: epoch_known_def)
  then have "certified P (log S) (qc_vote_data (ovp_quorum_cert ovp))"
    using presented_qc_certified [OF ok I(2) qc v es] cb ep nz by simp
  then have j: "order_justified P (log S) (ov_ledger_info ov)"
    using li cb nz by (auto simp: order_justified_def certified_block_def)
  have "node_ok P (insert (OrderVoted a (ov_ledger_info ov)) (log S)) a s'"
    using inv' epoch_known_frame [OF I(5) fr d d'] observe_qc_le(1) [OF wf] ep lv li cb
    by (intro node_okI [OF d'] covers_order [OF cov]) (auto simp: last_vote_logged_def)
  then show ?thesis
    using consistent_order [OF I(1) cov, of "ov_ledger_info ov"] justified_new(3) [OF I(2) j] ep hi li
    by (intro sys_inv_step [OF inv]) auto
qed

lemma commit_step_inv:
  assumes inv: "sys_inv P S" and ok: "setting_ok P" and a: "a \<in> p_honest P"
    and run: "guarded_sign_commit_vote (p_laptos P) lws new_li (nodes S a) = (Inr sig, s')"
    and u: "\<forall>es. sr_epoch_state (nodes S a) = Some es \<longrightarrow>
           li_unforged P (log S) (es_verifier es) lws \<and> bi_epoch (li_commit_info (lws_ledger_info lws)) = es_epoch es"
    and ne: "li_commit_info (lws_ledger_info lws) \<noteq> x_block_info_empty (p_laptos P)"
    and h: "li_consensus_data_hash (lws_ledger_info lws) \<in>
           insert (x_hash_zero (p_laptos P)) (x_hash_vote_data (p_laptos P) ` p_universe P)"
    and h': "li_consensus_data_hash new_li \<in> {x_hash_zero (p_laptos P), li_consensus_data_hash (lws_ledger_info lws)}"
  shows "sys_inv P \<lparr>nodes = (nodes S)(a := s'), log = insert (CommitVoted a new_li) (log S)\<rparr>"
proof -
  note I = sys_invD [OF inv a]
  let ?li = "lws_ledger_info lws"
  obtain es where s': "s' = nodes S a" and es: "sr_epoch_state (nodes S a) = Some es"
    and v: "x_verify_signatures (p_laptos P) (es_verifier es) lws"
    and m: "x_match_ordered_only (p_laptos P) (li_commit_info ?li) (li_commit_info new_li)"
    using wp_okD [OF wp_sign_commit_vote [OF I(4)] run] by blast
  obtain d where d: "sr_persisted (p_kv P) (nodes S a) = Some d" using sr_persisted_exists [OF I(4)] by blast
  have vv: "es_verifier es = p_verifier P (es_epoch es)" using I(5) es d by (simp add: epoch_known_def)
  have cm: "commit_justified P (log S) ?li"
    using u es vv by (intro verified_commit_justified [OF ok I(2) _ v _ ne h]) auto
  have core: "core (li_commit_info new_li) = core (li_commit_info ?li)"
    using ok m unfolding setting_ok_def by metis
  then have "committed P (log S) (li_commit_info new_li)"
    using cm by (auto simp: commit_justified_def committed_def order_certified_def core_def)
  then have j: "commit_justified P (log S) new_li" using cm h' by (auto simp: commit_justified_def)
  have "node_ok P (insert (CommitVoted a new_li) (log S)) a s'"
    using I(3,5) I(6) [OF d] s' d by (intro node_okI [of _ _ d]) (auto simp: covers_commit last_vote_logged_mono)
  then show ?thesis
    using consistent_commit [OF I(1)] justified_new(4) [OF I(2) j] by (intro sys_inv_step [OF inv]) auto
qed

text \<open>A quiet step keeps or updates the data of one validator and logs nothing.\<close>

lemma node_ok_same:
  assumes "node_ok P E a s" "sr_same (p_kv P) s s'"
  shows "node_ok P E a s'"
  using assms sr_good_same [of "p_kv P" s s']
  by (auto simp: node_ok_def epoch_known_def sr_sameD sr_good_def)

lemma node_ok_timeout:
  assumes n: "node_ok P E a s" and post: "timeout_post (p_laptos P) (p_kv P) t mtc s s'"
  shows "node_ok P E a s'"
proof -
  from post obtain d where d: "sr_persisted (p_kv P) s = Some d" "sr_persisted (p_kv P) s' = Some (timeout_update t d)"
    and fr: "sr_frame (p_kv P) s s'" unfolding timeout_post_def by blast
  have i: "sr_inv (p_kv P) s" "epoch_known P s" "covers E a d" "last_vote_logged E a d"
    using n d(1) by (auto simp: node_ok_def)
  have "sd_wf d" using i(1) d(1) by (simp add: sr_inv_def)
  then show ?thesis
    using sr_good_timeout [OF i(1) post] epoch_known_frame [OF i(2) fr d] covers_mono [OF i(3)] i(4) timeout_update_le(1)
    by (intro node_okI [OF d(2)]) (auto simp: sr_good_def last_vote_logged_def)
qed

lemma node_ok_init:
  assumes n: "node_ok P E a s" and post: "init_post (p_laptos P) (p_kv P) p s s'"
    and q: "\<forall>es. proof_gives (p_laptos P) p es \<longrightarrow> es_verifier es = p_verifier P (es_epoch es)"
  shows "node_ok P E a s'"
  using post unfolding init_post_def
proof (elim disjE exE conjE)
  assume "sr_same (p_kv P) s s'"
  then show ?thesis by (rule node_ok_same [OF n])
next
  fix d es
  assume d: "sr_persisted (p_kv P) s = Some d" and g: "proof_gives (p_laptos P) p es"
    and es: "sr_epoch_state s' = Some es" and le: "sd_epoch d \<le> es_epoch es"
    and d': "sr_persisted (p_kv P) s' = Some (if sd_epoch d < es_epoch es then safety_data_new (es_epoch es) else d)"
  let ?d' = "if sd_epoch d < es_epoch es then safety_data_new (es_epoch es) else d"
  have i: "sr_inv (p_kv P) s" "covers E a d" "last_vote_logged E a d" using n d by (auto simp: node_ok_def)
  have e: "sd_epoch ?d' = es_epoch es" using le by (auto simp: safety_data_new_def)
  have "sd_le d ?d'" by (auto simp: sd_le_def safety_data_new_def)
  moreover have "last_vote_logged E a ?d'" using i(3) by (auto simp: last_vote_logged_def safety_data_new_def)
  moreover have "epoch_known P s'" using d' es e q g by (simp add: epoch_known_def)
  ultimately show ?thesis
    using sr_good_init [OF i(1) post] covers_mono [OF i(2)] by (intro node_okI [OF d']) (auto simp: sr_good_def)
qed

lemma node_ok_restart:
  assumes "node_ok P E a s"
  shows "node_ok P E a (safety_rules_new (pss_new (internal_store (persistent_storage s)) enable))"
proof -
  let ?s = "safety_rules_new (pss_new (internal_store (persistent_storage s)) enable)"
  have "sr_persisted (p_kv P) ?s = sr_persisted (p_kv P) s" "sr_epoch_state ?s = None"
    by (simp_all add: sr_persisted_def pss_persisted_def safety_rules_new_def pss_new_def)
  then show ?thesis
    using assms sr_good_restart [of "p_kv P" s enable] by (simp add: node_ok_def epoch_known_def sr_good_def)
qed

lemma node_ok_quiet:
  assumes n: "node_ok P E a s" and q: "quiet_op P s x"
  shows "node_ok P E a (sr_step (p_laptos P) (p_kv P) s x)"
proof -
  have ok: "sr_ok (p_kv P) s" using n by (simp add: node_ok_def sr_inv_def)
  have err: "\<not> is_ok (fst (m s)) \<Longrightarrow> wp m Q F s \<Longrightarrow> \<exists>e. F e (snd (m s))" for m :: "('a safety_rules, sr_error, 'b) op" and Q F
    by (cases "m s"; cases "fst (m s)") (auto simp: wp_def)
  note same = node_ok_same [OF n]
  show ?thesis
  proof (cases x)
    case (Initialize p)
    then show ?thesis
      using node_ok_init [OF n wp_snd [OF wp_initialize [OF ok]]] q by simp
  next
    case (SignProposal bd)
    then show ?thesis using wp_snd [of _ "node_ok P E a" s, OF wp_mono [OF wp_sign_proposal [OF ok]]] same by simp
  next
    case (SignTimeoutWithQc t mtc)
    then show ?thesis
      using err [OF _ wp_timeout [OF ok, of "p_laptos P" t mtc]] q same node_ok_timeout [OF n] by auto
  next
    case (ConstructAndSignVoteTwoChain now vp mtc)
    then show ?thesis using err [OF _ wp_vote [OF ok]] q same by simp
  next
    case (ConstructAndSignOrderVote ovp)
    then show ?thesis using err [OF _ wp_order_vote [OF ok]] q same by simp
  next
    case (SignCommitVote lws li)
    then show ?thesis using err [OF _ wp_sign_commit_vote [OF ok]] q n by simp
  next
    case ConsensusState
    then show ?thesis using same [OF wp_snd [OF wp_consensus_state [OF ok]]] by simp
  next
    case (Restart enable)
    then show ?thesis using node_ok_restart [OF n] by simp
  qed
qed

lemma sys_step_inv: "sys_step P S S' \<Longrightarrow> setting_ok P \<Longrightarrow> sys_inv P S \<Longrightarrow> sys_inv P S'"
proof (induction rule: sys_step.induct)
  case (vote a now vp mtc S v s')
  then show ?case by (intro vote_step_inv)
next
  case (timeout a t mtc S sig s')
  then show ?case by (intro timeout_step_inv)
next
  case (order a ovp S ov s')
  then show ?case by (intro order_step_inv)
next
  case (commit a lws new_li S sig s')
  then show ?case by (intro commit_step_inv)
next
  case (quiet a S x)
  then show ?case using node_ok_quiet [of P "log S" a "nodes S a" x] by (auto simp: sys_inv_def)
qed

lemma sys_init_inv:
  assumes "sys_init P S"
  shows "sys_inv P S"
proof -
  have l: "log S = {}" using assms by (simp add: sys_init_def)
  have "node_ok P (log S) a (nodes S a)" if "a \<in> p_honest P" for a
  proof -
    have "sr_ok (p_kv P) (nodes S a) \<and>
        (\<exists>e. sr_persisted (p_kv P) (nodes S a) = Some (safety_data_new e)) \<and>
        sr_epoch_state (nodes S a) = None"
      using assms that by (simp add: sys_init_def)
    then show ?thesis
      using l by (elim conjE exE) (simp add: node_ok_def sr_inv_def epoch_known_def covers_def last_vote_logged_def
          sd_wf_def safety_data_new_def)
  qed
  then show ?thesis
    using l by (simp add: sys_inv_def consistent_def votes_once_def timeouts_see_votes_def
        timeouts_see_orders_def justified_def)
qed

lemma reachable_inv: "reachable P S \<Longrightarrow> setting_ok P \<Longrightarrow> sys_inv P S"
  by (induction rule: reachable.induct) (auto intro: sys_init_inv sys_step_inv)


section \<open>Commit certificates\<close>

text \<open>
  A commit certificate: a ledger info that verifies under the validator set of its epoch, with a
  commit info and a consensus hash of the protocol (the zero hash of an order vote or the hash of
  vote data).
\<close>

definition commit_cert :: "'st setting \<Rightarrow> 'st sys \<Rightarrow> li_with_sigs \<Rightarrow> bool" where
  "commit_cert P S lws \<longleftrightarrow>
     (let vv = p_verifier P (bi_epoch (li_commit_info (lws_ledger_info lws))) in
      x_verify_signatures (p_laptos P) vv lws \<and> li_unforged P (log S) vv lws \<and>
      li_commit_info (lws_ledger_info lws) \<noteq> x_block_info_empty (p_laptos P) \<and>
      li_consensus_data_hash (lws_ledger_info lws) \<in>
        insert (x_hash_zero (p_laptos P)) (x_hash_vote_data (p_laptos P) ` p_universe P))"

lemma commit_cert_committed:
  assumes "reachable P S" "setting_ok P" "commit_cert P S lws"
  shows "committed P (log S) (li_commit_info (lws_ledger_info lws))"
proof -
  have j: "justified P (log S)" using reachable_inv [OF assms(1,2)] by (simp add: sys_inv_def)
  have "commit_justified P (log S) (lws_ledger_info lws)"
    using assms(3) unfolding commit_cert_def Let_def
    by (intro verified_commit_justified [OF assms(2) j refl]) auto
  then show ?thesis by (simp add: commit_justified_def)
qed

section \<open>A concrete run for the witnesses\<close>

text \<open>One validator: it initialises for epoch 1 and votes for the nil blocks of rounds 1, 2 and 3.\<close>

definition ex_setting :: "mem_store setting" where
  "ex_setting =
     \<lparr>p_laptos = example_laptos, p_kv = mem_kv, p_honest = {0}, p_verifier = (\<lambda>_. 1),
      p_quorums = (\<lambda>_. {{0}}),
      p_universe = {ex_vote_data 1 0 0, ex_vote_data 1 1 0, ex_vote_data 1 2 1, ex_vote_data 1 3 2}\<rparr>"

definition ex_node0 :: "mem_store safety_rules" where
  "ex_node0 = safety_rules_new (pss_new ex_mem_store True)"

definition ex_node1 :: "mem_store safety_rules" where
  "ex_node1 = sr_step example_laptos mem_kv ex_node0 (Initialize 0)"

definition ex_vote :: "round \<Rightarrow> mem_store safety_rules \<Rightarrow> (sr_error + vote) \<times> mem_store safety_rules" where
  "ex_vote r = guarded_construct_and_sign_vote_two_chain example_laptos mem_kv 0 (ex_vote_proposal r (r - 1)) None"

definition ex_li :: "round \<Rightarrow> round \<Rightarrow> ledger_info" where
  "ex_li r p = lws_ledger_info (qc_signed_ledger_info (ex_qc 1 r p 1))"

lemma ex_vote_facts:
  "is_ok (fst (ex_vote 1 ex_node1))"
  "is_ok (fst (ex_vote 2 (snd (ex_vote 1 ex_node1))))"
  "is_ok (fst (ex_vote 3 (snd (ex_vote 2 (snd (ex_vote 1 ex_node1))))))"
  by code_simp+

lemma ex_vote_values:
  "v_vote_data (projr (fst (ex_vote 1 ex_node1))) = ex_vote_data 1 1 0"
  "v_ledger_info (projr (fst (ex_vote 1 ex_node1))) = ex_li 1 0"
  "v_vote_data (projr (fst (ex_vote 2 (snd (ex_vote 1 ex_node1))))) = ex_vote_data 1 2 1"
  "v_ledger_info (projr (fst (ex_vote 2 (snd (ex_vote 1 ex_node1))))) = ex_li 2 1"
  "v_vote_data (projr (fst (ex_vote 3 (snd (ex_vote 2 (snd (ex_vote 1 ex_node1))))))) = ex_vote_data 1 3 2"
  "v_ledger_info (projr (fst (ex_vote 3 (snd (ex_vote 2 (snd (ex_vote 1 ex_node1))))))) = ex_li 3 2"
  by code_simp+

lemma ex_setting_simps [simp]:
  "p_laptos ex_setting = example_laptos" "p_kv ex_setting = mem_kv" "p_honest ex_setting = {0}"
  "p_verifier ex_setting e = 1" "p_quorums ex_setting vv = {{0}}"
  "p_universe ex_setting = {ex_vote_data 1 0 0, ex_vote_data 1 1 0, ex_vote_data 1 2 1, ex_vote_data 1 3 2}"
  by (simp_all add: ex_setting_def)

lemma setting_ok_ex: "setting_ok ex_setting"
  by (auto simp: setting_ok_def inj_on_def ex_vote_data_def ex_block_info_def core_def)

lemma ex_step:
  assumes "reachable ex_setting S" "is_ok (fst (ex_vote r (nodes S 0)))"
    and "qc_vote_data qc \<in> p_universe ex_setting" "bk_quorum_cert (vp_block (ex_vote_proposal r (r - 1))) = qc"
    and "vote_data_ordering_only example_laptos (ex_vote_proposal r (r - 1)) \<in> p_universe ex_setting"
    and "lws_signatures (qc_signed_ledger_info qc) = 0 \<or> signed_li (log S) 0 (lws_ledger_info (qc_signed_ledger_info qc))"
    and "\<forall>es. sr_epoch_state (nodes S 0) = Some es \<longrightarrow> es_verifier es = 1"
  shows "reachable ex_setting
     \<lparr>nodes = (nodes S)(0 := snd (ex_vote r (nodes S 0))),
      log = insert (Voted 0 (v_vote_data (projr (fst (ex_vote r (nodes S 0)))))
                           (v_ledger_info (projr (fst (ex_vote r (nodes S 0)))))) (log S)\<rparr>"
proof (rule reachable.step [OF assms(1) sys_step.vote])
  show "0 \<in> p_honest ex_setting" by simp
  show "guarded_construct_and_sign_vote_two_chain (p_laptos ex_setting) (p_kv ex_setting) 0
      (ex_vote_proposal r (r - 1)) None (nodes S 0) =
      (Inr (projr (fst (ex_vote r (nodes S 0)))), snd (ex_vote r (nodes S 0)))"
    using op_success [OF assms(2)] by (simp add: ex_vote_def)
  show "qc_presented ex_setting (log S) (nodes S 0) (bk_quorum_cert (vp_block (ex_vote_proposal r (r - 1))))"
    using assms(3,4,6,7) by (auto simp: qc_presented_def li_unforged_def ex_quorum_def)
qed (use assms(5) in simp_all)

definition ex_sys :: "mem_store sys" where
  "ex_sys = \<lparr>nodes = (\<lambda>_. ex_node0)(0 := snd (ex_vote 3 (snd (ex_vote 2 (snd (ex_vote 1 ex_node1)))))),
             log = {Voted 0 (ex_vote_data 1 3 2) (ex_li 3 2), Voted 0 (ex_vote_data 1 2 1) (ex_li 2 1),
                    Voted 0 (ex_vote_data 1 1 0) (ex_li 1 0)}\<rparr>"

lemma ex_epoch_states:
  "sr_epoch_state ex_node1 = Some \<lparr>es_epoch = 1, es_verifier = 1\<rparr>"
  "sr_epoch_state (snd (ex_vote 1 ex_node1)) = Some \<lparr>es_epoch = 1, es_verifier = 1\<rparr>"
  "sr_epoch_state (snd (ex_vote 2 (snd (ex_vote 1 ex_node1)))) = Some \<lparr>es_epoch = 1, es_verifier = 1\<rparr>"
  by code_simp+

lemma ex_proposals:
  "bk_quorum_cert (vp_block (ex_vote_proposal 1 0)) = ex_qc 1 0 0 0"
  "bk_quorum_cert (vp_block (ex_vote_proposal 2 1)) = ex_qc 1 1 0 1"
  "bk_quorum_cert (vp_block (ex_vote_proposal 3 2)) = ex_qc 1 2 1 1"
  "vote_data_ordering_only example_laptos (ex_vote_proposal 1 0) = ex_vote_data 1 1 0"
  "vote_data_ordering_only example_laptos (ex_vote_proposal 2 1) = ex_vote_data 1 2 1"
  "vote_data_ordering_only example_laptos (ex_vote_proposal 3 2) = ex_vote_data 1 3 2"
  by code_simp+

lemma ex_sys_reachable: "reachable ex_setting ex_sys"
proof -
  let ?S0 = "\<lparr>nodes = \<lambda>_. ex_node0, log = {}\<rparr>"
  have qc: "qc_vote_data (ex_qc 1 r p k) = ex_vote_data 1 r p"
    "lws_ledger_info (qc_signed_ledger_info (ex_qc 1 r p k)) = ex_li r p"
    "lws_signatures (qc_signed_ledger_info (ex_qc 1 r p k)) = k" for r p k
    by (simp_all add: ex_qc_def ex_li_def)
  have "sys_init ex_setting ?S0"
    using sr_inv_ex
    by (auto simp: sys_init_def ex_node0_def sr_inv_def sr_ok_def ex_sr_def safety_rules_new_def)
      (auto simp: sr_persisted_def pss_persisted_def pss_new_def mem_kv_def ex_mem_store_def)
  then have "reachable ex_setting ?S0" by (rule reachable.init)
  then have "reachable ex_setting (?S0\<lparr>nodes := (nodes ?S0)(0 := sr_step (p_laptos ex_setting) (p_kv ex_setting) (nodes ?S0 0) (Initialize 0))\<rparr>)"
    by (rule reachable.step, intro sys_step.quiet) (auto simp: proof_gives_def)
  then have 1: "reachable ex_setting \<lparr>nodes = (\<lambda>_. ex_node0)(0 := ex_node1), log = {}\<rparr>"
    by (simp add: ex_node1_def)
  have 2: "reachable ex_setting \<lparr>nodes = (\<lambda>_. ex_node0)(0 := snd (ex_vote 1 ex_node1)),
      log = {Voted 0 (ex_vote_data 1 1 0) (ex_li 1 0)}\<rparr>"
    using ex_step [OF 1, of 1 "ex_qc 1 0 0 0"] by (simp add: ex_vote_facts ex_vote_values ex_proposals ex_epoch_states qc)
  have 3: "reachable ex_setting \<lparr>nodes = (\<lambda>_. ex_node0)(0 := snd (ex_vote 2 (snd (ex_vote 1 ex_node1)))),
      log = {Voted 0 (ex_vote_data 1 2 1) (ex_li 2 1), Voted 0 (ex_vote_data 1 1 0) (ex_li 1 0)}\<rparr>"
    using ex_step [OF 2, of 2 "ex_qc 1 1 0 1"]
    by (simp add: ex_vote_facts ex_vote_values ex_proposals ex_epoch_states qc signed_li_def)
  show ?thesis
    unfolding ex_sys_def
    using ex_step [OF 3, of 3 "ex_qc 1 2 1 1"]
    by (auto simp: ex_vote_facts ex_vote_values ex_proposals ex_epoch_states qc signed_li_def)
qed

lemma ex_commit_certs:
  "commit_cert ex_setting ex_sys (qc_signed_ledger_info (ex_qc 1 2 1 1))"
  "commit_cert ex_setting ex_sys (qc_signed_ledger_info (ex_qc 1 3 2 1))"
  by (auto simp: commit_cert_def Let_def li_unforged_def signed_li_def ex_sys_def ex_li_def ex_quorum_def)
    (auto simp: ex_qc_def ex_vote_data_def ex_block_info_def block_info_new_def)

section \<open>Properties\<close>

text \<open>
  C1. Agreement. In every reachable state of the system, take two commit certificates of one epoch
  for blocks of rounds above zero. The block of the higher round is certified and extends the
  block of the lower round along a chain of certified blocks, each the parent of the next (if the
  rounds are equal the two blocks are the same). So no two honest nodes commit blocks on
  different branches, by either commit rule, whatever the Byzantine validators send.
\<close>

theorem agreement:
  assumes "reachable P S" "setting_ok P" "commit_cert P S lws1" "commit_cert P S lws2"
    and "bi_epoch (li_commit_info (lws_ledger_info lws1)) = bi_epoch (li_commit_info (lws_ledger_info lws2))"
    and "0 < bi_round (li_commit_info (lws_ledger_info lws1))"
    and "bi_round (li_commit_info (lws_ledger_info lws1)) \<le> bi_round (li_commit_info (lws_ledger_info lws2))"
  shows "\<exists>vd. certified P (log S) vd \<and> core (vd_proposed vd) = core (li_commit_info (lws_ledger_info lws2)) \<and>
     extends P (log S) vd (li_commit_info (lws_ledger_info lws1))"
proof -
  have i: "consistent (log S)" "justified P (log S)"
    using reachable_inv [OF assms(1,2)] by (auto simp: sys_inv_def)
  let ?b1 = "li_commit_info (lws_ledger_info lws1)" and ?b2 = "li_commit_info (lws_ledger_info lws2)"
  have nz: "bi_round ?b1 \<noteq> 0" using assms(6) by auto
  have nz2: "bi_round ?b2 \<noteq> 0" using assms(6,7) by auto
  obtain vd where vd: "certified P (log S) vd" "core (vd_proposed vd) = core ?b2"
    by (rule committed_certified [OF assms(2) i(2) commit_cert_committed [OF assms(1,2,4)] nz2])
  have "extends P (log S) vd ?b1"
    using vd assms(5,7)
    by (intro certified_extends_committed [OF assms(2) i commit_cert_committed [OF assms(1,2,3)] nz]) (auto simp: core_def)
  then show ?thesis using vd by blast
qed

theorem agreement_witness:
  "commit_cert ex_setting ex_sys (qc_signed_ledger_info (ex_qc 1 2 1 1)) \<and>
   commit_cert ex_setting ex_sys (qc_signed_ledger_info (ex_qc 1 3 2 1)) \<and>
   (\<exists>vd. certified ex_setting (log ex_sys) vd \<and> core (vd_proposed vd) = core (ex_block_info 1 2) \<and>
      extends ex_setting (log ex_sys) vd (ex_block_info 1 1))"
proof -
  have b: "li_commit_info (lws_ledger_info (qc_signed_ledger_info (ex_qc 1 2 1 1))) = ex_block_info 1 1"
    "li_commit_info (lws_ledger_info (qc_signed_ledger_info (ex_qc 1 3 2 1))) = ex_block_info 1 2"
    by (simp_all add: ex_qc_def)
  show ?thesis
    using ex_commit_certs agreement [OF ex_sys_reachable setting_ok_ex ex_commit_certs, unfolded b]
    by (simp add: ex_block_info_def)
qed

text \<open>
  C2. No certificate is ever formed on a conflicting branch. Once a block of round above zero is
  committed, every quorum certificate of its epoch for that round or a later one that a correct
  validator accepts is for a block that extends it.
\<close>

theorem certificates_extend_commit:
  assumes "reachable P S" "setting_ok P" "commit_cert P S lws"
    and "0 < bi_round (li_commit_info (lws_ledger_info lws))"
    and "bi_epoch (certified_block qc) = bi_epoch (li_commit_info (lws_ledger_info lws))"
    and "bi_round (li_commit_info (lws_ledger_info lws)) \<le> bi_round (certified_block qc)"
    and "qc_verify (p_laptos P) (p_verifier P (bi_epoch (certified_block qc))) qc = Inr ()"
    and "li_unforged P (log S) (p_verifier P (bi_epoch (certified_block qc))) (qc_signed_ledger_info qc)"
    and "qc_vote_data qc \<in> p_universe P"
  shows "extends P (log S) (qc_vote_data qc) (li_commit_info (lws_ledger_info lws))"
proof -
  have i: "consistent (log S)" "justified P (log S)"
    using reachable_inv [OF assms(1,2)] by (auto simp: sys_inv_def)
  have nz: "bi_round (li_commit_info (lws_ledger_info lws)) \<noteq> 0" "bi_round (certified_block qc) \<noteq> 0"
    using assms(4,6) by auto
  have "certified P (log S) (qc_vote_data qc)"
    using qc_verify_nongenesis(1) [OF assms(7) nz(2)] qc_verify_hash [OF assms(7)]
    by (intro verified_hash_certified [OF assms(2) i(2) assms(9) _ _ assms(8)]) (auto simp: certified_block_def)
  then show ?thesis
    using assms(5,6)
    by (intro certified_extends_committed [OF assms(2) i commit_cert_committed [OF assms(1,2,3)] nz(1)])
      (auto simp: certified_block_def)
qed

theorem certificates_extend_commit_witness:
  "extends ex_setting (log ex_sys) (qc_vote_data (ex_qc 1 3 2 1)) (ex_block_info 1 1)"
proof -
  have b: "li_commit_info (lws_ledger_info (qc_signed_ledger_info (ex_qc 1 2 1 1))) = ex_block_info 1 1"
    by (simp add: ex_qc_def)
  have v: "qc_verify example_laptos 1 (ex_qc 1 3 2 1) = Inr ()" by code_simp
  have u: "li_unforged ex_setting (log ex_sys) 1 (qc_signed_ledger_info (ex_qc 1 3 2 1))"
    by (auto simp: li_unforged_def signed_li_def ex_sys_def ex_li_def)
  show ?thesis
    using certificates_extend_commit [OF ex_sys_reachable setting_ok_ex ex_commit_certs(1), unfolded b, of "ex_qc 1 3 2 1"] v u
    by (simp add: certified_block_def ex_qc_def ex_vote_data_def ex_block_info_def)
qed

end
