(* ===== verification/Sync_Messages.thy ===== *)
theory Sync_Messages
  imports Blocks
begin

text \<open>
  \<open>SyncInfo\<close> and the messages of a round (sync\_info.rs, proposal\_msg.rs, vote\_msg.rs,
  order\_vote\_msg.rs): the rounds a \<open>SyncInfo\<close> carries, its verification, and the checks of
  \<open>ProposalMsg\<close>, \<open>VoteMsg\<close> and \<open>OrderVoteMsg\<close>. The properties say what a message that passes
  its checks guarantees about epochs and rounds.
\<close>

section \<open>SyncInfo\<close>

text \<open>The fail point in \<open>new_decoupled\<close> is a test hook and is off.\<close>

definition si_new_decoupled ::
  "quorum_cert \<Rightarrow> wrapped_ledger_info \<Rightarrow> wrapped_ledger_info \<Rightarrow> timeout_cert option \<Rightarrow> sync_info" where
  "si_new_decoupled hqc hoc hcc htc =
     \<lparr>si_highest_quorum_cert = hqc,
      si_highest_ordered_cert = Some hoc,
      si_highest_commit_cert = hcc,
      si_highest_2chain_timeout_cert =
        (case htc of
           None \<Rightarrow> None
         | Some tc \<Rightarrow> if tc_round tc > bi_round (certified_block hqc) then Some tc else None)\<rparr>"

definition si_new :: "quorum_cert \<Rightarrow> wrapped_ledger_info \<Rightarrow> timeout_cert option \<Rightarrow> sync_info" where
  "si_new hqc hoc htc = si_new_decoupled hqc hoc hoc htc"

definition highest_ordered_cert :: "sync_info \<Rightarrow> wrapped_ledger_info" where
  "highest_ordered_cert si =
     (case si_highest_ordered_cert si of
        Some cert \<Rightarrow> cert
      | None \<Rightarrow> into_wrapped_ledger_info (si_highest_quorum_cert si))"

definition highest_certified_round :: "sync_info \<Rightarrow> round" where
  "highest_certified_round si = bi_round (certified_block (si_highest_quorum_cert si))"

definition highest_timeout_round :: "sync_info \<Rightarrow> round" where
  "highest_timeout_round si =
     (case si_highest_2chain_timeout_cert si of None \<Rightarrow> 0 | Some tc \<Rightarrow> tc_round tc)"

definition highest_ordered_round :: "sync_info \<Rightarrow> round" where
  "highest_ordered_round si = bi_round (wli_commit_info (highest_ordered_cert si))"

definition highest_commit_round :: "sync_info \<Rightarrow> round" where
  "highest_commit_round si = bi_round (wli_commit_info (si_highest_commit_cert si))"

definition highest_round :: "sync_info \<Rightarrow> round" where
  "highest_round si = max (highest_certified_round si) (highest_timeout_round si)"

definition si_epoch :: "sync_info \<Rightarrow> u64" where
  "si_epoch si = bi_epoch (certified_block (si_highest_quorum_cert si))"

definition has_newer_certificates :: "sync_info \<Rightarrow> sync_info \<Rightarrow> bool" where
  "has_newer_certificates si other \<longleftrightarrow>
     highest_certified_round si > highest_certified_round other \<or>
     highest_timeout_round si > highest_timeout_round other \<or>
     highest_ordered_round si > highest_ordered_round other \<or>
     highest_commit_round si > highest_commit_round other"

definition si_verify :: "laptos \<Rightarrow> validator_verifier \<Rightarrow> sync_info \<Rightarrow> string + unit" where
  "si_verify L vv si =
     (let epoch = bi_epoch (certified_block (si_highest_quorum_cert si));
          hoc = wli_commit_info (highest_ordered_cert si);
          hcc = wli_commit_info (si_highest_commit_cert si)
      in ensure (epoch = bi_epoch hoc) ''Multi epoch in SyncInfo - HOC and HQC''
        (ensure (epoch = bi_epoch hcc) ''Multi epoch in SyncInfo - HOC and HCC''
        (ensure (case si_highest_2chain_timeout_cert si of None \<Rightarrow> True | Some tc \<Rightarrow> epoch = tc_epoch tc)
          ''Multi epoch in SyncInfo - TC and HQC''
        (ensure (bi_round (certified_block (si_highest_quorum_cert si)) \<ge> bi_round hoc)
          ''HQC has lower round than HOC''
        (ensure (highest_ordered_round si \<ge> highest_commit_round si) ''HOC has lower round than HLI''
        (ensure (hoc \<noteq> x_block_info_empty L) ''HOC has no committed block''
        (ensure (hcc \<noteq> x_block_info_empty L) ''HLI has empty commit info''
        (ensure (\<not> x_is_ordered_only L hcc) ''HLI has ordered only commit info''
        (map_err (\<lambda>_. ''Fail to verify SyncInfo'')
          (bind_res (qc_verify L vv (si_highest_quorum_cert si)) (\<lambda>_.
           bind_res (case si_highest_ordered_cert si of None \<Rightarrow> Inr () | Some cert \<Rightarrow> wli_verify L vv cert) (\<lambda>_.
           bind_res (if bi_round hcc > 0 then wli_verify L vv (si_highest_commit_cert si) else Inr ()) (\<lambda>_.
           case si_highest_2chain_timeout_cert si of None \<Rightarrow> Inr () | Some tc \<Rightarrow> tc_verify L vv tc)))))))))))))"

section \<open>Messages\<close>

definition pm_verify_well_formed :: "laptos \<Rightarrow> u64 \<Rightarrow> proposal_msg \<Rightarrow> string + unit" where
  "pm_verify_well_formed L now m =
     (let b = pm_proposal m; si = pm_sync_info m in
      ensure (\<not> bt_is_nil (bd_block_type (bk_block_data b))) ''Proposal for a NIL block''
      (bind_res (map_err (\<lambda>_. ''Fail to verify ProposalMsg's block'') (verify_well_formed L now b)) (\<lambda>_.
      ensure (bk_round b > 0) ''Proposal has an incorrect round of 0''
      (ensure (bk_epoch b = si_epoch si) ''ProposalMsg has different epoch number from SyncInfo''
      (ensure (bk_parent_id b = bi_id (certified_block (si_highest_quorum_cert si)))
        ''Proposal HQC in SyncInfo does not certify the block's parent''
      (bind_res (ok_or ''proposal round overflowed!'' (checked_sub (bk_round b) 1)) (\<lambda>previous_round.
      ensure (previous_round =
                max (bi_round (certified_block (bk_quorum_cert b))) (highest_timeout_round si))
        ''Proposal does not have a certified round''
      (ensure (bt_author (bd_block_type (bk_block_data b)) \<noteq> None) ''Proposal does not define an author''
      (Inr ())))))))))"

definition pm_verify ::
  "laptos \<Rightarrow> (signed_txn \<Rightarrow> bool) \<Rightarrow> u64 \<Rightarrow> validator_verifier \<Rightarrow> proposal_msg \<Rightarrow> bool \<Rightarrow> proof_cache \<Rightarrow>
   (string + unit) \<times> proof_cache" where
  "pm_verify L supported now vv m quorum_store_enabled cache =
     (let b = pm_proposal m;
          (r, cache') = (case bt_payload (bd_block_type (bk_block_data b)) of
                           None \<Rightarrow> (Inr (), cache)
                         | Some p \<Rightarrow> payload_verify L supported vv p cache quorum_store_enabled)
      in (bind_res r (\<lambda>_.
          bind_res (validate_signature L vv b) (\<lambda>_.
          bind_res (case si_highest_2chain_timeout_cert (pm_sync_info m) of
                      None \<Rightarrow> Inr () | Some tc \<Rightarrow> tc_verify L vv tc) (\<lambda>_.
          pm_verify_well_formed L now m))), cache'))"

text \<open>\<open>proposer\<close>; \<open>None\<close> is the panic of its \<open>expect\<close>.\<close>

definition pm_proposer :: "proposal_msg \<Rightarrow> author option" where
  "pm_proposer m = bt_author (bd_block_type (bk_block_data (pm_proposal m)))"

definition vm_verify :: "laptos \<Rightarrow> validator_verifier \<Rightarrow> vote_msg \<Rightarrow> string + unit" where
  "vm_verify L vv m =
     (let v = vm_vote m; si = vm_sync_info m in
      ensure (v_epoch v = si_epoch si) ''VoteMsg has different epoch''
      (ensure (v_round v > highest_round si) ''Vote Round should be higher than SyncInfo''
      (ensure (case v_two_chain_timeout v of
                 None \<Rightarrow> True
               | Some (timeout, _) \<Rightarrow> tt_hqc_round timeout \<le> highest_certified_round si)
        ''2-chain Timeout hqc should be less or equal than the sync info hqc''
      (vote_verify L vv v))))"

definition verify_order_vote :: "laptos \<Rightarrow> validator_verifier \<Rightarrow> order_vote_msg \<Rightarrow> string + unit" where
  "verify_order_vote L vv m =
     ensure (certified_block (ovm_quorum_cert m) = li_commit_info (ov_ledger_info (ovm_order_vote m)))
       ''QuorumCert and OrderVote do not match''
     (map_err (\<lambda>_. ''[OrderVoteMsg] OrderVote verification failed'')
       (order_vote_verify L vv (ovm_order_vote m)))"

section \<open>Properties\<close>


definition ex_hoc :: wrapped_ledger_info where
  "ex_hoc = into_wrapped_ledger_info
     (ex_qc 1 0 0 0\<lparr>qc_signed_ledger_info :=
        \<lparr>lws_ledger_info = \<lparr>li_commit_info = block_info_new 1 0 1 5 0 0 None,
           li_consensus_data_hash = x_hash_vote_data example_laptos (ex_vote_data 1 0 0), li_block = None\<rparr>,
         lws_signatures = 0\<rparr>\<rparr>)"

definition ex_sync_info :: sync_info where
  "ex_sync_info = si_new (ex_qc 1 2 1 1) ex_hoc
     (Some \<lparr>tc_timeout = \<lparr>tt_epoch = 1, tt_round = 3, tt_quorum_cert = ex_qc 1 2 1 1\<rparr>,
            tc_signatures_with_rounds = \<lparr>asr_sig = 1, asr_rounds = [2]\<rparr>\<rparr>)"


text \<open>
  C11. A proposal message that is well formed proposes exactly for the round after the highest
  certificate it shows: the round after the parent's quorum certificate, or after the timeout
  certificate in its \<open>SyncInfo\<close>, whichever is later, in the parent's epoch. In particular every
  proposal that is accepted without a timeout certificate directly follows its parent.
\<close>

theorem proposal_round_justified:
  assumes "pm_verify_well_formed L now m = Inr ()"
  shows "unat (bk_round (pm_proposal m)) =
       max (unat (bi_round (certified_block (bk_quorum_cert (pm_proposal m)))))
           (unat (highest_timeout_round (pm_sync_info m))) + 1 \<and>
     bi_epoch (certified_block (bk_quorum_cert (pm_proposal m))) = bk_epoch (pm_proposal m) \<and>
     bk_epoch (pm_proposal m) = si_epoch (pm_sync_info m) \<and>
     bk_parent_id (pm_proposal m) = bi_id (certified_block (si_highest_quorum_cert (pm_sync_info m))) \<and>
     pm_proposer m \<noteq> None"
proof -
  let ?b = "pm_proposal m"
  from assms have w: "verify_well_formed L now ?b = Inr ()" and pos: "0 < bk_round ?b"
    and s: "checked_sub (bk_round ?b) 1 = Some (max (bi_round (certified_block (bk_quorum_cert ?b)))
              (highest_timeout_round (pm_sync_info m)))"
    by (auto simp: pm_verify_well_formed_def Let_def)
  have "unat (max a c) = max (unat a) (unat c)" for a c :: u64
    by (simp add: max_def word_le_nat_alt)
  then have "unat (bk_round ?b) = max (unat (bi_round (certified_block (bk_quorum_cert ?b))))
      (unat (highest_timeout_round (pm_sync_info m))) + 1"
    using checked_sub_Some [OF s] by (simp add: word_le_nat_alt)
  then show ?thesis
    using assms verify_well_formedD(2) [OF w] by (auto simp: pm_verify_well_formed_def Let_def pm_proposer_def)
qed

definition ex_proposal_msg :: proposal_msg where
  "ex_proposal_msg =
     \<lparr>pm_proposal = block_of_data example_laptos
        (bd_new_proposal (DirectMempool [7]) 0 [] 4 9 (ex_qc 1 2 1 1)) (Some 1),
      pm_sync_info = ex_sync_info\<rparr>"

theorem proposal_round_justified_witness:
  "pm_verify_well_formed example_laptos 10 ex_proposal_msg = Inr () \<and>
   unat (bk_round (pm_proposal ex_proposal_msg)) = max 2 3 + 1"
proof -
  have v: "pm_verify_well_formed example_laptos 10 ex_proposal_msg = Inr ()"
    by (simp add: pm_verify_well_formed_def ex_proposal_msg_def Let_def verify_well_formed_def
        verify_failed_authors_def verify_timestamp_def block_of_data_def bd_new_proposal_def
        block_accessor_defs bd_parent_id_def ex_defs certified_block_def checked_add_def checked_sub_def
        saturating_add_def TIMEBOUND_def qc_ends_epoch_def ex_sync_info_def si_new_def si_new_decoupled_def
        si_epoch_def highest_timeout_round_def tc_round_def)
  from proposal_round_justified [OF v] v show ?thesis
    by (simp add: ex_proposal_msg_def block_of_data_def bd_new_proposal_def block_accessor_defs)
qed

text \<open>
  A vote message that verifies is for a round above everything in the \<open>SyncInfo\<close> it
  carries, in the same epoch, and is consistent in itself: a timeout in it is for the vote's
  own epoch and round and its quorum certificate is older than that round, and the signed ledger
  info commits to the vote data.
\<close>

lemma vote_msg_verified:
  assumes "vm_verify L vv m = Inr ()"
  shows "v_epoch (vm_vote m) = si_epoch (vm_sync_info m) \<and>
     highest_certified_round (vm_sync_info m) < v_round (vm_vote m) \<and>
     highest_timeout_round (vm_sync_info m) < v_round (vm_vote m) \<and>
     li_consensus_data_hash (v_ledger_info (vm_vote m)) = x_hash_vote_data L (v_vote_data (vm_vote m)) \<and>
     bi_round (vd_parent (v_vote_data (vm_vote m))) < v_round (vm_vote m) \<and>
     (\<forall>t sig. v_two_chain_timeout (vm_vote m) = Some (t, sig) \<longrightarrow>
        tt_epoch t = v_epoch (vm_vote m) \<and> tt_round t = v_round (vm_vote m) \<and>
        tt_hqc_round t < tt_round t \<and> tt_hqc_round t \<le> highest_certified_round (vm_sync_info m))"
  using assms
  by (auto simp: vm_verify_def vote_verify_def Let_def highest_round_def v_round_def split: option.splits)

end
