(* ===== verification/Pending_Votes.thy ===== *)
theory Pending_Votes
  imports Certificates
begin

text \<open>
  The votes of a round (pending\_votes.rs with the aggregator of qc\_aggregator.rs) and the order
  votes of the last rounds (pending\_order\_votes.rs). \<open>insert_vote\<close> stores the first vote of an
  author, adds its signature to the ledger info it votes for, and forms a quorum certificate, a
  timeout certificate or an echoed timeout when enough voting power has come together. A panic
  (an assertion, or an arithmetic overflow) is the result \<open>None\<close>. Counters and logging are left
  out; the index of a ledger info, used only by them, is kept.
\<close>

section \<open>Votes\<close>

datatype vote_reception_result =
    VoteAdded u128
  | VoteAddedQCDelayed u128
  | DuplicateVote
  | EquivocateVote
  | NewQuorumCertificate quorum_cert
  | New2ChainTimeoutCertificate timeout_cert
  | ErrorAddingVote verify_error
  | ErrorAggregatingSignature verify_error
  | ErrorAggregatingTimeoutCertificate verify_error
  | UnexpectedRound u64 u64
  | EchoTimeout u128

record pending_votes =
  pv_li_digest_to_votes :: "(hash_value \<times> (nat \<times> li_verified)) list"
  pv_maybe_partial_2chain_tc :: "partial_tc option"
  pv_author_to_vote :: "(author \<times> (vote \<times> hash_value)) list"
  pv_echo_timeout :: bool

definition pv_new :: pending_votes where
  "pv_new = \<lparr>pv_li_digest_to_votes = [], pv_maybe_partial_2chain_tc = None, pv_author_to_vote = [],
             pv_echo_timeout = False\<rparr>"

definition aggregate_qc_now ::
  "laptos \<Rightarrow> validator_verifier \<Rightarrow> li_verified \<Rightarrow> vote_data \<Rightarrow> vote_reception_result" where
  "aggregate_qc_now L vv li_with_sig vote_data =
     (case x_lv_aggregate_signatures L vv li_with_sig of
        Inr ledger_info_with_sig \<Rightarrow>
          NewQuorumCertificate \<lparr>qc_vote_data = vote_data, qc_signed_ledger_info = ledger_info_with_sig\<rparr>
      | Inl e \<Rightarrow> ErrorAggregatingSignature e)"

text \<open>\<open>NoDelayQcAggregator::handle_aggregated_qc\<close>; its assertion panics.\<close>

definition handle_aggregated_qc ::
  "laptos \<Rightarrow> validator_verifier \<Rightarrow> u128 \<Rightarrow> vote \<Rightarrow> li_verified \<Rightarrow> vote_reception_result option" where
  "handle_aggregated_qc L vv aggregated_voting_power v li_with_sig =
     (if aggregated_voting_power \<ge> x_quorum_voting_power L vv
      then Some (aggregate_qc_now L vv li_with_sig (v_vote_data v)) else None)"

text \<open>\<open>total_voting_power() - quorum_voting_power() + 1\<close> in \<open>u128\<close>, \<open>None\<close> when it leaves the range.\<close>

definition f_plus_one :: "laptos \<Rightarrow> validator_verifier \<Rightarrow> u128 option" where
  "f_plus_one L vv =
     (let total = x_total_voting_power L vv; quorum = x_quorum_voting_power L vv in
      if quorum \<le> total \<and> total - quorum \<noteq> - 1 then Some (total - quorum + 1) else None)"

text \<open>Steps 4 and 5 of \<open>insert_vote\<close>.\<close>

definition insert_timeout ::
  "laptos \<Rightarrow> validator_verifier \<Rightarrow> vote \<Rightarrow> u128 \<Rightarrow> pending_votes \<Rightarrow>
   vote_reception_result option \<times> pending_votes" where
  "insert_timeout L vv v voting_power pv =
     (case v_two_chain_timeout v of
        None \<Rightarrow> (Some (VoteAdded voting_power), pv)
      | Some (timeout, signature) \<Rightarrow>
          let partial_tc0 = (case pv_maybe_partial_2chain_tc pv of None \<Rightarrow> ptc_new timeout | Some p \<Rightarrow> p);
              partial_tc = ptc_add (v_author v) timeout signature partial_tc0;
              pv = pv\<lparr>pv_maybe_partial_2chain_tc := Some partial_tc\<rparr>
          in (case x_check_voting_power L vv (ptc_signers partial_tc) True of
                Inr _ \<Rightarrow>
                  (case ptc_aggregate_signatures L vv partial_tc of
                     None \<Rightarrow> (None, pv)
                   | Some (Inr tc_with_sig) \<Rightarrow> (Some (New2ChainTimeoutCertificate tc_with_sig), pv)
                   | Some (Inl e) \<Rightarrow> (Some (ErrorAggregatingTimeoutCertificate e), pv))
              | Inl (TooLittleVotingPower tc_voting_power) \<Rightarrow>
                  if pv_echo_timeout pv then (Some (VoteAdded voting_power), pv)
                  else (case f_plus_one L vv of
                          None \<Rightarrow> (None, pv)
                        | Some f1 \<Rightarrow>
                            if tc_voting_power \<ge> f1
                            then (Some (EchoTimeout tc_voting_power), pv\<lparr>pv_echo_timeout := True\<rparr>)
                            else (Some (VoteAdded voting_power), pv))
              | Inl error \<Rightarrow> (Some (ErrorAddingVote error), pv)))"

text \<open>Steps 2 and 3.\<close>

definition store_vote ::
  "laptos \<Rightarrow> validator_verifier \<Rightarrow> vote \<Rightarrow> hash_value \<Rightarrow> pending_votes \<Rightarrow>
   vote_reception_result option \<times> pending_votes" where
  "store_vote L vv v li_digest pv =
     (let len = length (pv_li_digest_to_votes pv) + 1;
          (hash_index, li0) =
            (case map_of (pv_li_digest_to_votes pv) li_digest of
               None \<Rightarrow> (len, \<lparr>lv_ledger_info = v_ledger_info v, lv_signatures = []\<rparr>)
             | Some entry \<Rightarrow> entry);
          li_with_sig = li0\<lparr>lv_signatures :=
            x_add_signature L (v_author v) (v_signature v) (lv_signatures li0)\<rparr>;
          pv = pv\<lparr>pv_author_to_vote := al_insert (v_author v) (v, li_digest) (pv_author_to_vote pv),
                  pv_li_digest_to_votes :=
                    al_insert li_digest (hash_index, li_with_sig) (pv_li_digest_to_votes pv)\<rparr>
      in (case x_check_voting_power L vv (map fst (lv_signatures li_with_sig)) True of
            Inr aggregated_voting_power \<Rightarrow>
              (handle_aggregated_qc L vv aggregated_voting_power v li_with_sig, pv)
          | Inl (TooLittleVotingPower voting_power) \<Rightarrow> insert_timeout L vv v voting_power pv
          | Inl error \<Rightarrow> (Some (ErrorAddingVote error), pv)))"

definition insert_vote ::
  "laptos \<Rightarrow> validator_verifier \<Rightarrow> vote \<Rightarrow> pending_votes \<Rightarrow>
   vote_reception_result option \<times> pending_votes" where
  "insert_vote L vv v pv =
     (let li_digest = x_hash_ledger_info L (v_ledger_info v) in
      case map_of (pv_author_to_vote pv) (v_author v) of
        Some (previously_seen_vote, previous_li_digest) \<Rightarrow>
          if li_digest = previous_li_digest then
            if \<not> (is_timeout v \<and> \<not> is_timeout previously_seen_vote) then (Some DuplicateVote, pv)
            else store_vote L vv v li_digest pv
          else (Some EquivocateVote, pv)
      | None \<Rightarrow> store_vote L vv v li_digest pv)"

definition pv_process_delayed_qc ::
  "laptos \<Rightarrow> validator_verifier \<Rightarrow> vote \<Rightarrow> pending_votes \<Rightarrow> vote_reception_result" where
  "pv_process_delayed_qc L vv v pv =
     (case map_of (pv_li_digest_to_votes pv) (x_hash_ledger_info L (v_ledger_info v)) of
        Some (_, li_with_sig) \<Rightarrow>
          (case x_check_voting_power L vv (map fst (lv_signatures li_with_sig)) True of
             Inr _ \<Rightarrow> aggregate_qc_now L vv li_with_sig (v_vote_data v)
           | Inl (TooLittleVotingPower _) \<Rightarrow> ErrorAddingVote EmptySignature
           | Inl error \<Rightarrow> ErrorAddingVote error)
      | None \<Rightarrow> ErrorAddingVote EmptySignature)"

definition drain_votes ::
  "pending_votes \<Rightarrow> ((hash_value \<times> li_verified) list \<times> partial_tc option) \<times> pending_votes" where
  "drain_votes pv =
     ((map (\<lambda>(key, (_, li)). (key, li)) (pv_li_digest_to_votes pv), pv_maybe_partial_2chain_tc pv),
      pv\<lparr>pv_li_digest_to_votes := [], pv_maybe_partial_2chain_tc := None\<rparr>)"

section \<open>Order votes\<close>

datatype order_vote_reception_result =
    OrderVoteAdded u128
  | NewLedgerInfoWithSignatures li_with_sigs
  | ErrorAddingOrderVote verify_error
  | ErrorAggregatingOrderSignature verify_error
  | UnknownAuthor author

datatype order_vote_status = EnoughVotes li_with_sigs | NotEnoughVotes li_verified

type_synonym pending_order_votes = "(hash_value \<times> order_vote_status) list"

text \<open>\<open>None\<close> is the panic of the assertion on the aggregated voting power.\<close>

definition insert_order_vote ::
  "laptos \<Rightarrow> validator_verifier \<Rightarrow> order_vote \<Rightarrow> pending_order_votes \<Rightarrow>
   order_vote_reception_result option \<times> pending_order_votes" where
  "insert_order_vote L vv ov pov =
     (let li_digest = x_hash_ledger_info L (ov_ledger_info ov);
          status = (case map_of pov li_digest of
                      None \<Rightarrow> NotEnoughVotes \<lparr>lv_ledger_info = ov_ledger_info ov, lv_signatures = []\<rparr>
                    | Some st \<Rightarrow> st);
          pov = al_insert li_digest status pov
      in (case status of
            EnoughVotes li_with_sig \<Rightarrow> (Some (NewLedgerInfoWithSignatures li_with_sig), pov)
          | NotEnoughVotes li0 \<Rightarrow>
              (case x_get_voting_power L vv (ov_author ov) of
                 None \<Rightarrow> (Some (UnknownAuthor (ov_author ov)), pov)
               | Some _ \<Rightarrow>
                   let li_with_sig = li0\<lparr>lv_signatures :=
                         x_add_signature L (ov_author ov) (ov_signature ov) (lv_signatures li0)\<rparr>;
                       pov = al_insert li_digest (NotEnoughVotes li_with_sig) pov
                   in (case x_check_voting_power L vv (map fst (lv_signatures li_with_sig)) True of
                         Inr aggregated_voting_power \<Rightarrow>
                           if aggregated_voting_power \<ge> x_quorum_voting_power L vv then
                             (case x_lv_aggregate_signatures L vv li_with_sig of
                                Inr lws \<Rightarrow> (Some (NewLedgerInfoWithSignatures lws),
                                            al_insert li_digest (EnoughVotes lws) pov)
                              | Inl e \<Rightarrow> (Some (ErrorAggregatingOrderSignature e), pov))
                           else (None, pov)
                       | Inl (TooLittleVotingPower voting_power) \<Rightarrow> (Some (OrderVoteAdded voting_power), pov)
                       | Inl error \<Rightarrow> (Some (ErrorAddingOrderVote error), pov)))))"

definition order_vote_status_round :: "laptos \<Rightarrow> order_vote_status \<Rightarrow> round" where
  "order_vote_status_round L status =
     (case status of
        EnoughVotes li_with_sig \<Rightarrow> x_li_round L (lws_ledger_info li_with_sig)
      | NotEnoughVotes li_with_sig \<Rightarrow> x_li_round L (lv_ledger_info li_with_sig))"

definition pov_garbage_collect :: "laptos \<Rightarrow> u64 \<Rightarrow> pending_order_votes \<Rightarrow> pending_order_votes" where
  "pov_garbage_collect L highest_ordered_round pov =
     filter (\<lambda>(_, status). order_vote_status_round L status > highest_ordered_round) pov"

definition has_enough_order_votes :: "laptos \<Rightarrow> ledger_info \<Rightarrow> pending_order_votes \<Rightarrow> bool" where
  "has_enough_order_votes L ledger_info pov =
     (case map_of pov (x_hash_ledger_info L ledger_info) of
        Some (EnoughVotes _) \<Rightarrow> True
      | _ \<Rightarrow> False)"

section \<open>Invariant\<close>

text \<open>
  Of the votes: the stored vote of an author is recorded under its digest with its signature, and
  every signature of a ledger info belongs to an author whose stored vote is for it. Of the
  timeouts: each signer's stored vote has the timeout that was signed. \<open>P\<close> is any property of the
  votes that were inserted.
\<close>

definition pv_signatures :: "pending_votes \<Rightarrow> hash_value \<Rightarrow> author \<Rightarrow> signature option" where
  "pv_signatures pv d =
     (case map_of (pv_li_digest_to_votes pv) d of
        None \<Rightarrow> Map.empty
      | Some (_, lv) \<Rightarrow> map_of (lv_signatures lv))"

definition pv_votes_inv :: "laptos \<Rightarrow> (vote \<Rightarrow> bool) \<Rightarrow> pending_votes \<Rightarrow> bool" where
  "pv_votes_inv L P pv \<longleftrightarrow>
     (\<forall>a v d. map_of (pv_author_to_vote pv) a = Some (v, d) \<longrightarrow>
        P v \<and> v_author v = a \<and> d = x_hash_ledger_info L (v_ledger_info v)) \<and>
     (\<forall>d a. pv_signatures pv d a =
        (case map_of (pv_author_to_vote pv) a of
           None \<Rightarrow> None
         | Some (v, d') \<Rightarrow> if d' = d then Some (v_signature v) else None)) \<and>
     (\<forall>d i lv. map_of (pv_li_digest_to_votes pv) d = Some (i, lv) \<longrightarrow>
        (\<exists>v. P v \<and> lv_ledger_info lv = v_ledger_info v \<and> d = x_hash_ledger_info L (v_ledger_info v)))"

definition pv_timed_out :: "pending_votes \<Rightarrow> author \<Rightarrow> two_chain_timeout \<Rightarrow> signature \<Rightarrow> bool" where
  "pv_timed_out pv a t s \<longleftrightarrow>
     (\<exists>v d. map_of (pv_author_to_vote pv) a = Some (v, d) \<and> v_two_chain_timeout v = Some (t, s))"

definition pv_timeouts_inv :: "pending_votes \<Rightarrow> bool" where
  "pv_timeouts_inv pv \<longleftrightarrow>
     (\<forall>p. pv_maybe_partial_2chain_tc pv = Some p \<longrightarrow>
        ptc_inv p \<and> ptc_signatures p \<noteq> [] \<and> (\<exists>a s. pv_timed_out pv a (ptc_timeout p) s) \<and>
        (\<forall>a r s. (a, (r, s)) \<in> set (ptc_signatures p) \<longrightarrow>
           (\<exists>t. pv_timed_out pv a t s \<and> r = tt_hqc_round t)))"

definition pv_stored :: "laptos \<Rightarrow> vote \<Rightarrow> hash_value \<Rightarrow> pending_votes \<Rightarrow> pending_votes" where
  "pv_stored L v li_digest pv =
     (let (hash_index, li0) =
            (case map_of (pv_li_digest_to_votes pv) li_digest of
               None \<Rightarrow> (length (pv_li_digest_to_votes pv) + 1,
                        \<lparr>lv_ledger_info = v_ledger_info v, lv_signatures = []\<rparr>)
             | Some entry \<Rightarrow> entry)
      in pv\<lparr>pv_author_to_vote := al_insert (v_author v) (v, li_digest) (pv_author_to_vote pv),
            pv_li_digest_to_votes :=
              al_insert li_digest
                (hash_index, li0\<lparr>lv_signatures :=
                   x_add_signature L (v_author v) (v_signature v) (lv_signatures li0)\<rparr>)
                (pv_li_digest_to_votes pv)\<rparr>)"

lemma insert_timeout_keeps [simp]:
  "pv_author_to_vote (snd (insert_timeout L vv v p pv)) = pv_author_to_vote pv"
  "pv_li_digest_to_votes (snd (insert_timeout L vv v p pv)) = pv_li_digest_to_votes pv"
  by (simp_all add: insert_timeout_def Let_def split: option.split sum.split verify_error.split)

lemma insert_timeout_tc:
  "pv_maybe_partial_2chain_tc (snd (insert_timeout L vv v p pv)) =
     (case v_two_chain_timeout v of
        None \<Rightarrow> pv_maybe_partial_2chain_tc pv
      | Some (t, s) \<Rightarrow>
          Some (ptc_add (v_author v) t s
            (case pv_maybe_partial_2chain_tc pv of None \<Rightarrow> ptc_new t | Some q \<Rightarrow> q)))"
  by (simp add: insert_timeout_def Let_def split: option.split sum.split verify_error.split)

text \<open>The cases of \<open>insert_vote\<close>: refused, or stored, with or without the timeout step.\<close>

lemma store_vote_cases:
  "\<exists>i lv. map_of (pv_li_digest_to_votes (pv_stored L v d pv)) d = Some (i, lv) \<and>
     store_vote L vv v d pv =
       (case x_check_voting_power L vv (map fst (lv_signatures lv)) True of
          Inr pw \<Rightarrow> (handle_aggregated_qc L vv pw v lv, pv_stored L v d pv)
        | Inl (TooLittleVotingPower pw) \<Rightarrow> insert_timeout L vv v pw (pv_stored L v d pv)
        | Inl e \<Rightarrow> (Some (ErrorAddingVote e), pv_stored L v d pv))"
  by (auto simp: store_vote_def pv_stored_def Let_def split: option.split prod.split sum.split verify_error.split)

definition vote_refused :: "laptos \<Rightarrow> vote \<Rightarrow> pending_votes \<Rightarrow> bool" where
  "vote_refused L v pv \<longleftrightarrow>
     (\<exists>w d. map_of (pv_author_to_vote pv) (v_author v) = Some (w, d) \<and>
        (d \<noteq> x_hash_ledger_info L (v_ledger_info v) \<or> \<not> is_timeout v \<or> is_timeout w))"

lemma insert_vote_refused: "vote_refused L v pv \<Longrightarrow> snd (insert_vote L vv v pv) = pv"
  by (auto simp: insert_vote_def vote_refused_def Let_def)

lemma insert_vote_stored:
  "\<not> vote_refused L v pv \<Longrightarrow>
   insert_vote L vv v pv = store_vote L vv v (x_hash_ledger_info L (v_ledger_info v)) pv"
  by (auto simp: insert_vote_def vote_refused_def Let_def split: option.split)

lemma pv_stored_maps:
  assumes "partial_signatures_map L"
  shows "map_of (pv_author_to_vote (pv_stored L v d pv)) = (map_of (pv_author_to_vote pv))(v_author v \<mapsto> (v, d))"
    and "pv_signatures (pv_stored L v d pv) =
           (pv_signatures pv)(d := (pv_signatures pv d)(v_author v \<mapsto> v_signature v))"
    and "\<exists>i lv. map_of (pv_li_digest_to_votes (pv_stored L v d pv)) =
            (map_of (pv_li_digest_to_votes pv))(d \<mapsto> (i, lv)) \<and>
          (lv_ledger_info lv = v_ledger_info v \<or>
           (\<exists>li0. map_of (pv_li_digest_to_votes pv) d = Some (i, li0) \<and> lv_ledger_info lv = lv_ledger_info li0))"
  using assms
  by (auto simp: pv_stored_def pv_signatures_def partial_signatures_map_def fun_eq_iff split: option.split prod.split)

lemma pv_votes_inv_stored:
  assumes "partial_signatures_map L" and inv: "pv_votes_inv L P pv" and "P v"
    and ok: "\<not> vote_refused L v pv"
  shows "pv_votes_inv L P (pv_stored L v (x_hash_ledger_info L (v_ledger_info v)) pv)"
    (is "pv_votes_inv L P ?pv'")
proof -
  let ?d = "x_hash_ledger_info L (v_ledger_info v)"
  have same: "d = ?d" if "map_of (pv_author_to_vote pv) (v_author v) = Some (w, d)" for w d
    using ok that by (auto simp: vote_refused_def)
  show ?thesis
    unfolding pv_votes_inv_def
  proof (intro conjI)
    show "\<forall>a w d. map_of (pv_author_to_vote ?pv') a = Some (w, d) \<longrightarrow>
        P w \<and> v_author w = a \<and> d = x_hash_ledger_info L (v_ledger_info w)"
      using inv \<open>P v\<close> by (simp add: pv_stored_maps(1) [OF assms(1)] pv_votes_inv_def)
    show "\<forall>d a. pv_signatures ?pv' d a =
        (case map_of (pv_author_to_vote ?pv') a of
           None \<Rightarrow> None
         | Some (v, d') \<Rightarrow> if d' = d then Some (v_signature v) else None)"
      using inv same by (auto simp: pv_stored_maps(1,2) [OF assms(1)] pv_votes_inv_def split: option.split)
    show "\<forall>d i lv. map_of (pv_li_digest_to_votes ?pv') d = Some (i, lv) \<longrightarrow>
        (\<exists>v. P v \<and> lv_ledger_info lv = v_ledger_info v \<and> d = x_hash_ledger_info L (v_ledger_info v))"
    proof -
      have old: "\<exists>v. P v \<and> lv_ledger_info lv = v_ledger_info v \<and> d = x_hash_ledger_info L (v_ledger_info v)"
        if "map_of (pv_li_digest_to_votes pv) d = Some (i, lv)" for d i lv
        using inv that unfolding pv_votes_inv_def by blast
      obtain i lv where st: "map_of (pv_li_digest_to_votes ?pv') = (map_of (pv_li_digest_to_votes pv))(?d \<mapsto> (i, lv))"
        "lv_ledger_info lv = v_ledger_info v \<or>
          (\<exists>li0. map_of (pv_li_digest_to_votes pv) ?d = Some (i, li0) \<and> lv_ledger_info lv = lv_ledger_info li0)"
        using pv_stored_maps(3) [OF assms(1), of v ?d pv] by (elim exE conjE)
      have "\<exists>w. P w \<and> lv_ledger_info lv = v_ledger_info w \<and> ?d = x_hash_ledger_info L (v_ledger_info w)"
        using st(2) \<open>P v\<close> old by (elim disjE exE conjE) (auto, fastforce?)
      then show ?thesis using old by (simp add: st(1))
    qed
  qed
qed

lemma pv_timed_out_stored:
  "\<not> vote_refused L v pv \<Longrightarrow> pv_timed_out pv a t s \<Longrightarrow> pv_timed_out (pv_stored L v d pv) a t s"
  by (cases "v_author v = a")
    (auto simp: pv_timed_out_def vote_refused_def is_timeout_def pv_stored_def Let_def split: prod.split option.split)

lemma pv_timed_out_new:
  "v_two_chain_timeout v = Some (t, s) \<Longrightarrow> pv_timed_out (pv_stored L v d pv) (v_author v) t s"
  by (auto simp: pv_timed_out_def pv_stored_def Let_def split: prod.split option.split)

lemma pv_stored_tc [simp]:
  "pv_maybe_partial_2chain_tc (pv_stored L v d pv) = pv_maybe_partial_2chain_tc pv"
  by (simp add: pv_stored_def Let_def split: prod.split option.split)

lemma pv_timeouts_inv_stored:
  "pv_timeouts_inv pv \<Longrightarrow> \<not> vote_refused L v pv \<Longrightarrow> pv_timeouts_inv (pv_stored L v d pv)"
  unfolding pv_timeouts_inv_def by (simp, meson pv_timed_out_stored)

lemma pv_timeouts_invD:
  assumes "pv_timeouts_inv pv" "pv_maybe_partial_2chain_tc pv = Some p"
  shows "ptc_inv p" "ptc_signatures p \<noteq> []" "\<exists>a s. pv_timed_out pv a (ptc_timeout p) s"
    and "(a, (r, s)) \<in> set (ptc_signatures p) \<Longrightarrow> \<exists>t. pv_timed_out pv a t s \<and> r = tt_hqc_round t"
  using assms unfolding pv_timeouts_inv_def by (simp, simp, metis, metis)

lemma timeout_signer_fresh:
  assumes inv: "pv_timeouts_inv pv" and ok: "\<not> vote_refused L v pv" and "is_timeout v"
    and p: "pv_maybe_partial_2chain_tc pv = Some p"
  shows "v_author v \<notin> set (ptc_signers p)"
proof
  assume "v_author v \<in> set (ptc_signers p)"
  then obtain r s where "(v_author v, (r, s)) \<in> set (ptc_signatures p)" by (auto simp: ptc_signers_def)
  from pv_timeouts_invD(4) [OF inv p this] obtain t where "pv_timed_out pv (v_author v) t s" by blast
  with ok show False by (auto simp: vote_refused_def is_timeout_def pv_timed_out_def)
qed

lemma ptc_timeout_add: "ptc_timeout (ptc_add a t s p) \<in> {t, ptc_timeout p}"
  by (simp add: ptc_add_def Let_def)

lemma ptc_set_add:
  "set (ptc_signatures (ptc_add a t s p)) \<subseteq> insert (a, (tt_hqc_round t, s)) (set (ptc_signatures p))"
  by (cases "a \<in> fst ` set (ptc_signatures p)")
    (auto simp: bt_or_insert_fresh set_bt_insert_fresh bt_or_insert_def split: option.splits dest: map_of_eq_None_iff [THEN iffD1])

lemma bt_or_insert_nonempty [simp]: "bt_or_insert k v xs \<noteq> []"
proof
  assume "bt_or_insert k v xs = []"
  with keys_bt_or_insert [of k v xs] show False by simp
qed

text \<open>The timeout step, on the state that has stored the vote.\<close>

lemma pv_timeouts_inv_timeout:
  assumes inv: "pv_timeouts_inv pv" and ok: "\<not> vote_refused L v pv"
  shows "pv_timeouts_inv (snd (insert_timeout L vv v pw (pv_stored L v d pv)))"
proof (cases "v_two_chain_timeout v")
  case None
  then show ?thesis using pv_timeouts_inv_stored [OF assms] by (simp add: insert_timeout_def)
next
  case (Some ts)
  then obtain t s where ts: "v_two_chain_timeout v = Some (t, s)" by (cases ts) auto
  let ?pv = "pv_stored L v d pv" and ?pv' = "snd (insert_timeout L vv v pw (pv_stored L v d pv))"
  define p0 where "p0 = (case pv_maybe_partial_2chain_tc pv of None \<Rightarrow> ptc_new t | Some q \<Rightarrow> q)"
  have tc: "pv_maybe_partial_2chain_tc ?pv' = Some (ptc_add (v_author v) t s p0)"
    by (simp add: insert_timeout_tc ts p0_def)
  have to: "pv_timed_out ?pv' = pv_timed_out ?pv" by (intro ext) (simp add: pv_timed_out_def)
  have new: "pv_timed_out ?pv' (v_author v) t s" by (simp add: to pv_timed_out_new [OF ts])
  have i: "pv_timeouts_inv ?pv" by (rule pv_timeouts_inv_stored [OF assms])
  have "ptc_inv (ptc_add (v_author v) t s p0)"
  proof (cases "pv_maybe_partial_2chain_tc pv")
    case None
    then show ?thesis by (simp add: p0_def ptc_inv_first)
  next
    case (Some p)
    moreover have "v_author v \<notin> set (ptc_signers p)"
      by (rule timeout_signer_fresh [OF assms _ Some]) (simp add: is_timeout_def ts)
    ultimately show ?thesis using inv by (auto simp: p0_def pv_timeouts_inv_def intro!: ptc_inv_add)
  qed
  moreover have "\<exists>a s'. pv_timed_out ?pv' a (ptc_timeout (ptc_add (v_author v) t s p0)) s'"
  proof (cases "ptc_timeout (ptc_add (v_author v) t s p0) = t")
    case True
    then show ?thesis using new by auto
  next
    case False
    then have "ptc_timeout (ptc_add (v_author v) t s p0) = ptc_timeout p0" "ptc_timeout p0 \<noteq> t"
      using ptc_timeout_add [of "v_author v" t s p0] by auto
    then show ?thesis
      using pv_timeouts_invD(3) [OF i] by (auto simp: p0_def to ptc_new_def split: option.splits)
  qed
  moreover have "\<exists>t'. pv_timed_out ?pv' a t' s' \<and> r = tt_hqc_round t'"
    if "(a, (r, s')) \<in> set (ptc_signatures (ptc_add (v_author v) t s p0))" for a r s'
  proof (cases "(a, (r, s')) = (v_author v, (tt_hqc_round t, s))")
    case True
    then show ?thesis using new by blast
  next
    case False
    then have "(a, (r, s')) \<in> set (ptc_signatures p0)" using subsetD [OF ptc_set_add that] by blast
    then show ?thesis
      using pv_timeouts_invD(4) [OF i] by (auto simp: p0_def to ptc_new_def split: option.splits)
  qed
  ultimately show ?thesis by (simp add: pv_timeouts_inv_def tc)
qed

definition pv_inv :: "laptos \<Rightarrow> (vote \<Rightarrow> bool) \<Rightarrow> pending_votes \<Rightarrow> bool" where
  "pv_inv L P pv \<longleftrightarrow> pv_votes_inv L P pv \<and> pv_timeouts_inv pv"

lemma pv_votes_inv_cong:
  "pv_author_to_vote pv' = pv_author_to_vote pv \<Longrightarrow> pv_li_digest_to_votes pv' = pv_li_digest_to_votes pv \<Longrightarrow>
   pv_votes_inv L P pv' = pv_votes_inv L P pv"
  by (simp add: pv_votes_inv_def pv_signatures_def)

lemma snd_store_vote:
  "snd (store_vote L vv v d pv) = pv_stored L v d pv \<or>
   (\<exists>pw. snd (store_vote L vv v d pv) = snd (insert_timeout L vv v pw (pv_stored L v d pv)))"
  using store_vote_cases [of L v d pv vv] by (elim exE conjE) (simp split: sum.split verify_error.split, blast?)

lemma pv_inv_insert:
  assumes "partial_signatures_map L" "pv_inv L P pv" "P v"
  shows "pv_inv L P (snd (insert_vote L vv v pv))"
proof (cases "vote_refused L v pv")
  case True
  with assms show ?thesis by (simp add: insert_vote_refused)
next
  case False
  let ?d = "x_hash_ledger_info L (v_ledger_info v)"
  have "pv_votes_inv L P (snd (store_vote L vv v ?d pv))"
    using snd_store_vote [of L vv v ?d pv] pv_votes_inv_stored [where P = P, OF assms(1) _ assms(3) False] assms(2)
      pv_votes_inv_cong [of "snd (store_vote L vv v ?d pv)" "pv_stored L v ?d pv" L P]
    by (auto simp: pv_inv_def)
  moreover have "pv_timeouts_inv (snd (store_vote L vv v ?d pv))"
    using snd_store_vote [of L vv v ?d pv] assms(2) False
    by (auto simp: pv_inv_def intro: pv_timeouts_inv_stored pv_timeouts_inv_timeout)
  ultimately show ?thesis by (simp add: insert_vote_stored [OF False] pv_inv_def)
qed

definition pv_run :: "laptos \<Rightarrow> validator_verifier \<Rightarrow> vote list \<Rightarrow> pending_votes" where
  "pv_run L vv votes = run_ops (\<lambda>pv v. snd (insert_vote L vv v pv)) pv_new votes"

lemma pv_inv_new: "pv_inv L P pv_new"
  by (simp add: pv_inv_def pv_votes_inv_def pv_timeouts_inv_def pv_new_def pv_signatures_def)

lemma pv_run_snoc: "pv_run L vv (votes @ [v]) = snd (insert_vote L vv v (pv_run L vv votes))"
  by (simp add: pv_run_def run_ops_append)

lemma pv_inv_run:
  assumes "partial_signatures_map L" "\<forall>v \<in> set votes. P v"
  shows "pv_inv L P (pv_run L vv votes)"
  using assms(2)
proof (induction votes rule: rev_induct)
  case Nil
  show ?case by (simp add: pv_run_def pv_inv_new)
next
  case (snoc v votes)
  then show ?case by (simp add: pv_run_snoc pv_inv_insert [OF assms(1)])
qed

section \<open>What is formed\<close>

lemma insert_timeout_result:
  "fst (insert_timeout L vv v pw pv) \<noteq> Some (NewQuorumCertificate qc)"
  by (simp add: insert_timeout_def Let_def split: option.split sum.split verify_error.split prod.split)

lemma insert_vote_not_refused:
  "fst (insert_vote L vv v pv) \<notin> {Some DuplicateVote, Some EquivocateVote} \<Longrightarrow> \<not> vote_refused L v pv"
  by (auto simp: insert_vote_def vote_refused_def Let_def split: if_splits)

lemma new_qc_aggregated:
  assumes "fst (insert_vote L vv v pv) = Some (NewQuorumCertificate qc)"
  defines "d \<equiv> x_hash_ledger_info L (v_ledger_info v)"
  shows "\<not> vote_refused L v pv \<and>
     (\<exists>i lv. map_of (pv_li_digest_to_votes (pv_stored L v d pv)) d = Some (i, lv) \<and>
        is_ok (x_check_voting_power L vv (map fst (lv_signatures lv)) True) \<and>
        x_lv_aggregate_signatures L vv lv = Inr (qc_signed_ledger_info qc) \<and> qc_vote_data qc = v_vote_data v)"
proof -
  have ok: "\<not> vote_refused L v pv" using assms(1) by (intro insert_vote_not_refused [of L vv]) simp
  obtain i lv where lv: "map_of (pv_li_digest_to_votes (pv_stored L v d pv)) d = Some (i, lv)"
    and st: "store_vote L vv v d pv =
       (case x_check_voting_power L vv (map fst (lv_signatures lv)) True of
          Inr pw \<Rightarrow> (handle_aggregated_qc L vv pw v lv, pv_stored L v d pv)
        | Inl (TooLittleVotingPower pw) \<Rightarrow> insert_timeout L vv v pw (pv_stored L v d pv)
        | Inl e \<Rightarrow> (Some (ErrorAddingVote e), pv_stored L v d pv))"
    using store_vote_cases [of L v d pv vv] by (elim exE conjE)
  have "fst (store_vote L vv v d pv) = Some (NewQuorumCertificate qc)"
    using assms(1) by (simp add: insert_vote_stored [OF ok] d_def)
  then have "is_ok (x_check_voting_power L vv (map fst (lv_signatures lv)) True) \<and>
      x_lv_aggregate_signatures L vv lv = Inr (qc_signed_ledger_info qc) \<and> qc_vote_data qc = v_vote_data v"
    unfolding st
    by (auto simp: insert_timeout_result handle_aggregated_qc_def aggregate_qc_now_def
        split: sum.splits verify_error.splits if_splits)
  with ok lv show ?thesis by blast
qed

lemma stored_signers:
  assumes "pv_votes_inv L P pv" "map_of (pv_li_digest_to_votes pv) d = Some (i, lv)"
    "map_of (lv_signatures lv) a = Some s"
  shows "\<exists>w. P w \<and> v_author w = a \<and> d = x_hash_ledger_info L (v_ledger_info w) \<and> v_signature w = s"
proof -
  have "pv_signatures pv d a = Some s" using assms(2,3) by (simp add: pv_signatures_def)
  moreover have "pv_signatures pv d a = (case map_of (pv_author_to_vote pv) a of
           None \<Rightarrow> None | Some (v, d') \<Rightarrow> if d' = d then Some (v_signature v) else None)"
    using assms(1) by (simp add: pv_votes_inv_def)
  ultimately obtain w where "map_of (pv_author_to_vote pv) a = Some (w, d)" "v_signature w = s"
    by (auto split: option.splits prod.splits if_splits)
  with assms(1) show ?thesis unfolding pv_votes_inv_def by blast
qed

lemma stored_ledger_info:
  assumes "pv_votes_inv L P pv" "map_of (pv_li_digest_to_votes pv) d = Some (i, lv)"
  shows "\<exists>w. P w \<and> lv_ledger_info lv = v_ledger_info w \<and> d = x_hash_ledger_info L (v_ledger_info w)"
  using assms by (simp add: pv_votes_inv_def)

text \<open>No two different ledger infos among the votes have the same digest.\<close>

definition no_li_collision :: "laptos \<Rightarrow> vote set \<Rightarrow> bool" where
  "no_li_collision L V \<longleftrightarrow>
     inj_on (x_hash_ledger_info L) (v_ledger_info ` V)"

text \<open>
  C14. A quorum certificate that \<open>insert_vote\<close> forms is one that every validator accepts: if all
  votes that were inserted had passed \<open>Vote::verify\<close>, the certificate passes \<open>QuorumCert::verify\<close>.
  It certifies the block of the vote that completed it, and its signatures come from authors
  with a quorum of voting power, each of whom sent a vote for that same ledger info.
\<close>

theorem formed_qc_verifies:
  assumes lib: "partial_signatures_map L" "aggregation_spec L vv"
    and verified: "\<forall>w \<in> set (v # votes). vote_verify L vv w = Inr ()"
    and coll: "no_li_collision L (set (v # votes))"
    and qc: "fst (insert_vote L vv v (pv_run L vv votes)) = Some (NewQuorumCertificate qc)"
  shows "qc_verify L vv qc = Inr () \<and>
     qc_vote_data qc = v_vote_data v \<and> lws_ledger_info (qc_signed_ledger_info qc) = v_ledger_info v \<and>
     (\<exists>authors. is_ok (x_check_voting_power L vv authors True) \<and>
        (\<forall>a \<in> set authors. \<exists>w \<in> set (v # votes). v_author w = a \<and> v_ledger_info w = v_ledger_info v))"
proof -
  define P where "P = (\<lambda>w. w \<in> set (v # votes))"
  let ?d = "x_hash_ledger_info L (v_ledger_info v)"
  have Pv: "P v" by (simp add: P_def)
  have inv0: "pv_votes_inv L P (pv_run L vv votes)"
    using pv_inv_run [OF lib(1), of votes P vv] by (simp add: P_def pv_inv_def)
  obtain i lv where ok: "\<not> vote_refused L v (pv_run L vv votes)"
    and lv: "map_of (pv_li_digest_to_votes (pv_stored L v ?d (pv_run L vv votes))) ?d = Some (i, lv)"
    and pw: "is_ok (x_check_voting_power L vv (map fst (lv_signatures lv)) True)"
    and agg: "x_lv_aggregate_signatures L vv lv = Inr (qc_signed_ledger_info qc)"
    and vd: "qc_vote_data qc = v_vote_data v"
    using new_qc_aggregated [OF qc] by (elim exE conjE)
  have inv: "pv_votes_inv L P (pv_stored L v ?d (pv_run L vv votes))"
    by (rule pv_votes_inv_stored [OF lib(1) inv0 Pv ok])
  have same: "v_ledger_info w = v_ledger_info v" if "P w" "?d = x_hash_ledger_info L (v_ledger_info w)" for w
    by (rule inj_onD [OF coll [unfolded no_li_collision_def] that(2) [symmetric]])
      (use that(1) Pv in \<open>simp_all only: P_def imageI\<close>)
  have li: "lv_ledger_info lv = v_ledger_info v"
    using stored_ledger_info [OF inv lv] by (elim exE conjE) (drule (1) same, simp)
  have sigs: "\<exists>w. P w \<and> v_author w = a \<and> v_ledger_info w = v_ledger_info v \<and> v_signature w = s"
    if "map_of (lv_signatures lv) a = Some s" for a s
  proof -
    from stored_signers [OF inv lv that] obtain w where w: "P w" "v_author w = a"
      "?d = x_hash_ledger_info L (v_ledger_info w)" "v_signature w = s" by (elim exE conjE)
    from same [OF w(1,3)] w show ?thesis by (intro exI [of _ w]) simp
  qed
  have "x_verify L vv a (MsgLedgerInfo (lv_ledger_info lv)) s" if "map_of (lv_signatures lv) a = Some s" for a s
  proof -
    from sigs [OF that] obtain w where w: "P w" "v_author w = a" "v_ledger_info w = v_ledger_info v" "v_signature w = s"
      by (elim exE conjE)
    then have "vote_verify L vv w = Inr ()" using verified unfolding P_def by blast
    with w show ?thesis by (auto simp: vote_verify_def li)
  qed
  then have sig: "lws_ledger_info (qc_signed_ledger_info qc) = v_ledger_info v"
      "x_verify_signatures L vv (qc_signed_ledger_info qc)"
    using lib(2) agg pw by (simp_all add: aggregation_spec_def li)
  have "vote_verify L vv v = Inr ()" using verified by simp
  then have "qc_verify L vv qc = Inr ()"
    using sig vd by (auto simp: qc_verify_def vote_verify_def vd_verify_def certified_block_def)
  moreover have "\<exists>w \<in> set (v # votes). v_author w = a \<and> v_ledger_info w = v_ledger_info v"
    if a: "a \<in> set (map fst (lv_signatures lv))" for a
  proof -
    obtain s where "map_of (lv_signatures lv) a = Some s"
      using a by (auto dest!: weak_map_of_SomeI)
    from sigs [OF this] show ?thesis unfolding P_def by (elim exE conjE) (rule bexI [rotated], assumption, simp)
  qed
  ultimately show ?thesis using pw sig(1) vd by (intro conjI exI [of _ "map fst (lv_signatures lv)"] ballI)
qed

definition first_votes :: "pending_votes \<Rightarrow> author \<Rightarrow> hash_value option" where
  "first_votes pv a = map_option snd (map_of (pv_author_to_vote pv) a)"

definition first_votes_step ::
  "laptos \<Rightarrow> (author \<Rightarrow> hash_value option) \<Rightarrow> vote \<Rightarrow> author \<Rightarrow> hash_value option" where
  "first_votes_step L m v =
     (if m (v_author v) = None then m(v_author v \<mapsto> x_hash_ledger_info L (v_ledger_info v)) else m)"

lemma insert_vote_authors:
  "pv_author_to_vote (snd (insert_vote L vv v pv)) =
     (if vote_refused L v pv then pv_author_to_vote pv
      else al_insert (v_author v) (v, x_hash_ledger_info L (v_ledger_info v)) (pv_author_to_vote pv))"
proof (cases "vote_refused L v pv")
  case True
  then show ?thesis by (simp add: insert_vote_refused)
next
  case False
  let ?d = "x_hash_ledger_info L (v_ledger_info v)"
  have "pv_author_to_vote (pv_stored L v ?d pv) = al_insert (v_author v) (v, ?d) (pv_author_to_vote pv)"
    by (simp add: pv_stored_def Let_def split: prod.split option.split)
  with snd_store_vote [of L vv v ?d pv] show ?thesis by (auto simp: insert_vote_stored [OF False] False)
qed

lemma first_votes_insert: "first_votes (snd (insert_vote L vv v pv)) = first_votes_step L (first_votes pv) v"
  by (auto simp: first_votes_def first_votes_step_def insert_vote_authors vote_refused_def fun_eq_iff)

text \<open>
  C15. The first vote of an author in a round is the only one that counts. Abstractly the
  structure is a map from authors to the digest of their first vote; \<open>insert_vote\<close> refines the
  update of this map that ignores every later vote, and the signers of a ledger info are exactly
  the authors the map sends to it, so no author is counted for two ledger infos.
\<close>

theorem votes_refine_first_vote:
  assumes "partial_signatures_map L"
  shows "first_votes (pv_run L vv votes) = foldl (first_votes_step L) Map.empty votes \<and>
     (\<forall>d. {a. pv_signatures (pv_run L vv votes) d a \<noteq> None} = {a. first_votes (pv_run L vv votes) a = Some d})"
proof (intro conjI allI)
  show "first_votes (pv_run L vv votes) = foldl (first_votes_step L) Map.empty votes"
  proof (induction votes rule: rev_induct)
    case Nil
    show ?case by (simp add: pv_run_def pv_new_def first_votes_def fun_eq_iff)
  next
    case (snoc v votes)
    then show ?case by (simp add: pv_run_snoc first_votes_insert)
  qed
  fix d
  have "pv_votes_inv L (\<lambda>_. True) (pv_run L vv votes)"
    using pv_inv_run [OF assms, of votes "\<lambda>_. True"] by (simp add: pv_inv_def)
  then show "{a. pv_signatures (pv_run L vv votes) d a \<noteq> None} = {a. first_votes (pv_run L vv votes) a = Some d}"
    by (auto simp: pv_votes_inv_def first_votes_def split: option.splits prod.splits if_splits)
qed


text \<open>The certificate of a timeout.\<close>

lemma new_tc_aggregated:
  assumes "fst (insert_vote L vv v pv) = Some (New2ChainTimeoutCertificate tc)"
  shows "\<exists>p. pv_maybe_partial_2chain_tc (snd (insert_vote L vv v pv)) = Some p \<and>
     is_ok (x_check_voting_power L vv (ptc_signers p) True) \<and>
     ptc_aggregate_signatures L vv p = Some (Inr tc)"
proof -
  let ?d = "x_hash_ledger_info L (v_ledger_info v)"
  have ok: "\<not> vote_refused L v pv" using assms by (intro insert_vote_not_refused [of L vv]) simp
  have "fst (store_vote L vv v ?d pv) = Some (New2ChainTimeoutCertificate tc)"
    using assms by (simp add: insert_vote_stored [OF ok])
  then obtain pw where st: "store_vote L vv v ?d pv = insert_timeout L vv v pw (pv_stored L v ?d pv)"
    using store_vote_cases [of L v ?d pv vv]
    by (elim exE conjE) (auto simp: handle_aggregated_qc_def aggregate_qc_now_def
        split: sum.splits verify_error.splits if_splits)
  have *: "fst (insert_timeout L vv v pw (pv_stored L v ?d pv)) = Some (New2ChainTimeoutCertificate tc)"
    using assms by (simp add: insert_vote_stored [OF ok] st)
  show ?thesis
    using * by (auto simp: insert_vote_stored [OF ok] st insert_timeout_def Let_def
        split: option.splits sum.splits verify_error.splits prod.splits if_splits)
qed

text \<open>The echoed timeout.\<close>

lemma insert_timeout_echo:
  "pv_echo_timeout pv \<longrightarrow> pv_echo_timeout (snd (insert_timeout L vv v p pv)) \<and>
     fst (insert_timeout L vv v p pv) \<noteq> Some (EchoTimeout q)"
  "fst (insert_timeout L vv v p pv) = Some (EchoTimeout q) \<longrightarrow> pv_echo_timeout (snd (insert_timeout L vv v p pv))"
  by (simp_all add: insert_timeout_def Let_def split: option.split sum.split verify_error.split prod.split)

lemma pv_stored_echo [simp]: "pv_echo_timeout (pv_stored L v d pv) = pv_echo_timeout pv"
  by (simp add: pv_stored_def Let_def split: prod.split option.split)

lemma handle_aggregated_qc_no_echo [simp]: "handle_aggregated_qc L vv p v lv \<noteq> Some (EchoTimeout q)"
  by (simp add: handle_aggregated_qc_def aggregate_qc_now_def split: sum.split)

lemma store_vote_echo:
  "pv_echo_timeout pv \<Longrightarrow> pv_echo_timeout (snd (store_vote L vv v d pv)) \<and>
     fst (store_vote L vv v d pv) \<noteq> Some (EchoTimeout q)"
  "fst (store_vote L vv v d pv) = Some (EchoTimeout q) \<Longrightarrow> pv_echo_timeout (snd (store_vote L vv v d pv))"
  using store_vote_cases [of L v d pv vv]
  by (elim exE conjE, simp add: insert_timeout_echo split: sum.splits verify_error.splits)+

lemma insert_vote_echo:
  "pv_echo_timeout pv \<Longrightarrow> pv_echo_timeout (snd (insert_vote L vv v pv)) \<and>
     fst (insert_vote L vv v pv) \<noteq> Some (EchoTimeout q)"
  "fst (insert_vote L vv v pv) = Some (EchoTimeout q) \<Longrightarrow> pv_echo_timeout (snd (insert_vote L vv v pv))"
  by (simp_all add: insert_vote_def store_vote_echo Let_def split: option.splits prod.splits if_splits)

text \<open>
  C18. A round echoes a timeout at most once: after \<open>insert_vote\<close> has asked for an echo, no
  later vote of the round makes it ask again.
\<close>

theorem echo_at_most_once:
  assumes "fst (insert_vote L vv v (pv_run L vv votes)) = Some (EchoTimeout p)"
  shows "fst (insert_vote L vv w (pv_run L vv (votes @ v # later))) \<noteq> Some (EchoTimeout q)"
proof -
  have "pv_echo_timeout (pv_run L vv ((votes @ [v]) @ later))"
  proof (induction later rule: rev_induct)
    case Nil
    show ?case using insert_vote_echo(2) [OF assms] by (simp add: pv_run_snoc)
  next
    case (snoc u us)
    then show ?case using insert_vote_echo(1) pv_run_snoc [of L vv "votes @ [v] @ us" u] by simp
  qed
  then show ?thesis using insert_vote_echo(1) by simp
qed


text \<open>
  \<open>ValidatorVerifier\<close> gives every address of the set its own index, and \<open>aggregate_signatures\<close>
  sets one bit per signer.
\<close>

definition validator_index_spec :: "laptos \<Rightarrow> validator_verifier \<Rightarrow> bool" where
  "validator_index_spec L vv \<longleftrightarrow>
     inj_on (x_address_to_validator_index L vv) {a. x_address_to_validator_index L vv a \<noteq> None} \<and>
     (\<forall>sigs agg. x_aggregate_signatures L vv sigs = Inr agg \<longrightarrow>
        x_get_num_voters L agg = card (fst ` set sigs))"

lemma partial_sig_counts:
  assumes "partial_signatures_map L" "inj_on idx (fst ` set sigs)" "\<forall>a \<in> fst ` set sigs. idx a \<noteq> None"
    and "distinct (map fst sigs)" "\<forall>i \<in> fst ` set m. Some i \<notin> idx ` fst ` set sigs"
  shows "length (snd (partial_sig_with_rounds L idx sigs (ps, m))) = length m + length sigs \<and>
     fst ` set (fst (partial_sig_with_rounds L idx sigs (ps, m))) = fst ` set ps \<union> fst ` set sigs"
  using assms
proof (induction L idx sigs "(ps, m)" arbitrary: ps m rule: partial_sig_with_rounds.induct)
  case (2 L idx a r s rest ps m)
  then obtain i where i: "idx a = Some i" by auto
  have fresh: "i \<notin> fst ` set m" using "2.prems"(5) i by force
  have len: "length (bt_insert i r m) = Suc (length m)"
    using fresh by (induction i r m rule: bt_insert.induct) auto
  have other: "idx b \<noteq> Some i" if "b \<in> fst ` set rest" for b
  proof
    assume "idx b = Some i"
    then have "b = a" using inj_onD [OF "2.prems"(2), of b a] i that by simp
    with "2.prems"(4) that show False by simp
  qed
  have "length (snd (partial_sig_with_rounds L idx rest (x_add_signature L a s ps, bt_insert i r m))) =
       length (bt_insert i r m) + length rest \<and>
     fst ` set (fst (partial_sig_with_rounds L idx rest (x_add_signature L a s ps, bt_insert i r m))) =
       fst ` set (x_add_signature L a s ps) \<union> fst ` set rest"
  proof (rule "2.hyps"(2) [OF i "2.prems"(1)])
    show "inj_on idx (fst ` set rest)" using "2.prems"(2) by simp
    show "\<forall>a \<in> fst ` set rest. idx a \<noteq> None" using "2.prems"(3) by simp
    show "distinct (map fst rest)" using "2.prems"(4) by simp
    show "\<forall>j \<in> fst ` set (bt_insert i r m). Some j \<notin> idx ` fst ` set rest"
      using "2.prems"(5) other by (simp add: image_iff) metis
  qed
  then show ?case using i len partial_signatures_keys [OF "2.prems"(1)] by simp
qed simp

text \<open>Signers of a partial certificate that pass \<open>check_voting_power\<close> all have an index.\<close>

lemma ptc_indices:
  assumes "check_voting_power_spec L vv" "validator_index_spec L vv" "ptc_inv p"
    and "is_ok (x_check_voting_power L vv (ptc_signers p) True)"
  defines "idx \<equiv> x_address_to_validator_index L vv"
  shows "inj_on idx (fst ` set (ptc_signatures p)) \<and> (\<forall>a \<in> fst ` set (ptc_signatures p). idx a \<noteq> None) \<and>
     distinct (map fst (ptc_signatures p))"
proof -
  have *: "idx a \<noteq> None" if "a \<in> fst ` set (ptc_signatures p)" for a
  proof
    assume "idx a = None"
    then have "x_check_voting_power L vv (ptc_signers p) True = Inl UnknownAuthorError"
      using that
      by (intro assms(1) [unfolded check_voting_power_spec_def, THEN conjunct2, rule_format])
        (auto simp: ptc_signers_def idx_def)
    with assms(4) show False by simp
  qed
  moreover have "distinct (map fst (ptc_signatures p))"
    using assms(3) strict_sorted_iff by (auto simp: ptc_inv_def)
  moreover have "inj_on idx (fst ` set (ptc_signatures p))"
    by (rule inj_on_subset [of _ "{a. idx a \<noteq> None}"])
      (use assms(2) * in \<open>auto simp: validator_index_spec_def idx_def\<close>)
  ultimately show ?thesis by blast
qed

text \<open>
  C16. A timeout certificate that \<open>insert_vote\<close> forms out of verified votes passes the checks
  of \<open>TwoChainTimeoutCertificate::verify\<close> that concern its rounds: its timeout verifies, there is
  a signed round, the timeout's quorum certificate has the highest of the signed rounds, and
  every signed round is that of a timeout which one of the votes carried.
\<close>

theorem formed_tc_consistent:
  assumes lib: "partial_signatures_map L" "check_voting_power_spec L vv" "validator_index_spec L vv"
    and verified: "\<forall>w \<in> set (v # votes). vote_verify L vv w = Inr ()"
    and tc: "fst (insert_vote L vv v (pv_run L vv votes)) = Some (New2ChainTimeoutCertificate tc)"
  shows "tt_verify L vv (tc_timeout tc) = Inr () \<and>
     asr_rounds (tc_signatures_with_rounds tc) \<noteq> [] \<and>
     tc_highest_hqc_round tc = Max (set (asr_rounds (tc_signatures_with_rounds tc))) \<and>
     (\<forall>r \<in> set (asr_rounds (tc_signatures_with_rounds tc)).
        \<exists>w \<in> set (v # votes). \<exists>t s. v_two_chain_timeout w = Some (t, s) \<and> tt_hqc_round t = r)"
proof -
  define P where "P = (\<lambda>w. w \<in> set (v # votes))"
  let ?pv = "snd (insert_vote L vv v (pv_run L vv votes))"
  have inv: "pv_inv L P ?pv"
    using pv_inv_run [OF lib(1), of "votes @ [v]" P vv] by (simp add: P_def pv_run_snoc)
  obtain p where p: "pv_maybe_partial_2chain_tc ?pv = Some p"
      "is_ok (x_check_voting_power L vv (ptc_signers p) True)" "ptc_aggregate_signatures L vv p = Some (Inr tc)"
    using new_tc_aggregated [OF tc] by (elim exE conjE)
  have ti: "pv_timeouts_inv ?pv" using inv by (simp add: pv_inv_def)
  note pi = pv_timeouts_invD [OF ti p(1)]
  have from_vote: "\<exists>w. P w \<and> v_two_chain_timeout w = Some (t, s)" if "pv_timed_out ?pv a t s" for a t s
  proof -
    from that obtain w d where w: "map_of (pv_author_to_vote ?pv) a = Some (w, d)" "v_two_chain_timeout w = Some (t, s)"
      unfolding pv_timed_out_def by (elim exE conjE)
    have "P w" using inv w(1) by (simp add: pv_inv_def pv_votes_inv_def)
    with w(2) show ?thesis by (intro exI [of _ w] conjI)
  qed
  have "asr_rounds (tc_signatures_with_rounds tc) =
      snd (get_partial_sig_with_rounds L (x_address_to_validator_index L vv) (ptc_signatures p))"
    using p(3) by (auto simp: ptc_aggregate_signatures_def split: prod.splits sum.splits if_splits)
  then have rounds: "set (asr_rounds (tc_signatures_with_rounds tc)) = ptc_rounds p"
    using get_partial_sig_rounds_set ptc_indices [OF lib(2,3) pi(1) p(2)] by (simp add: ptc_rounds_def)
  have t: "tc_timeout tc = ptc_timeout p"
    using p(3) by (auto simp: ptc_aggregate_signatures_def split: prod.splits sum.splits if_splits)
  obtain a s where "pv_timed_out ?pv a (ptc_timeout p) s" using pi(3) by (elim exE)
  from from_vote [OF this] obtain w where w: "P w" "v_two_chain_timeout w = Some (ptc_timeout p, s)"
    by (elim exE conjE)
  have "vote_verify L vv w = Inr ()" using verified w(1) unfolding P_def by blast
  then have "tt_verify L vv (tc_timeout tc) = Inr ()" using w(2) by (auto simp: vote_verify_def t)
  moreover have "finite (ptc_rounds p)" by (simp add: ptc_rounds_def)
  then have "tc_highest_hqc_round tc = Max (ptc_rounds p)"
    using pi(1,2) by (auto simp: ptc_inv_def tc_highest_hqc_round_def t intro!: Max_eqI [symmetric])
  moreover have "asr_rounds (tc_signatures_with_rounds tc) \<noteq> []"
    using rounds pi(2) by (auto simp: ptc_rounds_def)
  moreover have "\<exists>w \<in> set (v # votes). \<exists>t s. v_two_chain_timeout w = Some (t, s) \<and> tt_hqc_round t = r"
    if r: "r \<in> ptc_rounds p" for r
  proof -
    from r obtain a s where "(a, (r, s)) \<in> set (ptc_signatures p)" by (auto simp: ptc_rounds_def)
    from pi(4) [OF this] obtain t where "pv_timed_out ?pv a t s" "r = tt_hqc_round t" by (elim exE conjE)
    from from_vote [OF this(1)] this(2) show ?thesis unfolding P_def
      by (elim exE conjE) (rule bexI [rotated], assumption, simp)
  qed
  ultimately show ?thesis unfolding rounds by (intro conjI ballI)
qed

lemma f_plus_one_total:
  assumes "0 < x_quorum_voting_power L vv" "x_quorum_voting_power L vv \<le> x_total_voting_power L vv"
  shows "f_plus_one L vv = Some (x_total_voting_power L vv - x_quorum_voting_power L vv + 1)"
proof -
  let ?t = "x_total_voting_power L vv" and ?q = "x_quorum_voting_power L vv"
  have "?t - ?q \<noteq> - 1"
  proof
    assume "?t - ?q = - 1"
    then have "unat ?t - unat ?q = unat (- 1 :: u128)" using unat_sub [OF assms(2)] by simp
    then have "unat ?t - unat ?q = 2 ^ 128 - 1" by (simp add: unsigned_minus_1_eq_mask mask_eq_exp_minus_1)
    moreover have "unat ?t < 2 ^ 128" using unsigned_less [of ?t] by simp
    moreover have "0 < unat ?q" using assms(1) by (simp add: word_less_nat_alt)
    moreover have "(1 :: nat) < 2 ^ 128" by simp
    ultimately show False by linarith
  qed
  with assms(2) show ?thesis by (simp add: f_plus_one_def Let_def)
qed

lemma insert_timeout_panic:
  assumes "fst (insert_timeout L vv v pw pv) = None"
  shows "f_plus_one L vv = None \<or>
     (\<exists>p. pv_maybe_partial_2chain_tc (snd (insert_timeout L vv v pw pv)) = Some p \<and>
        is_ok (x_check_voting_power L vv (ptc_signers p) True) \<and> ptc_aggregate_signatures L vv p = None)"
  using assms
  by (auto simp: insert_timeout_def Let_def split: option.splits sum.splits verify_error.splits prod.splits if_splits)

lemma ptc_aggregate_total:
  assumes "partial_signatures_map L" "check_voting_power_spec L vv" "validator_index_spec L vv" "ptc_inv p"
    and "is_ok (x_check_voting_power L vv (ptc_signers p) True)"
  shows "ptc_aggregate_signatures L vv p \<noteq> None"
proof -
  let ?idx = "x_address_to_validator_index L vv" and ?sigs = "ptc_signatures p"
  note i = ptc_indices [OF assms(2-5)]
  have "length (snd (partial_sig_with_rounds L ?idx ?sigs ([], []))) = length ?sigs \<and>
     fst ` set (fst (partial_sig_with_rounds L ?idx ?sigs ([], []))) = fst ` set ?sigs"
    using partial_sig_counts [of L ?idx ?sigs "[]" "[]"] assms(1) i by simp
  moreover have "card (fst ` set ?sigs) = length ?sigs"
    using i distinct_card [of "map fst ?sigs"] by simp
  ultimately show ?thesis
    using assms(3)
    by (auto simp: ptc_aggregate_signatures_def get_partial_sig_with_rounds_def validator_index_spec_def
        split: prod.splits sum.splits)
qed



section \<open>Order votes: what is formed\<close>

datatype pov_op = InsertOrderVote order_vote | GarbageCollect u64

fun pov_step ::
  "laptos \<Rightarrow> validator_verifier \<Rightarrow> pending_order_votes \<Rightarrow> pov_op \<Rightarrow> pending_order_votes" where
  "pov_step L vv pov (InsertOrderVote ov) = snd (insert_order_vote L vv ov pov)"
| "pov_step L vv pov (GarbageCollect r) = pov_garbage_collect L r pov"

definition order_votes_of :: "pov_op list \<Rightarrow> order_vote set" where
  "order_votes_of ops = {ov. InsertOrderVote ov \<in> set ops}"

definition pov_entry_ok ::
  "laptos \<Rightarrow> validator_verifier \<Rightarrow> order_vote set \<Rightarrow> hash_value \<Rightarrow> order_vote_status \<Rightarrow> bool" where
  "pov_entry_ok L vv V d st =
     (case st of
        NotEnoughVotes lv \<Rightarrow>
          (\<exists>w \<in> V. lv_ledger_info lv = ov_ledger_info w \<and> d = x_hash_ledger_info L (ov_ledger_info w)) \<and>
          (\<forall>a s. map_of (lv_signatures lv) a = Some s \<longrightarrow>
             (\<exists>w \<in> V. ov_author w = a \<and> ov_signature w = s \<and> d = x_hash_ledger_info L (ov_ledger_info w)))
      | EnoughVotes lws \<Rightarrow>
          x_verify_signatures L vv lws \<and>
          (\<exists>w \<in> V. lws_ledger_info lws = ov_ledger_info w \<and> d = x_hash_ledger_info L (ov_ledger_info w)))"

definition pov_inv :: "laptos \<Rightarrow> validator_verifier \<Rightarrow> order_vote set \<Rightarrow> pending_order_votes \<Rightarrow> bool" where
  "pov_inv L vv V pov \<longleftrightarrow> (\<forall>(d, st) \<in> set pov. pov_entry_ok L vv V d st)"

lemma set_al_insert: "set (al_insert k v xs) \<subseteq> insert (k, v) (set xs)"
  by (induction k v xs rule: al_insert.induct) auto

lemma pov_inv_al_insert:
  "pov_inv L vv V pov \<Longrightarrow> pov_entry_ok L vv V d st \<Longrightarrow> pov_inv L vv V (al_insert d st pov)"
  using set_al_insert [of d st pov] unfolding pov_inv_def by fast

definition order_votes_ok :: "laptos \<Rightarrow> validator_verifier \<Rightarrow> order_vote set \<Rightarrow> bool" where
  "order_votes_ok L vv V \<longleftrightarrow>
     (\<forall>w \<in> V. order_vote_verify L vv w = Inr ()) \<and> inj_on (x_hash_ledger_info L) (ov_ledger_info ` V)"

lemma pov_aggregate:
  assumes lib: "aggregation_spec L vv" and V: "order_votes_ok L vv V"
    and e: "pov_entry_ok L vv V d (NotEnoughVotes lv)"
    and pw: "is_ok (x_check_voting_power L vv (map fst (lv_signatures lv)) True)"
    and agg: "x_lv_aggregate_signatures L vv lv = Inr lws"
  shows "pov_entry_ok L vv V d (EnoughVotes lws)"
proof -
  obtain w where w: "w \<in> V" "lv_ledger_info lv = ov_ledger_info w" "d = x_hash_ledger_info L (ov_ledger_info w)"
    using e by (auto simp: pov_entry_ok_def)
  have "x_verify L vv a (MsgLedgerInfo (lv_ledger_info lv)) s" if s: "map_of (lv_signatures lv) a = Some s" for a s
  proof -
    obtain u where u: "u \<in> V" "ov_author u = a" "ov_signature u = s" "d = x_hash_ledger_info L (ov_ledger_info u)"
      using e s by (auto simp: pov_entry_ok_def)
    have "ov_ledger_info u = ov_ledger_info w"
      using V u w by (intro inj_onD [of "x_hash_ledger_info L" "ov_ledger_info ` V"]) (auto simp: order_votes_ok_def)
    moreover have "order_vote_verify L vv u = Inr ()" using V u(1) by (simp add: order_votes_ok_def)
    ultimately show ?thesis using u w by (auto simp: order_vote_verify_def)
  qed
  then show ?thesis
    using lib agg pw w by (auto simp: aggregation_spec_def pov_entry_ok_def)
qed

lemma pov_entry_add:
  assumes lib: "partial_signatures_map L" and "ov \<in> V"
    and e: "pov_entry_ok L vv V (x_hash_ledger_info L (ov_ledger_info ov)) (NotEnoughVotes lv)"
  shows "pov_entry_ok L vv V (x_hash_ledger_info L (ov_ledger_info ov))
     (NotEnoughVotes (lv\<lparr>lv_signatures := x_add_signature L (ov_author ov) (ov_signature ov) (lv_signatures lv)\<rparr>))"
  using assms by (auto simp: pov_entry_ok_def partial_signatures_map_def)

lemma pov_inv_insert:
  assumes lib: "partial_signatures_map L" "aggregation_spec L vv" and V: "order_votes_ok L vv V" "ov \<in> V"
    and inv: "pov_inv L vv V pov"
  defines "d \<equiv> x_hash_ledger_info L (ov_ledger_info ov)"
  shows "pov_inv L vv V (snd (insert_order_vote L vv ov pov)) \<and>
     (\<forall>lws. fst (insert_order_vote L vv ov pov) = Some (NewLedgerInfoWithSignatures lws) \<longrightarrow>
        pov_entry_ok L vv V d (EnoughVotes lws))"
proof -
  define st where "st = (case map_of pov d of
      None \<Rightarrow> NotEnoughVotes \<lparr>lv_ledger_info = ov_ledger_info ov, lv_signatures = []\<rparr> | Some st \<Rightarrow> st)"
  have st: "pov_entry_ok L vv V d st"
  proof (cases "map_of pov d")
    case None
    then show ?thesis using V(2) by (auto simp: st_def pov_entry_ok_def d_def)
  next
    case (Some s)
    from map_of_SomeD [OF this] Some inv show ?thesis by (auto simp: st_def pov_inv_def)
  qed
  have ins: "pov_inv L vv V (al_insert d st pov)" by (rule pov_inv_al_insert [OF inv st])
  show ?thesis
  proof (cases st)
    case (EnoughVotes lws)
    then show ?thesis using st ins by (simp add: insert_order_vote_def Let_def st_def [symmetric] d_def [symmetric])
  next
    case (NotEnoughVotes lv)
    let ?lv = "lv\<lparr>lv_signatures := x_add_signature L (ov_author ov) (ov_signature ov) (lv_signatures lv)\<rparr>"
    have lv: "pov_entry_ok L vv V d (NotEnoughVotes ?lv)"
      using pov_entry_add [OF lib(1) V(2)] st NotEnoughVotes by (simp add: d_def)
    have ins': "pov_inv L vv V (al_insert d (NotEnoughVotes ?lv) (al_insert d st pov))"
      by (rule pov_inv_al_insert [OF ins lv])
    note agg = pov_aggregate [OF lib(2) V(1) lv]
    show ?thesis
      using ins ins' agg pov_inv_al_insert [OF ins' agg]
      by (simp add: insert_order_vote_def Let_def st_def [symmetric] d_def [symmetric] NotEnoughVotes is_ok_iff
          split: option.split sum.split verify_error.split)
  qed
qed

lemma pov_inv_run:
  assumes "partial_signatures_map L" "aggregation_spec L vv" "order_votes_ok L vv V" "order_votes_of ops \<subseteq> V"
  shows "pov_inv L vv V (run_ops (pov_step L vv) [] ops)"
  using assms(4)
proof (induction ops rule: rev_induct)
  case Nil
  show ?case by (simp add: pov_inv_def)
next
  case (snoc x ops)
  then have IH: "pov_inv L vv V (run_ops (pov_step L vv) [] ops)" by (auto simp: order_votes_of_def)
  show ?case
  proof (cases x)
    case (InsertOrderVote ov)
    then have "ov \<in> V" using snoc.prems by (auto simp: order_votes_of_def)
    with pov_inv_insert [OF assms(1-3) _ IH] InsertOrderVote show ?thesis by (simp add: run_ops_append)
  next
    case (GarbageCollect r)
    then show ?thesis using IH by (auto simp: run_ops_append pov_inv_def pov_garbage_collect_def)
  qed
qed

text \<open>
  C19. A ledger info with signatures that \<open>insert_order_vote\<close> returns, now or from its cache,
  verifies and is for the ledger info of the order vote that asked for it, along every sequence
  of verified order votes and garbage collections.
\<close>

theorem formed_order_cert_verifies:
  assumes "partial_signatures_map L" "aggregation_spec L vv"
    and "order_votes_ok L vv (insert ov (order_votes_of ops))"
    and new: "fst (insert_order_vote L vv ov (run_ops (pov_step L vv) [] ops)) = Some (NewLedgerInfoWithSignatures lws)"
  shows "x_verify_signatures L vv lws \<and> lws_ledger_info lws = ov_ledger_info ov"
proof -
  let ?V = "insert ov (order_votes_of ops)"
  have "pov_entry_ok L vv ?V (x_hash_ledger_info L (ov_ledger_info ov)) (EnoughVotes lws)"
    using pov_inv_insert [OF assms(1-3) insertI1 pov_inv_run [OF assms(1-3) subset_insertI]] new by simp
  then obtain w where "x_verify_signatures L vv lws" "w \<in> ?V" "lws_ledger_info lws = ov_ledger_info w"
      "x_hash_ledger_info L (ov_ledger_info ov) = x_hash_ledger_info L (ov_ledger_info w)"
    unfolding pov_entry_ok_def by auto
  moreover have "ov_ledger_info w = ov_ledger_info ov"
    if "w \<in> ?V" "x_hash_ledger_info L (ov_ledger_info ov) = x_hash_ledger_info L (ov_ledger_info w)" for w
    using assms(3) that by (intro inj_onD [of "x_hash_ledger_info L" "ov_ledger_info ` ?V"]) (auto simp: order_votes_ok_def)
  ultimately show ?thesis by metis
qed


section \<open>Witnesses\<close>

lemma check_voting_power_spec_ex: "check_voting_power_spec example_laptos n"
  by (auto simp: check_voting_power_spec_def ex_check_voting_power_def Let_def not_less split: if_splits)

lemma validator_index_spec_ex: "validator_index_spec example_laptos n"
  by (auto simp: validator_index_spec_def inj_on_def length_remdups_card_conv simp del: set_map split: if_splits)
     (simp add: image_image)?

lemma ex_quorum_reached:
  assumes "\<forall>a \<in> set as. a < 4" "ex_check_voting_power 4 as True = Inr p"
  shows "3 \<le> length (remdups as)"
proof -
  have "card (set as) \<le> card {..<4 :: nat}" by (rule card_mono) (use assms(1) in auto)
  then have "length (remdups as) \<le> 4" by (simp add: length_remdups_card_conv)
  then have "length (remdups as) \<in> {0, 1, 2, 3, 4}" by (simp only: insert_iff empty_iff) presburger
  moreover have "\<not> (of_nat (length (remdups as)) :: u128) < 3"
    using assms by (auto simp: ex_check_voting_power_def Let_def ex_quorum_def not_le split: if_splits)
  ultimately show ?thesis by auto
qed

lemma aggregation_spec_ex: "aggregation_spec example_laptos 4"
proof -
  have "3 \<le> length (remdups as)" if "is_ok (ex_check_voting_power 4 as True)" for as
    using that ex_quorum_reached [of as]
    by (cases "\<exists>a \<in> set as. 4 \<le> a") (auto simp: is_ok_iff ex_check_voting_power_def not_le)
  then show ?thesis by (auto simp: aggregation_spec_def ex_quorum_def split: if_splits)
qed

definition ex_vote :: "author \<Rightarrow> bool \<Rightarrow> vote" where
  "ex_vote a timeout =
     \<lparr>v_vote_data = ex_vote_data 1 4 2, v_author = a,
      v_ledger_info = \<lparr>li_commit_info = block_info_new 0 0 0 0 0 0 None,
        li_consensus_data_hash = x_hash_vote_data example_laptos (ex_vote_data 1 4 2), li_block = None\<rparr>,
      v_signature = 1,
      v_two_chain_timeout =
        (if timeout then Some (\<lparr>tt_epoch = 1, tt_round = 4, tt_quorum_cert = ex_qc 1 (2 + of_nat a mod 2) 1 3\<rparr>, 1)
         else None)\<rparr>"

theorem formed_qc_verifies_witness:
  "\<exists>qc. fst (insert_vote example_laptos 4 (ex_vote 2 False) (pv_run example_laptos 4 [ex_vote 0 False, ex_vote 1 True])) =
      Some (NewQuorumCertificate qc) \<and> qc_verify example_laptos 4 qc = Inr ()"
proof -
  let ?r = "fst (insert_vote example_laptos 4 (ex_vote 2 False) (pv_run example_laptos 4 [ex_vote 0 False, ex_vote 1 True]))"
  let ?qc = "\<lparr>qc_vote_data = ex_vote_data 1 4 2,
      qc_signed_ledger_info = \<lparr>lws_ledger_info = v_ledger_info (ex_vote 2 False), lws_signatures = 3\<rparr>\<rparr>"
  have r: "?r = Some (NewQuorumCertificate ?qc)" by code_simp
  have v: "\<forall>w \<in> set [ex_vote 2 False, ex_vote 0 False, ex_vote 1 True]. vote_verify example_laptos 4 w = Inr ()"
    by code_simp
  have c: "no_li_collision example_laptos (set [ex_vote 2 False, ex_vote 0 False, ex_vote 1 True])"
    by (simp add: no_li_collision_def ex_vote_def)
  from formed_qc_verifies [OF partial_signatures_map_ex aggregation_spec_ex v c r] r show ?thesis by blast
qed

theorem votes_refine_first_vote_witness:
  "partial_signatures_map example_laptos \<and>
   first_votes (pv_run example_laptos 4 [ex_vote 0 False, ex_vote 0 True]) 0 =
     Some (x_hash_ledger_info example_laptos (v_ledger_info (ex_vote 0 False)))"
  using votes_refine_first_vote [OF partial_signatures_map_ex, of 4 "[ex_vote 0 False, ex_vote 0 True]"]
  by (simp add: partial_signatures_map_ex first_votes_step_def ex_vote_def)

theorem echo_at_most_once_witness:
  "fst (insert_vote example_laptos 4 (ex_vote 1 True) (pv_run example_laptos 4 [ex_vote 0 True])) = Some (EchoTimeout 2) \<and>
   fst (insert_vote example_laptos 4 (ex_vote 2 True) (pv_run example_laptos 4 ([ex_vote 0 True] @ ex_vote 1 True # []))) \<noteq>
     Some (EchoTimeout 3)"
proof -
  have r: "fst (insert_vote example_laptos 4 (ex_vote 1 True) (pv_run example_laptos 4 [ex_vote 0 True])) = Some (EchoTimeout 2)"
    by code_simp
  from echo_at_most_once [OF r, of "ex_vote 2 True" "[]" 3] r show ?thesis by blast
qed

text \<open>Timeout votes for different ledger infos, as after different nil blocks.\<close>

definition ex_timeout_vote :: "author \<Rightarrow> vote" where
  "ex_timeout_vote a =
     (ex_vote a True)\<lparr>v_vote_data := ex_vote_data 1 4 (of_nat a),
        v_ledger_info := \<lparr>li_commit_info = block_info_new 0 0 0 0 0 0 None,
          li_consensus_data_hash = x_hash_vote_data example_laptos (ex_vote_data 1 4 (of_nat a)), li_block = None\<rparr>\<rparr>"

theorem formed_tc_consistent_witness:
  "\<exists>tc. fst (insert_vote example_laptos 4 (ex_timeout_vote 2)
        (pv_run example_laptos 4 [ex_timeout_vote 0, ex_timeout_vote 1])) = Some (New2ChainTimeoutCertificate tc) \<and>
     tc_highest_hqc_round tc = Max (set (asr_rounds (tc_signatures_with_rounds tc)))"
proof -
  let ?tc = "\<lparr>tc_timeout = fst (the (v_two_chain_timeout (ex_timeout_vote 1))),
      tc_signatures_with_rounds = \<lparr>asr_sig = 3, asr_rounds = [2, 3, 2]\<rparr>\<rparr>"
  have r: "fst (insert_vote example_laptos 4 (ex_timeout_vote 2)
      (pv_run example_laptos 4 [ex_timeout_vote 0, ex_timeout_vote 1])) = Some (New2ChainTimeoutCertificate ?tc)"
    by code_simp
  have v: "\<forall>w \<in> set [ex_timeout_vote 2, ex_timeout_vote 0, ex_timeout_vote 1]. vote_verify example_laptos 4 w = Inr ()"
    by code_simp
  from formed_tc_consistent [OF partial_signatures_map_ex check_voting_power_spec_ex validator_index_spec_ex v r] r
  show ?thesis by blast
qed


definition ex_order_vote :: "author \<Rightarrow> order_vote" where
  "ex_order_vote a =
     \<lparr>ov_author = a,
      ov_ledger_info = \<lparr>li_commit_info = ex_block_info 1 4, li_consensus_data_hash = 0, li_block = None\<rparr>,
      ov_signature = 1\<rparr>"

theorem formed_order_cert_verifies_witness:
  "\<exists>lws. fst (insert_order_vote example_laptos 4 (ex_order_vote 2)
       (run_ops (pov_step example_laptos 4) []
         [InsertOrderVote (ex_order_vote 0), GarbageCollect 3, InsertOrderVote (ex_order_vote 1)])) =
       Some (NewLedgerInfoWithSignatures lws) \<and> x_verify_signatures example_laptos 4 lws"
proof -
  let ?ops = "[InsertOrderVote (ex_order_vote 0), GarbageCollect 3, InsertOrderVote (ex_order_vote 1)]"
  have r: "fst (insert_order_vote example_laptos 4 (ex_order_vote 2) (run_ops (pov_step example_laptos 4) [] ?ops)) =
      Some (NewLedgerInfoWithSignatures \<lparr>lws_ledger_info = ov_ledger_info (ex_order_vote 2), lws_signatures = 3\<rparr>)"
    by code_simp
  have "order_votes_ok example_laptos 4 (insert (ex_order_vote 2) (order_votes_of ?ops))"
    by (auto simp: order_votes_ok_def order_votes_of_def order_vote_verify_def ex_order_vote_def inj_on_def)
  from formed_order_cert_verifies [OF partial_signatures_map_ex aggregation_spec_ex this r] r show ?thesis by blast
qed

end
