(* ===== verification/Round_State.thy ===== *)
theory Round_State
  imports Sync_Messages Pending_Votes
begin

text \<open>
  The pacemaker (liveness/round\_state.rs): the current round, its deadline and timer, the votes
  received and sent in it. A \<open>Duration\<close> is a number of nanoseconds (an \<open>int\<close>, not negative); the arithmetic of \<open>u64\<close> and of
  \<open>Duration\<close> is checked, so every operation that computes a deadline can panic (\<open>None\<close>). The
  trait \<open>RoundTimeInterval\<close> is the parameter \<open>interval\<close>, and the clock is the argument \<open>now\<close>.
  \<open>rs_timer\<close> is the timer task behind \<open>abort_handle\<close>: the round it reports and the delay it was
  started with; starting a new one aborts the previous one.
\<close>

section \<open>Durations\<close>

type_synonym duration = int

definition DURATION_MAX :: duration where
  "DURATION_MAX = 18446744073709551615 * 1000000000 + 999999999"

definition duration_check :: "int \<Rightarrow> duration option" where
  "duration_check d = (if d \<le> DURATION_MAX then Some d else None)"

definition from_millis :: "u64 \<Rightarrow> duration" where
  "from_millis ms = uint ms * 1000000"

text \<open>
  \<open>ExponentialTimeInterval::get_round_duration\<close>. The double-precision expression
  \<open>((base_ms as f64) * exponent_base.powf(pow)).ceil() as u64\<close> is the parameter \<open>scale\<close>.
\<close>

record 'f exponential_time_interval =
  eti_base_ms :: u64
  eti_exponent_base :: 'f
  eti_max_exponent :: nat

definition eti_get_round_duration ::
  "(u64 \<Rightarrow> 'f \<Rightarrow> nat \<Rightarrow> u64) \<Rightarrow> 'f exponential_time_interval \<Rightarrow> nat \<Rightarrow> duration" where
  "eti_get_round_duration scale eti round_index_after_ordered_qc =
     (let pow = min round_index_after_ordered_qc (eti_max_exponent eti)
      in from_millis (scale (eti_base_ms eti) (eti_exponent_base eti) pow))"

section \<open>State\<close>

datatype new_round_reason = QCReady | Timeout

record new_round_event =
  nre_round :: round
  nre_reason :: new_round_reason
  nre_timeout :: duration
  nre_prev_round_votes :: "(hash_value \<times> li_verified) list"
  nre_prev_round_timeout_votes :: "partial_tc option"

record round_state =
  rs_highest_ordered_round :: round
  rs_current_round :: round
  rs_current_round_deadline :: duration
  rs_pending_votes :: pending_votes
  rs_vote_sent :: "vote option"
  rs_timer :: "(round \<times> duration) option"
  rs_is_validator :: bool

definition rs_new :: "bool \<Rightarrow> round_state" where
  "rs_new is_validator =
     \<lparr>rs_highest_ordered_round = 0, rs_current_round = 0,
      rs_current_round_deadline = 18446744073709551615 * 1000000000,
      rs_pending_votes = pv_new, rs_vote_sent = None, rs_timer = None, rs_is_validator = is_validator\<rparr>"

definition is_vote_timeout :: "round_state \<Rightarrow> bool" where
  "is_vote_timeout rs = (case rs_vote_sent rs of None \<Rightarrow> False | Some v \<Rightarrow> is_timeout v)"

section \<open>Operations\<close>

definition round_index_after_ordered_round :: "round_state \<Rightarrow> u64 option" where
  "round_index_after_ordered_round rs =
     (if rs_highest_ordered_round rs = 0 then checked_sub (rs_current_round rs) 1
      else case checked_add (rs_highest_ordered_round rs) 3 of
             None \<Rightarrow> None
           | Some bound \<Rightarrow>
               if rs_current_round rs < bound then Some 0
               else (case checked_sub (rs_current_round rs) (rs_highest_ordered_round rs) of
                       None \<Rightarrow> None
                     | Some d \<Rightarrow> checked_sub d 3))"

definition setup_deadline ::
  "(nat \<Rightarrow> duration) \<Rightarrow> duration \<Rightarrow> int \<Rightarrow> round_state \<Rightarrow> (duration \<times> round_state) option" where
  "setup_deadline interval now multiplier rs =
     (case round_index_after_ordered_round rs of
        None \<Rightarrow> None
      | Some index \<Rightarrow>
          (case duration_check (interval (unat index) * multiplier) of
             None \<Rightarrow> None
           | Some timeout \<Rightarrow>
               (case duration_check (now + timeout) of
                  None \<Rightarrow> None
                | Some deadline \<Rightarrow> Some (timeout, rs\<lparr>rs_current_round_deadline := deadline\<rparr>))))"

definition setup_timeout ::
  "(nat \<Rightarrow> duration) \<Rightarrow> duration \<Rightarrow> int \<Rightarrow> round_state \<Rightarrow> (duration \<times> round_state) option" where
  "setup_timeout interval now multiplier rs =
     (case setup_deadline interval now (multiplier * 2) rs of
        None \<Rightarrow> None
      | Some (timeout, rs) \<Rightarrow> Some (timeout, rs\<lparr>rs_timer := Some (rs_current_round rs, timeout)\<rparr>))"

definition process_local_timeout ::
  "(nat \<Rightarrow> duration) \<Rightarrow> duration \<Rightarrow> round \<Rightarrow> round_state \<Rightarrow> (bool \<times> round_state) option" where
  "process_local_timeout interval now r rs =
     (if \<not> rs_is_validator rs \<or> r \<noteq> rs_current_round rs then Some (False, rs)
      else (case setup_timeout interval now 1 rs of
              None \<Rightarrow> None
            | Some (_, rs) \<Rightarrow> Some (True, rs)))"

text \<open>The part of \<open>process_certificates\<close> that starts a new round, for a validator.\<close>

definition start_new_round ::
  "(nat \<Rightarrow> duration) \<Rightarrow> duration \<Rightarrow> sync_info \<Rightarrow> round_state \<Rightarrow>
   (new_round_event option \<times> round_state) option" where
  "start_new_round interval now sync_info rs =
     (let ((prev_round_votes, prev_round_timeout_votes), _) = drain_votes (rs_pending_votes rs);
          rs = rs\<lparr>rs_pending_votes := pv_new, rs_vote_sent := None\<rparr>
      in (case setup_timeout interval now 1 rs of
            None \<Rightarrow> None
          | Some (timeout, rs) \<Rightarrow>
              (case checked_add (highest_certified_round sync_info) 1 of
                 None \<Rightarrow> None
               | Some after_qc \<Rightarrow>
                   Some (Some \<lparr>nre_round = rs_current_round rs,
                               nre_reason = (if after_qc = rs_current_round rs then QCReady else Timeout),
                               nre_timeout = timeout,
                               nre_prev_round_votes = prev_round_votes,
                               nre_prev_round_timeout_votes = prev_round_timeout_votes\<rparr>, rs))))"

definition process_certificates ::
  "(nat \<Rightarrow> duration) \<Rightarrow> duration \<Rightarrow> sync_info \<Rightarrow> round_state \<Rightarrow>
   (new_round_event option \<times> round_state) option" where
  "process_certificates interval now sync_info rs0 =
     (let rs = (if highest_ordered_round sync_info > rs_highest_ordered_round rs0
                then rs0\<lparr>rs_highest_ordered_round := highest_ordered_round sync_info\<rparr> else rs0)
      in (case checked_add (highest_round sync_info) 1 of
            None \<Rightarrow> None
          | Some new_round \<Rightarrow>
              if new_round > rs_current_round rs then
                let rs = rs\<lparr>rs_current_round := new_round\<rparr> in
                if \<not> rs_is_validator rs then Some (None, rs)
                else start_new_round interval now sync_info rs
              else Some (None, rs)))"

text \<open>As for \<open>PendingVotes::insert_vote\<close>, the result \<open>None\<close> is a panic.\<close>

definition rs_insert_vote ::
  "laptos \<Rightarrow> validator_verifier \<Rightarrow> vote \<Rightarrow> round_state \<Rightarrow> vote_reception_result option \<times> round_state" where
  "rs_insert_vote L vv v rs =
     (if v_round v = rs_current_round rs then
        (case insert_vote L vv v (rs_pending_votes rs) of
           (r, pv) \<Rightarrow> (r, rs\<lparr>rs_pending_votes := pv\<rparr>))
      else (Some (UnexpectedRound (v_round v) (rs_current_round rs)), rs))"

definition record_vote :: "vote \<Rightarrow> round_state \<Rightarrow> round_state" where
  "record_vote v rs = (if v_round v = rs_current_round rs then rs\<lparr>rs_vote_sent := Some v\<rparr> else rs)"

definition process_delayed_qc_msg ::
  "laptos \<Rightarrow> validator_verifier \<Rightarrow> vote \<Rightarrow> round_state \<Rightarrow> vote_reception_result" where
  "process_delayed_qc_msg L vv v rs = pv_process_delayed_qc L vv v (rs_pending_votes rs)"

section \<open>The pacemaker as a machine\<close>

text \<open>
  The calls of the round manager, each with the time of the clock. A call that panics takes the
  node down: the machine stays in \<open>None\<close>. The machine collects the events it has produced.
\<close>

datatype rs_op =
    LocalTimeout duration round
  | ProcessCertificates duration sync_info
  | InsertVote vote
  | RecordVote vote

type_synonym rs_machine = "(round_state \<times> new_round_event list) option"

fun rs_step ::
  "laptos \<Rightarrow> validator_verifier \<Rightarrow> (nat \<Rightarrow> duration) \<Rightarrow> rs_machine \<Rightarrow> rs_op \<Rightarrow> rs_machine" where
  "rs_step L vv interval None x = None"
| "rs_step L vv interval (Some (rs, events)) (LocalTimeout now r) =
     (case process_local_timeout interval now r rs of
        None \<Rightarrow> None
      | Some (_, rs) \<Rightarrow> Some (rs, events))"
| "rs_step L vv interval (Some (rs, events)) (ProcessCertificates now si) =
     (case process_certificates interval now si rs of
        None \<Rightarrow> None
      | Some (None, rs) \<Rightarrow> Some (rs, events)
      | Some (Some e, rs) \<Rightarrow> Some (rs, events @ [e]))"
| "rs_step L vv interval (Some (rs, events)) (InsertVote v) =
     (case rs_insert_vote L vv v rs of
        (None, _) \<Rightarrow> None
      | (Some _, rs) \<Rightarrow> Some (rs, events))"
| "rs_step L vv interval (Some (rs, events)) (RecordVote v) = Some (record_vote v rs, events)"


section \<open>Invariant\<close>

text \<open>
  Of a node that has not panicked: the rounds of its events increase and do not pass the current
  round; and for a validator, the timer is set for the current round once a round has started,
  and the votes received and sent are votes of the current round.
\<close>

definition rs_timer_ok :: "round_state \<Rightarrow> bool" where
  "rs_timer_ok rs \<longleftrightarrow> rs_current_round rs \<noteq> 0 \<longrightarrow> (\<exists>d. rs_timer rs = Some (rs_current_round rs, d))"

definition rs_votes_ok :: "round_state \<Rightarrow> bool" where
  "rs_votes_ok rs \<longleftrightarrow>
     (\<forall>v. rs_vote_sent rs = Some v \<longrightarrow> v_round v = rs_current_round rs) \<and>
     (\<forall>a v d. map_of (pv_author_to_vote (rs_pending_votes rs)) a = Some (v, d) \<longrightarrow>
        v_round v = rs_current_round rs)"

definition rs_events_ok :: "round_state \<Rightarrow> new_round_event list \<Rightarrow> bool" where
  "rs_events_ok rs events \<longleftrightarrow>
     sorted_wrt (<) (map nre_round events) \<and> (\<forall>e \<in> set events. nre_round e \<le> rs_current_round rs)"

definition rs_inv :: "rs_machine \<Rightarrow> bool" where
  "rs_inv m =
     (case m of
        None \<Rightarrow> True
      | Some (rs, events) \<Rightarrow>
          rs_events_ok rs events \<and> (rs_is_validator rs \<longrightarrow> rs_timer_ok rs \<and> rs_votes_ok rs))"

definition rs_le :: "rs_machine \<Rightarrow> rs_machine \<Rightarrow> bool" where
  "rs_le m m' =
     (case m' of
        None \<Rightarrow> True
      | Some (rs', events') \<Rightarrow>
          (case m of
             None \<Rightarrow> False
           | Some (rs, events) \<Rightarrow>
               rs_current_round rs \<le> rs_current_round rs' \<and>
               rs_highest_ordered_round rs \<le> rs_highest_ordered_round rs' \<and>
               rs_is_validator rs' = rs_is_validator rs \<and> (\<exists>new. events' = events @ new)))"

lemma setup_timeout_Some:
  assumes "setup_timeout interval now k rs = Some (t, rs')"
  shows "\<exists>dl. rs' = rs\<lparr>rs_current_round_deadline := dl, rs_timer := Some (rs_current_round rs, t)\<rparr>"
  using assms
  by (auto simp: setup_timeout_def setup_deadline_def split: option.splits)

lemma process_local_timeout_Some:
  assumes "process_local_timeout interval now r rs = Some (b, rs')"
  shows "rs' = rs \<or> (\<exists>dl t. rs' = rs\<lparr>rs_current_round_deadline := dl, rs_timer := Some (rs_current_round rs, t)\<rparr>)"
  using assms
  by (auto simp: process_local_timeout_def split: if_splits option.splits dest!: setup_timeout_Some)

lemma start_new_round_Some:
  assumes "start_new_round interval now si rs = Some (e, rs')"
  shows "\<exists>dl t ev. e = Some ev \<and> nre_round ev = rs_current_round rs \<and>
     (nre_reason ev = QCReady \<longleftrightarrow> checked_add (highest_certified_round si) 1 = Some (rs_current_round rs)) \<and>
     rs' = rs\<lparr>rs_pending_votes := pv_new, rs_vote_sent := None, rs_current_round_deadline := dl,
              rs_timer := Some (rs_current_round rs, t)\<rparr>"
  using assms
  by (auto simp: start_new_round_def Let_def split: option.splits prod.splits dest!: setup_timeout_Some) blast

text \<open>The cases of \<open>process_certificates\<close>.\<close>

lemma process_certificates_cases:
  assumes "process_certificates interval now si rs = Some (e, rs')"
  obtains
    (same) "e = None" "rs_current_round rs' = rs_current_round rs" "rs_timer rs' = rs_timer rs"
      "rs_pending_votes rs' = rs_pending_votes rs" "rs_vote_sent rs' = rs_vote_sent rs"
      "rs_is_validator rs' = rs_is_validator rs"
      "rs_highest_ordered_round rs' = max (rs_highest_ordered_round rs) (highest_ordered_round si)"
      "unat (highest_round si) + 1 \<le> unat (rs_current_round rs)"
  | (observer) "\<not> rs_is_validator rs" "e = None" "rs_current_round rs < rs_current_round rs'"
      "\<not> rs_is_validator rs'" "rs_current_round rs' = highest_round si + 1"
      "rs_highest_ordered_round rs' = max (rs_highest_ordered_round rs) (highest_ordered_round si)"
  | (new) ev t where "rs_is_validator rs" "e = Some ev" "rs_current_round rs < rs_current_round rs'"
      "rs_is_validator rs'" "unat (rs_current_round rs') = unat (highest_round si) + 1"
      "nre_round ev = rs_current_round rs'"
      "nre_reason ev = QCReady \<longleftrightarrow> checked_add (highest_certified_round si) 1 = Some (rs_current_round rs')"
      "rs_timer rs' = Some (rs_current_round rs', t)" "rs_pending_votes rs' = pv_new" "rs_vote_sent rs' = None"
      "rs_highest_ordered_round rs' = max (rs_highest_ordered_round rs) (highest_ordered_round si)"
proof -
  define rs1 where "rs1 = (if highest_ordered_round si > rs_highest_ordered_round rs
                then rs\<lparr>rs_highest_ordered_round := highest_ordered_round si\<rparr> else rs)"
  have rs1: "rs_highest_ordered_round rs1 = max (rs_highest_ordered_round rs) (highest_ordered_round si)"
    "rs_current_round rs1 = rs_current_round rs" "rs_timer rs1 = rs_timer rs"
    "rs_pending_votes rs1 = rs_pending_votes rs" "rs_vote_sent rs1 = rs_vote_sent rs"
    "rs_is_validator rs1 = rs_is_validator rs"
    by (auto simp: rs1_def max_def)
  obtain n where n: "checked_add (highest_round si) 1 = Some n"
    using assms by (auto simp: process_certificates_def Let_def split: option.splits)
  have un: "unat n = unat (highest_round si) + 1" "n = highest_round si + 1"
    using checked_add_Some [OF n] n checked_add_one_Some by auto
  consider "\<not> n > rs_current_round rs" | "n > rs_current_round rs" "\<not> rs_is_validator rs"
    | "n > rs_current_round rs" "rs_is_validator rs" by blast
  then show thesis
  proof cases
    case 1
    then have "e = None" "rs' = rs1"
      using assms n rs1 by (simp_all add: process_certificates_def Let_def rs1_def [symmetric])
    with 1 un rs1 show thesis by (intro same) (auto simp: word_le_nat_alt not_less)
  next
    case 2
    then have "e = None" "rs' = rs1\<lparr>rs_current_round := n\<rparr>"
      using assms n rs1 by (simp_all add: process_certificates_def Let_def rs1_def [symmetric])
    with 2 un rs1 show thesis by (intro observer) auto
  next
    case 3
    then have "start_new_round interval now si (rs1\<lparr>rs_current_round := n\<rparr>) = Some (e, rs')"
      using assms n rs1 by (simp add: process_certificates_def Let_def rs1_def [symmetric])
    from start_new_round_Some [OF this] 3 un rs1 show thesis by (elim exE conjE) (rule new, simp_all)
  qed
qed


lemma rs_insert_vote_Some:
  assumes "rs_insert_vote L vv v rs = (r, rs')"
  shows "rs' = rs \<or> v_round v = rs_current_round rs \<and>
     rs' = rs\<lparr>rs_pending_votes := snd (insert_vote L vv v (rs_pending_votes rs))\<rparr>"
  using assms by (auto simp: rs_insert_vote_def split: if_splits prod.splits)

lemma rs_votes_ok_insert:
  assumes "rs_insert_vote L vv v rs = (r, rs')" "rs_votes_ok rs"
  shows "rs_votes_ok rs'"
  using rs_insert_vote_Some [OF assms(1)] assms(2)
  by (fastforce simp: rs_votes_ok_def insert_vote_authors split: if_splits)

lemma rs_votes_ok_frame:
  "rs_votes_ok rs \<Longrightarrow> rs_current_round rs' = rs_current_round rs \<Longrightarrow> rs_pending_votes rs' = rs_pending_votes rs \<Longrightarrow>
   rs_vote_sent rs' = rs_vote_sent rs \<or> (\<exists>v. rs_vote_sent rs' = Some v \<and> v_round v = rs_current_round rs) \<Longrightarrow>
   rs_votes_ok rs'"
  by (elim disjE exE conjE) (simp_all add: rs_votes_ok_def)

lemma rs_step_Some:
  "rs_step L vv interval m x = Some (rs', events') \<Longrightarrow> \<exists>rs events. m = Some (rs, events)"
  by (cases m) auto

lemma rs_events_snoc:
  assumes "rs_events_ok rs events" "rs_current_round rs < rs_current_round rs'" "nre_round e = rs_current_round rs'"
  shows "rs_events_ok rs' (events @ [e])"
  using assms by (fastforce simp: rs_events_ok_def sorted_wrt_append)

lemma rs_events_mono:
  "rs_events_ok rs events \<Longrightarrow> rs_current_round rs \<le> rs_current_round rs' \<Longrightarrow> rs_events_ok rs' events"
  by (fastforce simp: rs_events_ok_def)

lemma rs_certificates_good:
  assumes "process_certificates interval now si rs = Some (e, rs')" "rs_inv (Some (rs, events))"
  defines "m' \<equiv> Some (rs', events @ (case e of None \<Rightarrow> [] | Some ev \<Rightarrow> [ev]))"
  shows "rs_inv m' \<and> rs_le (Some (rs, events)) m'"
  using assms(1)
proof (cases rule: process_certificates_cases)
  case same
  with assms(2) show ?thesis
    by (auto simp: m'_def rs_inv_def rs_le_def rs_events_ok_def rs_timer_ok_def intro: rs_votes_ok_frame)
next
  case observer
  with assms(2) show ?thesis by (auto simp: m'_def rs_inv_def rs_le_def intro: rs_events_mono)
next
  case (new ev t)
  with assms(2) show ?thesis
    by (auto simp: m'_def rs_inv_def rs_le_def rs_timer_ok_def rs_votes_ok_def pv_new_def intro: rs_events_snoc)
qed

lemma rs_step_certificates:
  assumes "rs_step L vv interval (Some (rs, events)) (ProcessCertificates now si) = Some (rs', events')"
  obtains e where "process_certificates interval now si rs = Some (e, rs')"
    "events' = events @ (case e of None \<Rightarrow> [] | Some ev \<Rightarrow> [ev])"
  using assms by (auto split: option.splits prod.splits intro: that)

lemma rs_good_frame:
  assumes "rs_inv (Some (rs, events))" "rs_current_round rs' = rs_current_round rs"
    "rs_highest_ordered_round rs' = rs_highest_ordered_round rs" "rs_is_validator rs' = rs_is_validator rs"
    "rs_timer rs' = rs_timer rs \<or> (\<exists>t. rs_timer rs' = Some (rs_current_round rs, t))"
    "rs_votes_ok rs \<Longrightarrow> rs_votes_ok rs'"
  shows "rs_inv (Some (rs', events)) \<and> rs_le (Some (rs, events)) (Some (rs', events))"
  using assms by (auto simp: rs_inv_def rs_le_def rs_events_ok_def rs_timer_ok_def)

lemma rs_step_good:
  assumes "rs_inv m"
  shows "rs_inv (rs_step L vv interval m x) \<and> rs_le m (rs_step L vv interval m x)"
proof (cases "rs_step L vv interval m x")
  case None
  then show ?thesis by (simp add: rs_inv_def rs_le_def)
next
  case (Some s')
  then obtain rs' events' where s': "rs_step L vv interval m x = Some (rs', events')" by (cases s') auto
  from rs_step_Some [OF this] obtain rs events where m: "m = Some (rs, events)" by blast
  note step = s' [unfolded m] and inv = assms [unfolded m]
  show ?thesis
    unfolding m step
  proof (cases x)
    case (LocalTimeout now r)
    then obtain b where b: "process_local_timeout interval now r rs = Some (b, rs')" and e: "events' = events"
      using step by (auto split: option.splits prod.splits)
    show "rs_inv (Some (rs', events')) \<and> rs_le (Some (rs, events)) (Some (rs', events'))"
      unfolding e using process_local_timeout_Some [OF b]
      by (intro rs_good_frame [OF inv]) (auto elim: rs_votes_ok_frame)
  next
    case (ProcessCertificates now si)
    from step [unfolded this] obtain e where e: "process_certificates interval now si rs = Some (e, rs')"
      "events' = events @ (case e of None \<Rightarrow> [] | Some ev \<Rightarrow> [ev])" by (rule rs_step_certificates)
    from rs_certificates_good [OF e(1) inv]
    show "rs_inv (Some (rs', events')) \<and> rs_le (Some (rs, events)) (Some (rs', events'))" unfolding e(2) .
  next
    case (InsertVote v)
    then obtain r where r: "rs_insert_vote L vv v rs = (r, rs')" and e: "events' = events"
      using step by (auto split: option.splits prod.splits)
    show "rs_inv (Some (rs', events')) \<and> rs_le (Some (rs, events)) (Some (rs', events'))"
      unfolding e using rs_insert_vote_Some [OF r] rs_votes_ok_insert [OF r]
      by (intro rs_good_frame [OF inv]) auto
  next
    case (RecordVote v)
    then have e: "events' = events" and r: "rs' = record_vote v rs" using step by auto
    show "rs_inv (Some (rs', events')) \<and> rs_le (Some (rs, events)) (Some (rs', events'))"
      unfolding e r by (intro rs_good_frame [OF inv]) (auto simp: record_vote_def elim: rs_votes_ok_frame)
  qed
qed

interpretation pacemaker: monotone_machine "rs_step L vv interval" rs_inv rs_le for L vv interval
proof unfold_locales
  show "rs_le s s" for s by (auto simp: rs_le_def split: option.split prod.split)
  show "rs_le s t \<Longrightarrow> rs_le t u \<Longrightarrow> rs_le s u" for s t u
    by (auto simp: rs_le_def split: option.splits prod.splits)
qed (use rs_step_good in blast)+

definition rs_run ::
  "laptos \<Rightarrow> validator_verifier \<Rightarrow> (nat \<Rightarrow> duration) \<Rightarrow> bool \<Rightarrow> rs_op list \<Rightarrow> rs_machine" where
  "rs_run L vv interval is_validator ops = run_ops (rs_step L vv interval) (Some (rs_new is_validator, [])) ops"

lemma rs_inv_run: "rs_inv (rs_run L vv interval is_validator ops)"
  unfolding rs_run_def
  by (rule pacemaker.run_inv) (simp add: rs_inv_def rs_new_def rs_events_ok_def rs_timer_ok_def rs_votes_ok_def pv_new_def)

lemma rs_validator_run:
  "rs_run L vv interval is_validator ops = Some (rs, events) \<Longrightarrow> rs_is_validator rs = is_validator"
  using pacemaker.run_mono [of "Some (rs_new is_validator, [])" L vv interval ops]
  by (simp add: rs_run_def rs_inv_def rs_new_def rs_events_ok_def rs_timer_ok_def rs_votes_ok_def pv_new_def rs_le_def)

section \<open>Properties\<close>

text \<open>
  C20. The promise in the comment of \<open>NewRoundEvent\<close>: along every sequence of calls the events
  of a node have strictly increasing rounds, and neither the current round nor the highest
  ordered round ever goes back.
\<close>

theorem new_rounds_increase:
  assumes "rs_run L vv interval is_validator (ops @ ops') = Some (rs', events')"
  shows "\<exists>rs events. rs_run L vv interval is_validator ops = Some (rs, events) \<and>
     rs_current_round rs \<le> rs_current_round rs' \<and>
     rs_highest_ordered_round rs \<le> rs_highest_ordered_round rs' \<and>
     (\<exists>new. events' = events @ new) \<and> sorted_wrt (<) (map nre_round events') \<and>
     (\<forall>e \<in> set events'. nre_round e \<le> rs_current_round rs')"
proof -
  have i: "rs_inv (Some (rs_new is_validator, []))"
    using rs_inv_run [of L vv interval is_validator "[]"] by (simp add: rs_run_def)
  have "rs_le (rs_run L vv interval is_validator ops) (rs_run L vv interval is_validator (ops @ ops'))"
    unfolding rs_run_def by (rule pacemaker.run_mono_prefix [OF i])
  moreover have "rs_inv (Some (rs', events'))" using rs_inv_run assms by metis
  ultimately show ?thesis
    unfolding assms by (auto simp: rs_le_def rs_inv_def rs_events_ok_def split: option.splits)
qed


text \<open>
  C22. The votes a validator holds are votes of its current round, both those it received and
  the one it sent: entering a round drops what belongs to the previous one.
\<close>

theorem votes_of_current_round:
  assumes "rs_run L vv interval True ops = Some (rs, events)"
  shows "(\<forall>v. rs_vote_sent rs = Some v \<longrightarrow> v_round v = rs_current_round rs) \<and>
     (\<forall>a v d. map_of (pv_author_to_vote (rs_pending_votes rs)) a = Some (v, d) \<longrightarrow>
        v_round v = rs_current_round rs)"
  using rs_inv_run [of L vv interval True ops] rs_validator_run [OF assms] assms
  by (simp add: rs_inv_def rs_votes_ok_def)

text \<open>
  When and why a round starts. A validator's \<open>process_certificates\<close> starts a round exactly
  when the certificates justify a later round than its own; the round is the one right after the
  highest certificate, and the stated reason is right: \<open>QCReady\<close> when the quorum certificate is
  for the round before, \<open>Timeout\<close> when only the timeout certificate is.
\<close>

lemma round_start_reason:
  assumes "process_certificates interval now si rs = Some (e, rs')" "rs_is_validator rs"
  shows "(e \<noteq> None \<longleftrightarrow> unat (rs_current_round rs) < unat (highest_round si) + 1) \<and>
     (\<forall>ev. e = Some ev \<longrightarrow>
        nre_round ev = rs_current_round rs' \<and>
        unat (nre_round ev) = max (unat (highest_certified_round si)) (unat (highest_timeout_round si)) + 1 \<and>
        (nre_reason ev = QCReady \<longleftrightarrow> unat (nre_round ev) = unat (highest_certified_round si) + 1) \<and>
        (nre_reason ev = Timeout \<longrightarrow> unat (nre_round ev) = unat (highest_timeout_round si) + 1))"
  using assms(1)
proof (cases rule: process_certificates_cases)
  case same
  then show ?thesis by auto
next
  case observer
  with assms(2) show ?thesis by blast
next
  case (new ev t)
  have h: "unat (highest_round si) = max (unat (highest_certified_round si)) (unat (highest_timeout_round si))"
    by (simp add: highest_round_def max_def word_le_nat_alt)
  have q: "nre_reason ev = QCReady \<longleftrightarrow> unat (nre_round ev) = unat (highest_certified_round si) + 1"
  proof
    assume "nre_reason ev = QCReady"
    then show "unat (nre_round ev) = unat (highest_certified_round si) + 1"
      using new(6,7) checked_add_Some [of "highest_certified_round si" 1] by auto
  next
    assume r: "unat (nre_round ev) = unat (highest_certified_round si) + 1"
    moreover have "unat (nre_round ev) < 2 ^ 64" using unat_lt_u64 by simp
    ultimately show "nre_reason ev = QCReady"
      using new(6,7) by (auto simp: checked_add_def word_unat_eq_iff unat_word_ariths)
  qed
  show ?thesis
    using new h q by (cases "nre_reason ev") (auto simp: word_less_nat_alt max_def split: if_splits)
qed

lemma round_index_total:
  assumes "rs_current_round rs \<noteq> 0" "unat (rs_highest_ordered_round rs) + 3 < 2 ^ 64"
  shows "round_index_after_ordered_round rs \<noteq> None"
proof (cases "rs_highest_ordered_round rs = 0")
  case True
  have "1 \<le> rs_current_round rs" using assms(1) by (simp add: word_le_nat_alt unat_gt_0 Suc_leI)
  with True show ?thesis by (simp add: round_index_after_ordered_round_def checked_sub_def)
next
  case False
  let ?h = "rs_highest_ordered_round rs"
  have b: "checked_add ?h 3 = Some (?h + 3)" using assms(2) by (simp add: checked_add_def)
  have u: "unat (?h + 3) = unat ?h + 3" using checked_add_Some [OF b] by simp
  have "?h \<le> rs_current_round rs \<and> 3 \<le> rs_current_round rs - ?h" if "\<not> rs_current_round rs < ?h + 3"
  proof -
    have "unat ?h + 3 \<le> unat (rs_current_round rs)" using that u by (simp add: word_less_nat_alt)
    then have "?h \<le> rs_current_round rs" by (simp add: word_le_nat_alt)
    moreover from this have "3 \<le> unat (rs_current_round rs - ?h)"
      using \<open>unat ?h + 3 \<le> unat (rs_current_round rs)\<close> by (simp add: unat_sub)
    ultimately show ?thesis by (simp add: word_le_nat_alt)
  qed
  with False b show ?thesis by (auto simp: round_index_after_ordered_round_def checked_sub_def)
qed

lemma setup_timeout_total:
  assumes "rs_current_round rs \<noteq> 0" "unat (rs_highest_ordered_round rs) + 3 < 2 ^ 64"
    and "0 \<le> now" "\<And>i. now + interval i * 2 \<le> DURATION_MAX"
  shows "setup_timeout interval now 1 rs \<noteq> None"
proof -
  obtain i where i: "round_index_after_ordered_round rs = Some i" using round_index_total [OF assms(1,2)] by blast
  have "interval (unat i) * 2 \<le> DURATION_MAX" using assms(3) assms(4) [of "unat i"] by simp
  with assms(4) [of "unat i"] show ?thesis
    by (simp add: setup_timeout_def setup_deadline_def i duration_check_def)
qed

lemma start_new_round_total:
  assumes "rs_current_round rs \<noteq> 0" "unat (rs_highest_ordered_round rs) + 3 < 2 ^ 64"
    and "0 \<le> now" "\<And>i. now + interval i * 2 \<le> DURATION_MAX" "checked_add (highest_certified_round si) 1 \<noteq> None"
  shows "\<exists>e rs'. start_new_round interval now si rs = Some (e, rs')"
proof -
  obtain t rs1 where "setup_timeout interval now 1 (rs\<lparr>rs_pending_votes := pv_new, rs_vote_sent := None\<rparr>) = Some (t, rs1)"
    using setup_timeout_total [of "rs\<lparr>rs_pending_votes := pv_new, rs_vote_sent := None\<rparr>" now interval] assms by auto
  with assms(5) show ?thesis
    by (auto simp: start_new_round_def Let_def split: prod.split)
qed

text \<open>
  C23. No panic in the pacemaker's arithmetic: as long as the rounds stay three below the end of
  \<open>u64\<close> and twice the longest interval can be added to the clock, \<open>process_certificates\<close> returns,
  although every subtraction and addition in it is checked.
\<close>

theorem process_certificates_returns:
  assumes clock: "0 \<le> now" "\<And>i. now + interval i * 2 \<le> DURATION_MAX"
    and rounds: "unat (highest_round si) + 1 < 2 ^ 64"
      "unat (highest_ordered_round si) + 3 < 2 ^ 64" "unat (rs_highest_ordered_round rs) + 3 < 2 ^ 64"
  shows "\<exists>e rs'. process_certificates interval now si rs = Some (e, rs')"
proof -
  define n where "n = highest_round si + 1"
  have n: "checked_add (highest_round si) 1 = Some n" using rounds(1) by (simp add: checked_add_def n_def)
  have "unat n \<noteq> 0" using checked_add_Some [OF n] by simp
  then have n0: "n \<noteq> 0" by (rule contrapos_nn) simp
  have "unat (highest_certified_round si) \<le> unat (highest_round si)"
    by (simp add: highest_round_def max_def word_le_nat_alt)
  then have q: "checked_add (highest_certified_round si) 1 \<noteq> None" using rounds(1) by (simp add: checked_add_def)
  have "\<exists>e rs''. start_new_round interval now si rs' = Some (e, rs'')"
    if "rs_current_round rs' = n" "unat (rs_highest_ordered_round rs') + 3 < 2 ^ 64" for rs'
  proof (rule start_new_round_total [OF _ that(2) clock q])
    show "rs_current_round rs' \<noteq> 0" by (simp add: that(1) n0)
  qed
  note start = this [of "rs\<lparr>rs_current_round := n\<rparr>"]
    this [of "rs\<lparr>rs_highest_ordered_round := highest_ordered_round si, rs_current_round := n\<rparr>"]
  show ?thesis
    unfolding process_certificates_def Let_def n
    using start rounds by simp
qed


section \<open>Witnesses\<close>

text \<open>A validator whose intervals are one second, a quorum certificate of round 2 with a timeout
  certificate of round 3, then a local timeout and a vote of the round.\<close>

definition ex_interval :: "nat \<Rightarrow> duration" where
  "ex_interval i = 1000000000"

definition ex_rs_ops :: "rs_op list" where
  "ex_rs_ops =
     [ProcessCertificates 5 ex_sync_info, LocalTimeout 7 4, InsertVote (ex_vote 0 False), RecordVote (ex_vote 1 False)]"

definition ex_qc_sync_info :: sync_info where
  "ex_qc_sync_info = si_new (ex_qc 1 4 2 1) ex_hoc None"

lemma ex_rs_run:
  "rs_run example_laptos 4 ex_interval True ex_rs_ops \<noteq> None"
  "map_option (\<lambda>(rs, es). (rs_current_round rs, rs_timer rs, map nre_reason es))
     (rs_run example_laptos 4 ex_interval True (ex_rs_ops @ [ProcessCertificates 9 ex_qc_sync_info])) =
   Some (5, Some (5, 2000000000), [Timeout, QCReady])"
  "map_option (\<lambda>(rs, es). rs_current_round rs) (rs_run example_laptos 4 ex_interval True ex_rs_ops) = Some 4"
  by code_simp+

theorem new_rounds_increase_witness:
  "\<exists>rs' events'. rs_run example_laptos 4 ex_interval True (ex_rs_ops @ [ProcessCertificates 9 ex_qc_sync_info]) =
     Some (rs', events') \<and> sorted_wrt (<) (map nre_round events')"
proof -
  obtain rs' events' where r:
    "rs_run example_laptos 4 ex_interval True (ex_rs_ops @ [ProcessCertificates 9 ex_qc_sync_info]) = Some (rs', events')"
    using ex_rs_run(2) by auto
  from new_rounds_increase [OF r] r show ?thesis by blast
qed


theorem votes_of_current_round_witness:
  "\<exists>rs events. rs_run example_laptos 4 ex_interval True ex_rs_ops = Some (rs, events) \<and>
     (\<forall>v. rs_vote_sent rs = Some v \<longrightarrow> v_round v = rs_current_round rs)"
proof -
  obtain rs events where r: "rs_run example_laptos 4 ex_interval True ex_rs_ops = Some (rs, events)"
    using ex_rs_run(1) by auto
  from votes_of_current_round [OF r] r show ?thesis by blast
qed

theorem process_certificates_returns_witness:
  "\<exists>e rs'. process_certificates ex_interval 5 ex_sync_info (rs_new True) = Some (e, rs')"
proof (rule process_certificates_returns)
  show "(0 :: duration) \<le> 5" by simp
  show "5 + ex_interval i * 2 \<le> DURATION_MAX" for i by (simp add: ex_interval_def DURATION_MAX_def)
  have "highest_round ex_sync_info = 3" "highest_ordered_round ex_sync_info = 0" by code_simp+
  then show "unat (highest_round ex_sync_info) + 1 < 2 ^ 64" "unat (highest_ordered_round ex_sync_info) + 3 < 2 ^ 64"
    by simp_all
  show "unat (rs_highest_ordered_round (rs_new True)) + 3 < 2 ^ 64" by (simp add: rs_new_def)
qed

end
