(* ===== verification/Proposer_Election.thy ===== *)
theory Proposer_Election
  imports Blocks
begin

text \<open>
  Who may propose in a round (liveness/proposer\_election.rs and its implementations): the
  interface \<open>ProposerElection\<close>, the rotating and the fixed-schedule election, the weighted random
  choice \<open>choose_index\<close>, the cache of recent elections, and \<open>UnequivocalProposerElection\<close>, which
  admits at most one block of the valid proposer per round. Panics are \<open>None\<close>.
\<close>

section \<open>The interface\<close>

text \<open>The provided method \<open>is_valid_proposer\<close> of the trait.\<close>

definition is_valid_proposer :: "(round \<Rightarrow> author) \<Rightarrow> author \<Rightarrow> round \<Rightarrow> bool" where
  "is_valid_proposer get_valid_proposer author round \<longleftrightarrow> get_valid_proposer round = author"

section \<open>Rotating proposers\<close>

record rotating_proposer =
  rp_proposers :: "author list"
  rp_contiguous_rounds :: "32 word"

definition rotating_new :: "author list \<Rightarrow> 32 word \<Rightarrow> rotating_proposer option" where
  "rotating_new proposers contiguous_rounds =
     (if proposers \<noteq> [] \<and> contiguous_rounds > 0
      then Some \<lparr>rp_proposers = proposers, rp_contiguous_rounds = contiguous_rounds\<rparr> else None)"

definition choose_leader :: "author list \<Rightarrow> author option" where
  "choose_leader peers = (case peers of [] \<Rightarrow> None | p # ps \<Rightarrow> Some (fold min ps p))"

definition rotating_get_valid_proposer :: "rotating_proposer \<Rightarrow> round \<Rightarrow> author" where
  "rotating_get_valid_proposer rp round =
     rp_proposers rp !
       unat ((round div ucast (rp_contiguous_rounds rp)) mod of_nat (length (rp_proposers rp)))"

section \<open>A fixed schedule\<close>

record round_proposer =
  rdp_proposers :: "round \<Rightarrow> author option"
  rdp_default_proposer :: author

definition round_get_valid_proposer :: "round_proposer \<Rightarrow> round \<Rightarrow> author" where
  "round_get_valid_proposer rdp round =
     (case rdp_proposers rdp round of None \<Rightarrow> rdp_default_proposer rdp | Some p \<Rightarrow> p)"

section \<open>Weighted choice\<close>

text \<open>
  \<open>next_in_range\<close>: the first sixteen bytes of the hash of the state are the parameter \<open>hash16\<close>;
  \<open>None\<close> is the panic of the remainder by zero.
\<close>

definition next_in_range :: "('s \<Rightarrow> u128) \<Rightarrow> 's \<Rightarrow> u128 \<Rightarrow> u128 option" where
  "next_in_range hash16 state bound = (if bound = 0 then None else Some (hash16 state mod bound))"

definition checked_add_u128 :: "u128 \<Rightarrow> u128 \<Rightarrow> u128 option" where
  "checked_add_u128 a b = (if b \<le> - 1 - a then Some (a + b) else None)"

text \<open>The loop that makes the weights cumulative, from the total so far.\<close>

fun cumulative_weights :: "u128 \<Rightarrow> u128 list \<Rightarrow> (u128 \<times> u128 list) option" where
  "cumulative_weights total_weight [] = Some (total_weight, [])"
| "cumulative_weights total_weight (w # ws) =
     (case checked_add_u128 total_weight w of
        None \<Rightarrow> None
      | Some total_weight \<Rightarrow>
          (case cumulative_weights total_weight ws of
             None \<Rightarrow> None
           | Some (t, cs) \<Rightarrow> Some (t, total_weight # cs)))"

text \<open>
  \<open>slice::binary_search_by\<close> with a comparison that is never \<open>Equal\<close>: \<open>is_less i\<close> says that element
  \<open>i\<close> compares as \<open>Less\<close>. The loop halves \<open>len\<close> and keeps \<open>base\<close> at the last probe that was not
  \<open>Greater\<close>; the result is the \<open>Err\<close> position.
\<close>

fun binary_search_loop :: "(nat \<Rightarrow> bool) \<Rightarrow> nat \<Rightarrow> nat \<Rightarrow> nat" where
  "binary_search_loop is_less base len =
     (if len > 1 then
        let half = len div 2; mid = base + half
        in binary_search_loop is_less (if is_less mid then mid else base) (len - half)
      else base)"

declare binary_search_loop.simps [simp del]

definition binary_search_err :: "(nat \<Rightarrow> bool) \<Rightarrow> nat \<Rightarrow> nat" where
  "binary_search_err is_less n =
     (if n = 0 then 0
      else let base = binary_search_loop is_less 0 n in if is_less base then base + 1 else base)"

definition choose_index :: "('s \<Rightarrow> u128) \<Rightarrow> u128 list \<Rightarrow> 's \<Rightarrow> nat option" where
  "choose_index hash16 weights state =
     (case cumulative_weights 0 weights of
        None \<Rightarrow> None
      | Some (total_weight, cumulative) \<Rightarrow>
          (case next_in_range hash16 state total_weight of
             None \<Rightarrow> None
           | Some chosen_weight \<Rightarrow>
               Some (binary_search_err (\<lambda>i. cumulative ! i \<le> chosen_weight) (length cumulative))))"

section \<open>The cache\<close>

text \<open>
  A cache key is a round and an optional version; the map is ordered by round first, and a key
  without version is the least of its round, so \<open>split_off\<close> at such a key keeps the rounds from
  there on. \<open>'f\<close> is the type of the participation ratio (\<open>f64\<close>).
\<close>

type_synonym cache_key = "round \<times> 8 word list option"

record 'f cached_election =
  ce_recent_elections :: "(cache_key \<times> (author \<times> 'f)) list"
  ce_window :: u64

text \<open>\<open>key\<close> is what \<open>cache_key(round)\<close> of the wrapped election returns in this call and \<open>value\<close> what
  the wrapped election would compute in it.\<close>

definition get_or_compute_entry ::
  "cache_key option \<Rightarrow> author \<times> 'f \<Rightarrow> round \<Rightarrow> 'f cached_election \<Rightarrow> (author \<times> 'f) \<times> 'f cached_election" where
  "get_or_compute_entry key value round ce =
     (case key of
        None \<Rightarrow> (value, ce)
      | Some cache_key \<Rightarrow>
          let recent = (if round > ce_window ce
                        then filter (\<lambda>((r, _), _). round - ce_window ce \<le> r) (ce_recent_elections ce)
                        else ce_recent_elections ce)
          in (case map_of recent cache_key of
                Some entry \<Rightarrow> (entry, ce\<lparr>ce_recent_elections := recent\<rparr>)
              | None \<Rightarrow> (value, ce\<lparr>ce_recent_elections := al_insert cache_key value recent\<rparr>)))"

section \<open>At most one proposal per round\<close>

text \<open>\<open>already_proposed\<close>: the highest round in which a proposal was admitted, and its block.\<close>

record unequivocal_election =
  ue_already_proposed :: "round \<times> hash_value"

definition ue_new :: "laptos \<Rightarrow> unequivocal_election" where
  "ue_new L = \<lparr>ue_already_proposed = (0, x_hash_zero L)\<rparr>"

definition is_valid_proposal ::
  "(round \<Rightarrow> author) \<Rightarrow> block \<Rightarrow> unequivocal_election \<Rightarrow> bool \<times> unequivocal_election" where
  "is_valid_proposal get_valid_proposer b ue =
     (case bt_author (bd_block_type (bk_block_data b)) of
        None \<Rightarrow> (False, ue)
      | Some author \<Rightarrow>
          if \<not> is_valid_proposer get_valid_proposer author (bk_round b) then (False, ue)
          else if bk_round b > fst (ue_already_proposed ue)
               then (True, ue\<lparr>ue_already_proposed := (bk_round b, bk_id b)\<rparr>)
          else if bk_round b = fst (ue_already_proposed ue)
               then (snd (ue_already_proposed ue) = bk_id b, ue)
          else (False, ue))"


section \<open>The interface\<close>

text \<open>
  An election, once constructed, picks every proposer from its candidates. What
  \<open>UnequivocalProposerElection\<close> admits then comes from the one candidate it names.
\<close>

locale election =
  fixes wf :: "'e \<Rightarrow> bool" and get :: "'e \<Rightarrow> round \<Rightarrow> author" and candidates :: "'e \<Rightarrow> author set"
  assumes picks_candidate: "wf e \<Longrightarrow> get e r \<in> candidates e"
begin

lemma admitted_proposer:
  assumes "wf e" "fst (is_valid_proposal (get e) b ue)"
  shows "\<exists>a \<in> candidates e. bt_author (bd_block_type (bk_block_data b)) = Some a \<and> get e (bk_round b) = a"
  using assms picks_candidate
  by (auto simp: is_valid_proposal_def is_valid_proposer_def split: option.splits if_splits)

end

definition rotating_wf :: "rotating_proposer \<Rightarrow> bool" where
  "rotating_wf rp \<longleftrightarrow> rotating_new (rp_proposers rp) (rp_contiguous_rounds rp) = Some rp \<and>
     length (rp_proposers rp) < 2 ^ 64"

lemma rotating_index:
  assumes "length (rp_proposers rp) < 2 ^ 64"
  shows "rotating_get_valid_proposer rp r =
     rp_proposers rp ! ((unat r div unat (rp_contiguous_rounds rp)) mod length (rp_proposers rp))"
proof -
  have "unat (of_nat (length (rp_proposers rp)) :: u64) = length (rp_proposers rp)"
    using assms by (simp add: unat_of_nat)
  moreover have "unat (ucast (rp_contiguous_rounds rp) :: u64) = unat (rp_contiguous_rounds rp)"
  proof -
    have "unat (rp_contiguous_rounds rp) < 2 ^ 64"
      using unsigned_less [of "rp_contiguous_rounds rp"] by (rule order.strict_trans) simp
    then show ?thesis by (simp add: unsigned_ucast_eq take_bit_nat_eq_self)
  qed
  ultimately show ?thesis by (simp add: rotating_get_valid_proposer_def unat_div unat_mod)
qed

interpretation rotating: election rotating_wf rotating_get_valid_proposer "\<lambda>rp. set (rp_proposers rp)"
proof
  fix rp r assume wf: "rotating_wf rp"
  then have "rp_proposers rp \<noteq> []" by (auto simp: rotating_wf_def rotating_new_def split: if_splits)
  then show "rotating_get_valid_proposer rp r \<in> set (rp_proposers rp)"
    using wf by (simp add: rotating_wf_def rotating_index)
qed

interpretation scheduled: election "\<lambda>_. True" round_get_valid_proposer
  "\<lambda>rdp. insert (rdp_default_proposer rdp) (ran (rdp_proposers rdp))"
  by unfold_locales (auto simp: round_get_valid_proposer_def ran_def split: option.split)

section \<open>Rotation is fair\<close>

lemma window_shift:
  fixes P :: "nat \<Rightarrow> bool"
  assumes "\<And>j. P (j + m) = P j"
  shows "card {j \<in> {k..<k + m}. P j} = card {j \<in> {..<m}. P j}"
proof (induction k)
  case 0
  show ?case by (simp add: lessThan_atLeast0)
next
  case (Suc k)
  show ?case
  proof (cases "m = 0")
    case False
    let ?A = "{j \<in> {Suc k..<k + m}. P j}"
    have 1: "{j \<in> {k..<k + m}. P j} = (if P k then insert k ?A else ?A)"
      using False by (auto simp: Suc_le_eq le_less)
    have 2: "{j \<in> {Suc k..<Suc k + m}. P j} = (if P k then insert (k + m) ?A else ?A)"
      using assms [of k] False by (auto simp: less_Suc_eq)
    have "k \<notin> ?A" "k + m \<notin> ?A" "finite ?A" by auto
    then have "card {j \<in> {Suc k..<Suc k + m}. P j} = card {j \<in> {k..<k + m}. P j}"
      unfolding 1 2 by (cases "P k") (simp_all only: if_True if_False card.insert not_False_eq_True)
    with Suc.IH show ?thesis by (simp only:)
  qed simp
qed

lemma rounds_of_slot:
  assumes "i < n" "0 < c"
  shows "card {j \<in> {k..<k + n * c}. (j div c) mod n = i} = (c :: nat)"
proof -
  have per: "((j + n * c) div c) mod n = (j div c) mod n" for j
    using assms(2) by (simp add: div_add)
  have "card {j \<in> {k..<k + n * c}. (j div c) mod n = i} = card {j \<in> {..<n * c}. (j div c) mod n = i}"
    by (rule window_shift) (rule arg_cong [where f = "\<lambda>x. x = i"], rule per)
  also have "{j \<in> {..<n * c}. (j div c) mod n = i} = {i * c..<i * c + c}"
  proof (intro set_eqI iffI)
    fix j assume "j \<in> {j \<in> {..<n * c}. (j div c) mod n = i}"
    then have "j div c < n" "j div c = i" by (auto simp: div_less_iff_less_mult [OF assms(2)])
    then show "j \<in> {i * c..<i * c + c}"
      using dividend_less_times_div [OF assms(2), of j] times_div_less_eq_dividend [of c j]
      by (auto simp: mult.commute add.commute)
  next
    fix j assume j: "j \<in> {i * c..<i * c + c}"
    then have d: "j div c = i" by (intro div_nat_eqI) (auto simp: mult.commute)
    have "i * c + c \<le> n * c" using assms(1) mult_le_mono1 [of "Suc i" n c] by simp
    with j d assms show "j \<in> {j \<in> {..<n * c}. (j div c) mod n = i}" by simp
  qed
  finally show ?thesis by simp
qed

text \<open>
  C27. The rotation is fair: with distinct proposers, in every window of as many rounds as there
  are proposers times \<open>contiguous_rounds\<close>, every proposer is the valid one in exactly
  \<open>contiguous_rounds\<close> rounds.
\<close>

theorem rotation_fair:
  assumes "rotating_wf rp" "distinct (rp_proposers rp)" "a \<in> set (rp_proposers rp)"
    and "k + length (rp_proposers rp) * unat (rp_contiguous_rounds rp) \<le> 2 ^ 64"
  shows "card {j \<in> {k..<k + length (rp_proposers rp) * unat (rp_contiguous_rounds rp)}.
            is_valid_proposer (rotating_get_valid_proposer rp) a (of_nat j)} = unat (rp_contiguous_rounds rp)"
proof -
  let ?ps = "rp_proposers rp" and ?c = "unat (rp_contiguous_rounds rp)"
  let ?n = "length ?ps"
  from assms(3) obtain i where i: "i < ?n" "?ps ! i = a" by (auto simp: in_set_conv_nth)
  have c: "0 < ?c"
    using assms(1) by (auto simp: rotating_wf_def rotating_new_def word_less_nat_alt split: if_splits)
  have "is_valid_proposer (rotating_get_valid_proposer rp) a (of_nat j) \<longleftrightarrow> (j div ?c) mod ?n = i"
    if "j < k + ?n * ?c" for j
  proof -
    have "unat (of_nat j :: u64) = j" using that assms(4) by (simp add: unat_of_nat)
    then have "rotating_get_valid_proposer rp (of_nat j) = ?ps ! ((j div ?c) mod ?n)"
      using assms(1) by (simp add: rotating_index rotating_wf_def)
    moreover have "(j div ?c) mod ?n < ?n" using i(1) by (intro mod_less_divisor) linarith
    ultimately show ?thesis
      using i assms(2) by (auto simp: is_valid_proposer_def nth_eq_iff_index_eq)
  qed
  then have "{j \<in> {k..<k + ?n * ?c}. is_valid_proposer (rotating_get_valid_proposer rp) a (of_nat j)} =
      {j \<in> {k..<k + ?n * ?c}. (j div ?c) mod ?n = i}" by auto
  with rounds_of_slot [OF i(1) c] show ?thesis by simp
qed

theorem rotation_fair_witness:
  "card {j \<in> {5..<5 + 3 * 2}.
     is_valid_proposer (rotating_get_valid_proposer \<lparr>rp_proposers = [7, 8, 9], rp_contiguous_rounds = 2\<rparr>) 8 (of_nat j)} = 2"
  using rotation_fair [of "\<lparr>rp_proposers = [7, 8, 9], rp_contiguous_rounds = 2\<rparr>" 8 5]
  by (simp add: rotating_wf_def rotating_new_def)


section \<open>Weighted choice is proportional\<close>

text \<open>The loop finds the partition point of a predicate that holds on a prefix.\<close>

lemma binary_search_loop_stop: "\<not> len > 1 \<Longrightarrow> binary_search_loop is_less base len = base"
  by (subst binary_search_loop.simps) (simp only: if_False)

lemma binary_search_loop_bound:
  assumes "1 \<le> len" "base = 0 \<or> is_less base" "\<forall>i. base + len \<le> i \<and> i < n \<longrightarrow> \<not> is_less i"
    and "\<forall>j < n. is_less j \<longrightarrow> (\<forall>i \<le> j. is_less i)"
  defines "b \<equiv> binary_search_loop is_less base len"
  shows "(b = 0 \<or> is_less b) \<and> b < base + len \<and> (\<forall>i. b < i \<and> i < n \<longrightarrow> \<not> is_less i)"
  using assms(1-4) unfolding b_def
proof (induction is_less base len rule: binary_search_loop.induct)
  case (1 is_less base len)
  show ?case
  proof (cases "len > 1")
    case False
    note b = binary_search_loop_stop [OF False]
    show ?thesis
      unfolding b
    proof (intro conjI allI impI)
      show "base = 0 \<or> is_less base" by (rule "1.prems"(2))
      show "base < base + len" using "1.prems"(1) by linarith
      fix i assume i: "base < i \<and> i < n"
      show "\<not> is_less i" by (rule "1.prems"(3) [rule_format]) (use i False in linarith)
    qed
  next
    case True
    define half where "half = len div 2"
    define base' where "base' = (if is_less (base + half) then base + half else base)"
    have h: "1 \<le> half" "half < len" using True by (simp_all add: half_def)
    have eq: "binary_search_loop is_less base len = binary_search_loop is_less base' (len - half)"
      using True by (subst binary_search_loop.simps) (simp add: Let_def half_def base'_def)
    have up: "\<forall>i. base' + (len - half) \<le> i \<and> i < n \<longrightarrow> \<not> is_less i"
    proof (cases "is_less (base + half)")
      case True
      then show ?thesis using "1.prems"(3) h by (auto simp: base'_def)
    next
      case False
      have "base + half \<le> base + (len - half)" by (simp add: half_def)
      moreover have "base' = base" using False by (simp add: base'_def)
      ultimately have *: "base + half \<le> i" if "base' + (len - half) \<le> i" for i using that by linarith
      show ?thesis
      proof (intro allI impI notI; elim conjE)
        fix i assume "base' + (len - half) \<le> i" "i < n" "is_less i"
        with "1.prems"(4) * False show False by blast
      qed
    qed
    have start: "1 \<le> len - half" "base' = 0 \<or> is_less base'"
      using h(2) "1.prems"(2) by (linarith, simp add: base'_def)
    have "(binary_search_loop is_less base' (len - half) = 0 \<or> is_less (binary_search_loop is_less base' (len - half))) \<and>
        binary_search_loop is_less base' (len - half) < base' + (len - half) \<and>
        (\<forall>i. binary_search_loop is_less base' (len - half) < i \<and> i < n \<longrightarrow> \<not> is_less i)"
      by (rule "1.IH" [OF True refl refl, folded half_def, folded base'_def, OF start up "1.prems"(4)])
    moreover have "base' + (len - half) \<le> base + len" using h by (simp add: base'_def)
    ultimately show ?thesis unfolding eq by (elim conjE) (intro conjI; (assumption | linarith))
  qed
qed

lemma binary_search_err_partition:
  assumes "\<forall>j < n. is_less j \<longrightarrow> (\<forall>i \<le> j. is_less i)"
  shows "binary_search_err is_less n \<le> n \<and> (\<forall>i < binary_search_err is_less n. is_less i) \<and>
     (\<forall>i. binary_search_err is_less n \<le> i \<and> i < n \<longrightarrow> \<not> is_less i)"
proof (cases "n = 0")
  case True
  then show ?thesis by (simp add: binary_search_err_def)
next
  case False
  define b where "b = binary_search_loop is_less 0 n"
  have "(b = 0 \<or> is_less b) \<and> b < 0 + n \<and> (\<forall>i. b < i \<and> i < n \<longrightarrow> \<not> is_less i)"
    unfolding b_def by (rule binary_search_loop_bound [OF _ _ _ assms]) (use False in auto)
  then have b: "b = 0 \<or> is_less b" "b < n" "\<forall>i. b < i \<and> i < n \<longrightarrow> \<not> is_less i" by auto
  show ?thesis
  proof (cases "is_less b")
    case True
    then have "binary_search_err is_less n = b + 1" using False by (simp add: binary_search_err_def Let_def b_def)
    then show ?thesis using b True assms by (auto simp: less_Suc_eq_le)
  next
    case nl: False
    then have "binary_search_err is_less n = 0" using False b(1) by (simp add: binary_search_err_def Let_def b_def)
    moreover have "\<not> is_less i" if "i < n" for i using b nl that by (cases "i = 0") auto
    ultimately show ?thesis by simp
  qed
qed


lemma checked_add_u128_Some: "checked_add_u128 a b = Some c \<Longrightarrow> unat c = unat a + unat b"
proof -
  assume "checked_add_u128 a b = Some c"
  then have le: "b \<le> - 1 - a" and c: "c = a + b" by (auto simp: checked_add_u128_def split: if_splits)
  have "unat (- 1 - a) = unat (- 1 :: u128) - unat a" by (rule unat_sub) (simp add: word_order.extremum)
  moreover have "unat (- 1 :: u128) = 2 ^ 128 - 1" by (simp add: unsigned_minus_1_eq_mask mask_eq_exp_minus_1)
  moreover have "unat a < 2 ^ 128" using unsigned_less [of a] by simp
  ultimately have "unat a + unat b < 2 ^ 128" using le by (simp add: word_le_nat_alt)
  then show ?thesis by (simp add: c unat_word_ariths)
qed

definition weight_sum :: "u128 list \<Rightarrow> nat" where
  "weight_sum ws = sum_list (map unat ws)"

lemma cumulative_weights_Some:
  assumes "cumulative_weights t ws = Some (tw, cs)"
  shows "unat tw = unat t + weight_sum ws \<and> length cs = length ws \<and>
     (\<forall>i < length ws. unat (cs ! i) = unat t + weight_sum (take (Suc i) ws))"
  using assms
proof (induction t ws arbitrary: tw cs rule: cumulative_weights.induct)
  case (1 t)
  then show ?case by (simp add: weight_sum_def)
next
  case (2 t w ws)
  then obtain t' cs' where t': "checked_add_u128 t w = Some t'" "cumulative_weights t' ws = Some (tw, cs')" "cs = t' # cs'"
    by (auto split: option.splits prod.splits)
  note IH = "2.IH" [OF t'(1,2)] and u = checked_add_u128_Some [OF t'(1)]
  show ?case
  proof (intro conjI allI impI)
    fix i assume "i < length (w # ws)"
    then show "unat (cs ! i) = unat t + weight_sum (take (Suc i) (w # ws))"
      using IH u by (cases i) (auto simp: t'(3) weight_sum_def)
  qed (use IH u t'(3) in \<open>auto simp: weight_sum_def\<close>)
qed

lemma weight_sum_take_mono: "i \<le> j \<Longrightarrow> weight_sum (take i ws) \<le> weight_sum (take j ws)"
proof -
  assume "i \<le> j"
  then have "take j ws = take i ws @ take (j - i) (drop i ws)" by (metis le_add_diff_inverse take_add)
  then show ?thesis by (simp add: weight_sum_def)
qed

lemma weight_sum_take_le: "weight_sum (take i ws) \<le> weight_sum ws"
  using weight_sum_take_mono [of i "max i (length ws)" ws] by simp

lemma choose_index_interval:
  assumes "choose_index hash16 weights state = Some i"
  shows "i < length weights \<and>
     weight_sum (take i weights) \<le> unat (hash16 state) mod weight_sum weights \<and>
     unat (hash16 state) mod weight_sum weights < weight_sum (take i weights) + unat (weights ! i)"
proof -
  obtain tw cs where cw: "cumulative_weights 0 weights = Some (tw, cs)" and tw: "tw \<noteq> 0"
      and i: "i = binary_search_err (\<lambda>i. cs ! i \<le> hash16 state mod tw) (length cs)"
    using assms by (auto simp: choose_index_def next_in_range_def split: option.splits if_splits)
  note c = cumulative_weights_Some [OF cw]
  define draw where "draw = unat (hash16 state) mod weight_sum weights"
  have len: "length cs = length weights" and utw: "unat tw = weight_sum weights" using c by simp_all
  have d: "unat (hash16 state mod tw) = draw" by (simp add: unat_mod draw_def utw)
  have pos: "0 < weight_sum weights" using utw tw unat_eq_0 [of tw] by linarith
  have less_iff: "cs ! j \<le> hash16 state mod tw \<longleftrightarrow> weight_sum (take (Suc j) weights) \<le> draw"
    if "j < length weights" for j
    using c [THEN conjunct2, THEN conjunct2, rule_format, OF that] by (simp add: word_le_nat_alt d)
  have sorted: "\<forall>j < length cs. cs ! j \<le> hash16 state mod tw \<longrightarrow> (\<forall>i \<le> j. cs ! i \<le> hash16 state mod tw)"
  proof (intro allI impI)
    fix j k assume j: "j < length cs" "cs ! j \<le> hash16 state mod tw" and k: "k \<le> j"
    from k have "weight_sum (take (Suc k) weights) \<le> weight_sum (take (Suc j) weights)"
      by (intro weight_sum_take_mono) simp
    moreover have "j < length weights" "k < length weights" using j k len by simp_all
    ultimately show "cs ! k \<le> hash16 state mod tw" using j(2) less_iff [of j] less_iff [of k] by simp
  qed
  note part0 = binary_search_err_partition [OF sorted, folded i]
  note part = part0 [THEN conjunct1] part0 [THEN conjunct2, THEN conjunct1, rule_format]
    part0 [THEN conjunct2, THEN conjunct2, rule_format]
  have d_less: "draw < weight_sum weights" using pos by (simp add: draw_def)
  have in_range: "i < length weights"
  proof (rule ccontr)
    assume "\<not> i < length weights"
    then have "i = length weights" "0 < length weights"
      using part(1) len pos by (auto simp: weight_sum_def)
    then have "weight_sum (take (length weights) weights) \<le> draw"
      using part(2) [of "length weights - 1"] less_iff [of "length weights - 1"] by simp
    with d_less show False by simp
  qed
  have "weight_sum (take i weights) \<le> draw"
  proof (cases i)
    case 0
    then show ?thesis by (simp add: weight_sum_def)
  next
    case (Suc j)
    then show ?thesis using part(2) [of j] less_iff [of j] in_range by simp
  qed
  moreover have "draw < weight_sum (take (Suc i) weights)"
    using part(3) [of i] less_iff [OF in_range] in_range len by (simp add: not_le)
  ultimately show ?thesis
    using in_range by (simp add: draw_def take_Suc_conv_app_nth weight_sum_def)
qed

text \<open>It returns whenever the total weight is positive and fits \<open>u128\<close>.\<close>

lemma cumulative_weights_total:
  "unat t + weight_sum ws < 2 ^ 128 \<Longrightarrow> cumulative_weights t ws \<noteq> None"
proof (induction t ws rule: cumulative_weights.induct)
  case (2 t w ws)
  have le: "unat t + unat w < 2 ^ 128" using "2.prems" by (simp add: weight_sum_def)
  have "unat (- 1 - t) = unat (- 1 :: u128) - unat t" by (rule unat_sub) (simp add: word_order.extremum)
  moreover have "unat (- 1 :: u128) = 2 ^ 128 - 1" by (simp add: unsigned_minus_1_eq_mask mask_eq_exp_minus_1)
  ultimately have "w \<le> - 1 - t" using le by (simp add: word_le_nat_alt)
  then have s: "checked_add_u128 t w = Some (t + w)" by (simp add: checked_add_u128_def)
  have "cumulative_weights (t + w) ws \<noteq> None"
    using "2.IH" [OF s] "2.prems" checked_add_u128_Some [OF s] by (simp add: weight_sum_def)
  then show ?case using s by (auto split: option.split prod.split)
qed simp

text \<open>
  C25. The weighted choice is proportional and in bounds. If the weights have a positive total
  that fits \<open>u128\<close>, \<open>choose_index\<close> returns a candidate \<open>i\<close>, and the drawn weight, a number below the
  total, lies in the interval of length \<open>weights[i]\<close> that the candidate has after those before
  it. So the binary search over the cumulative weights computes what a linear scan would, and a
  candidate of weight zero is never chosen.
\<close>

theorem choose_index_proportional:
  assumes "0 < weight_sum weights" "weight_sum weights < 2 ^ 128"
  shows "\<exists>i. choose_index hash16 weights state = Some i \<and> i < length weights \<and>
     weight_sum (take i weights) \<le> unat (hash16 state) mod weight_sum weights \<and>
     unat (hash16 state) mod weight_sum weights < weight_sum (take i weights) + unat (weights ! i)"
proof -
  obtain tw cs where cw: "cumulative_weights 0 weights = Some (tw, cs)"
    using cumulative_weights_total [of 0 weights] assms(2) by auto
  have "tw \<noteq> 0" using cumulative_weights_Some [OF cw] assms(1) by auto
  then obtain i where "choose_index hash16 weights state = Some i"
    by (simp add: choose_index_def cw next_in_range_def)
  with choose_index_interval [OF this] show ?thesis by blast
qed

theorem choose_index_proportional_witness:
  "\<exists>i. choose_index (\<lambda>s. s) [3, 0, 4] (5 :: u128) = Some i \<and> i < 3"
  using choose_index_proportional [of "[3, 0, 4]" "\<lambda>s. s" 5] by (auto simp: weight_sum_def)

section \<open>The cache changes nothing\<close>

text \<open>A query: the round, the cache key and the value that the wrapped election would compute.\<close>

type_synonym 'f election_query = "round \<times> cache_key option \<times> (author \<times> 'f)"

definition cache_step :: "'f cached_election \<Rightarrow> 'f election_query \<Rightarrow> 'f cached_election" where
  "cache_step ce q = (case q of (r, key, v) \<Rightarrow> snd (get_or_compute_entry key v r ce))"

definition cache_new :: "u64 \<Rightarrow> 'f cached_election" where
  "cache_new window = \<lparr>ce_recent_elections = [], ce_window = window\<rparr>"

definition keys_determine :: "'f election_query set \<Rightarrow> bool" where
  "keys_determine Q \<longleftrightarrow> (\<forall>(r, k, v) \<in> Q. \<forall>(r', k', v') \<in> Q. k \<noteq> None \<and> k = k' \<longrightarrow> v = v')"

definition cache_from :: "'f election_query set \<Rightarrow> 'f cached_election \<Rightarrow> bool" where
  "cache_from Q ce \<longleftrightarrow> (\<forall>(k, v) \<in> set (ce_recent_elections ce). \<exists>r. (r, Some k, v) \<in> Q)"

lemma cache_from_step:
  assumes "cache_from Q ce" "(r, key, v) \<in> Q"
  shows "cache_from Q (cache_step ce (r, key, v))"
proof -
  define recent where "recent = (if r > ce_window ce
      then filter (\<lambda>((r', _), _). r - ce_window ce \<le> r') (ce_recent_elections ce) else ce_recent_elections ce)"
  have sub: "set recent \<subseteq> set (ce_recent_elections ce)" by (auto simp: recent_def)
  have "set (al_insert k v recent) \<subseteq> insert (k, v) (set recent)" for k
    by (induction k v recent rule: al_insert.induct) auto
  with sub assms show ?thesis
    by (cases key; cases "map_of recent (the key)")
      (fastforce simp: cache_step_def get_or_compute_entry_def cache_from_def Let_def recent_def [symmetric])+
qed

lemma cache_from_run:
  assumes "set qs \<subseteq> Q"
  shows "cache_from Q (run_ops cache_step (cache_new window) qs)"
  using assms
proof (induction qs rule: rev_induct)
  case Nil
  show ?case by (simp add: cache_from_def cache_new_def)
next
  case (snoc q qs)
  then show ?case by (cases q) (simp add: run_ops_append cache_from_step)
qed

text \<open>
  C26. The cache of elections is transparent: if equal cache keys mean equal elections, every
  answer of \<open>CachedProposerElection\<close>, after any queries in any order and with any window, is the
  answer the wrapped election gives.
\<close>

theorem cached_election_transparent:
  assumes "keys_determine (insert (r, key, v) (set qs))"
  shows "fst (get_or_compute_entry key v r (run_ops cache_step (cache_new window) qs)) = v"
proof (cases key)
  case None
  then show ?thesis by (simp add: get_or_compute_entry_def)
next
  case (Some k)
  let ?ce = "run_ops cache_step (cache_new window) qs"
  have from_q: "\<exists>r'. (r', Some k, v') \<in> set qs" if "(k, v') \<in> set (ce_recent_elections ?ce)" for v'
    using cache_from_run [of qs "set qs" window] that by (auto simp: cache_from_def)
  have veq: "v' = v" if m: "(k, v') \<in> set (ce_recent_elections ?ce)" for v'
  proof -
    from from_q [OF m] obtain r' where "(r', Some k, v') \<in> set qs" ..
    with assms Some show ?thesis unfolding keys_determine_def by fastforce
  qed
  define recent where "recent = (if r > ce_window ?ce
      then filter (\<lambda>((r', _), _). r - ce_window ?ce \<le> r') (ce_recent_elections ?ce) else ce_recent_elections ?ce)"
  have "set recent \<subseteq> set (ce_recent_elections ?ce)" by (auto simp: recent_def)
  then have "e = v" if "map_of recent k = Some e" for e
    using veq map_of_SomeD [OF that] by blast
  then show ?thesis
    unfolding Some get_or_compute_entry_def
    by (simp add: Let_def recent_def [symmetric] split: option.split)
qed

theorem cached_election_transparent_witness:
  "fst (get_or_compute_entry (Some (5, None)) (7, ()) 5
     (run_ops cache_step (cache_new 2) [(5, Some (5, None), (7, ())), (9, Some (9, None), (8, ()))])) = (7, ())"
  by (rule cached_election_transparent) (simp add: keys_determine_def)

section \<open>At most one proposal per round\<close>

definition ue_run :: "(round \<Rightarrow> author) \<Rightarrow> unequivocal_election \<Rightarrow> block list \<Rightarrow> unequivocal_election" where
  "ue_run get ue bs = run_ops (\<lambda>ue b. snd (is_valid_proposal get b ue)) ue bs"

definition ue_le :: "unequivocal_election \<Rightarrow> unequivocal_election \<Rightarrow> bool" where
  "ue_le ue ue' \<longleftrightarrow> fst (ue_already_proposed ue) \<le> fst (ue_already_proposed ue') \<and>
     (fst (ue_already_proposed ue) = fst (ue_already_proposed ue') \<longrightarrow>
        ue_already_proposed ue = ue_already_proposed ue')"

interpretation unequivocal: monotone_machine "\<lambda>ue b. snd (is_valid_proposal get b ue)" "\<lambda>_. True" ue_le for get
  by unfold_locales
    (auto simp: ue_le_def is_valid_proposal_def split: option.splits if_splits)

lemma admitted_recorded:
  "fst (is_valid_proposal get b ue) \<Longrightarrow> ue_already_proposed (snd (is_valid_proposal get b ue)) = (bk_round b, bk_id b)"
  by (auto simp: is_valid_proposal_def prod_eq_iff split: option.splits if_splits)

lemma admitted_later:
  "fst (is_valid_proposal get b ue) \<Longrightarrow> fst (ue_already_proposed ue) \<le> bk_round b \<and>
     (bk_round b = fst (ue_already_proposed ue) \<longrightarrow> snd (ue_already_proposed ue) = bk_id b)"
  by (auto simp: is_valid_proposal_def split: option.splits if_splits)


definition ex_rotation :: rotating_proposer where
  "ex_rotation = \<lparr>rp_proposers = [0, 1], rp_contiguous_rounds = 1\<rparr>"

definition ex_proposal :: "round \<Rightarrow> author \<Rightarrow> block" where
  "ex_proposal r a =
     \<lparr>bk_id = unat r, bk_block_data = bd_new_proposal (DirectMempool []) a [] r 0 (ex_qc 1 1 0 1),
      bk_signature = None, bk_block_number = None\<rparr>"


end
