(* ===== verification/Pipelined_Block.thy ===== *)
theory Pipelined_Block
  imports Blocks
begin

text \<open>
  A block in the execution pipeline (consensus-types/src/pipelined\_block.rs) and the result of
  executing it (aptos-executor-types/src/lib.rs). Futures, channels and the insertion time are not
  part of the data. \<open>ComputeRes\<close> and its
  \<open>TxnStatus\<close> and \<open>LiquentEvent\<close> come from \<open>laptos\<close>; of a status only \<open>is_discarded\<close> is read, of an
  event only whether it starts an epoch.
\<close>

datatype liquent_event = NewEpoch u64 nat | ObservedJWKsUpdated u64 nat | OtherEvent nat

record compute_res =
  cr_data :: hash_value
  cr_txn_num :: u64
  cr_txn_status :: "bool list option"
  cr_events :: "liquent_event list"

record state_compute_result =
  scr_execution_output :: compute_res
  scr_epoch_state :: "epoch_state option"
  scr_block_end_info :: "nat option"

definition with_root_hash :: "hash_value \<Rightarrow> state_compute_result" where
  "with_root_hash root_hash =
     \<lparr>scr_execution_output =
        \<lparr>cr_data = root_hash, cr_txn_num = 0, cr_txn_status = None, cr_events = []\<rparr>,
      scr_epoch_state = None, scr_block_end_info = None\<rparr>"

definition scr_new_dummy :: "laptos \<Rightarrow> state_compute_result" where
  "scr_new_dummy L = with_root_hash (x_accumulator_placeholder_hash L)"

definition new_dummy_with_epoch_state :: "laptos \<Rightarrow> epoch_state \<Rightarrow> state_compute_result" where
  "new_dummy_with_epoch_state L es = (scr_new_dummy L)\<lparr>scr_epoch_state := Some es\<rparr>"

definition scr_root_hash :: "state_compute_result \<Rightarrow> hash_value" where
  "scr_root_hash scr = cr_data (scr_execution_output scr)"

definition scr_has_reconfiguration :: "state_compute_result \<Rightarrow> bool" where
  "scr_has_reconfiguration scr \<longleftrightarrow> scr_epoch_state scr \<noteq> None"

text \<open>\<open>zip\<close> stops at the shorter list: transactions without a status are dropped.\<close>

definition transactions_to_commit :: "state_compute_result \<Rightarrow> signed_txn list \<Rightarrow> signed_txn list" where
  "transactions_to_commit scr input_txns =
     (case cr_txn_status (scr_execution_output scr) of
        None \<Rightarrow> input_txns
      | Some status \<Rightarrow> map fst (filter (\<lambda>(_, is_discarded). \<not> is_discarded) (zip input_txns status)))"

record execution_summary =
  xs_payload_len :: u64
  xs_to_commit :: u64
  xs_to_retry :: u64
  xs_execution_time :: nat
  xs_root_hash :: hash_value

record pipelined_block =
  pb_block :: block
  pb_input_transactions :: "signed_txn list"
  pb_state_compute_result :: state_compute_result
  pb_randomness :: "nat option"
  pb_execution_summary :: "execution_summary option"

definition pb_new :: "block \<Rightarrow> signed_txn list \<Rightarrow> state_compute_result \<Rightarrow> pipelined_block" where
  "pb_new b txns scr =
     \<lparr>pb_block = b, pb_input_transactions = txns, pb_state_compute_result = scr, pb_randomness = None,
      pb_execution_summary = None\<rparr>"

definition new_ordered :: "laptos \<Rightarrow> block \<Rightarrow> pipelined_block" where
  "new_ordered L b = pb_new b [] (scr_new_dummy L)"

abbreviation pb_id :: "pipelined_block \<Rightarrow> hash_value" where
  "pb_id b \<equiv> bk_id (pb_block b)"

abbreviation pb_round :: "pipelined_block \<Rightarrow> round" where
  "pb_round b \<equiv> bk_round (pb_block b)"

abbreviation pb_epoch :: "pipelined_block \<Rightarrow> u64" where
  "pb_epoch b \<equiv> bk_epoch (pb_block b)"

abbreviation pb_parent_id :: "pipelined_block \<Rightarrow> hash_value" where
  "pb_parent_id b \<equiv> bk_parent_id (pb_block b)"

abbreviation pb_is_nil :: "pipelined_block \<Rightarrow> bool" where
  "pb_is_nil b \<equiv> bt_is_nil (bd_block_type (bk_block_data (pb_block b)))"

text \<open>The summary of the first execution is kept; a later one only changes the log.\<close>

definition set_execution_result ::
  "signed_txn list \<Rightarrow> state_compute_result \<Rightarrow> nat \<Rightarrow> pipelined_block \<Rightarrow> pipelined_block" where
  "set_execution_result input_txns result execution_time b =
     (let b = b\<lparr>pb_state_compute_result := result, pb_input_transactions := input_txns\<rparr>;
          payload = bt_payload (bd_block_type (bk_block_data (pb_block b)));
          execution_summary =
            \<lparr>xs_payload_len = (case payload of None \<Rightarrow> 0 | Some p \<Rightarrow> len_for_execution p),
             xs_to_commit = (case payload of None \<Rightarrow> 0 | Some p \<Rightarrow> of_nat (payload_len p)),
             xs_to_retry = 0,
             xs_execution_time = execution_time,
             xs_root_hash = scr_root_hash (pb_state_compute_result b)\<rparr>
      in (case pb_execution_summary b of
            None \<Rightarrow> b\<lparr>pb_execution_summary := Some execution_summary\<rparr>
          | Some _ \<Rightarrow> b))"

text \<open>
  \<open>set_randomness\<close>: the cell keeps its first value. The second component is the value sent to
  the pipeline, \<open>None\<close> when a different value was set before.
\<close>

definition set_randomness :: "nat \<Rightarrow> pipelined_block \<Rightarrow> pipelined_block \<times> nat option" where
  "set_randomness r b =
     (case once_cell_set r (pb_randomness b) of
        (Inr _, cell) \<Rightarrow> (b\<lparr>pb_randomness := cell\<rparr>, cell)
      | (Inl _, cell) \<Rightarrow> (b, if cell \<noteq> Some r then None else cell))"

definition pb_block_info :: "pipelined_block \<Rightarrow> block_info" where
  "pb_block_info b =
     (let version = (case bk_block_number (pb_block b) of Some n \<Rightarrow> n | None \<Rightarrow> 0)
      in gen_block_info (pb_block b) (scr_root_hash (pb_state_compute_result b)) version
           (scr_epoch_state (pb_state_compute_result b)))"

definition pb_vote_proposal :: "pipelined_block \<Rightarrow> vote_proposal" where
  "pb_vote_proposal b =
     \<lparr>vp_block = pb_block b, vp_next_epoch_state = scr_epoch_state (pb_state_compute_result b),
      vp_decoupled_execution = True\<rparr>"

definition pb_order_vote_proposal :: "quorum_cert \<Rightarrow> pipelined_block \<Rightarrow> order_vote_proposal" where
  "pb_order_vote_proposal qc b =
     \<lparr>ovp_block = pb_block b, ovp_block_info = pb_block_info b, ovp_quorum_cert = qc\<rparr>"

definition pb_is_reconfiguration_suffix :: "pipelined_block \<Rightarrow> bool" where
  "pb_is_reconfiguration_suffix b \<longleftrightarrow> scr_has_reconfiguration (pb_state_compute_result b)"

end
