(* ===== verification/Block_Tree.thy ===== *)
theory Block_Tree
  imports Pipelined_Block
begin

text \<open>
  The tree of blocks (block\_storage/block\_tree.rs): blocks with the links to their children, the
  ordered and the committed root, the highest certificates, and the blocks that are pruned but
  still in memory. A panic (an assertion or an \<open>expect\<close>) is \<open>None\<close>; the two loops of the component,
  the search for blocks to prune and the walk up to a root, are partial functions whose \<open>None\<close> also
  stands for not returning, and it is proved that they return. The children of a block are a hash
  set, kept as a list in the order in which its iterator returns them.
\<close>

section \<open>State\<close>

record linkable_block =
  lb_executed_block :: pipelined_block
  lb_children :: "hash_value list"

definition linkable_new :: "pipelined_block \<Rightarrow> linkable_block" where
  "linkable_new b = \<lparr>lb_executed_block = b, lb_children = []\<rparr>"

definition add_child :: "hash_value \<Rightarrow> linkable_block \<Rightarrow> linkable_block option" where
  "add_child child_id lb =
     (if child_id \<in> set (lb_children lb) then None
      else Some (lb\<lparr>lb_children := lb_children lb @ [child_id]\<rparr>))"

type_synonym block_map = "hash_value \<Rightarrow> linkable_block option"

record block_tree =
  tr_id_to_block :: block_map
  tr_ordered_root_id :: hash_value
  tr_commit_root_id :: hash_value
  tr_highest_certified_block_id :: hash_value
  tr_head_block_id :: hash_value
  tr_safe_block_id :: hash_value
  tr_finalized_block_id :: hash_value
  tr_highest_quorum_cert :: quorum_cert
  tr_highest_2chain_timeout_cert :: "timeout_cert option"
  tr_highest_ordered_cert :: wrapped_ledger_info
  tr_highest_commit_cert :: wrapped_ledger_info
  tr_id_to_quorum_cert :: "hash_value \<Rightarrow> quorum_cert option"
  tr_pruned_block_ids :: "hash_value list"
  tr_max_pruned_blocks_in_mem :: nat

definition tree_new ::
  "pipelined_block \<Rightarrow> quorum_cert \<Rightarrow> wrapped_ledger_info \<Rightarrow> wrapped_ledger_info \<Rightarrow> nat \<Rightarrow>
   timeout_cert option \<Rightarrow> block_tree option" where
  "tree_new root root_quorum_cert root_ordered_cert root_commit_cert max_pruned htc =
     (if pb_id root \<noteq> bi_id (wli_commit_info root_ordered_cert) then None
      else Some
        \<lparr>tr_id_to_block = [pb_id root \<mapsto> linkable_new root],
         tr_ordered_root_id = pb_id root,
         tr_commit_root_id = pb_id root,
         tr_highest_certified_block_id = pb_id root,
         tr_head_block_id = pb_id root,
         tr_safe_block_id = pb_id root,
         tr_finalized_block_id = pb_id root,
         tr_highest_quorum_cert = root_quorum_cert,
         tr_highest_2chain_timeout_cert = htc,
         tr_highest_ordered_cert = root_ordered_cert,
         tr_highest_commit_cert = root_commit_cert,
         tr_id_to_quorum_cert = [bi_id (certified_block root_quorum_cert) \<mapsto> root_quorum_cert],
         tr_pruned_block_ids = [],
         tr_max_pruned_blocks_in_mem = max_pruned\<rparr>)"

section \<open>Reading\<close>

definition tr_get_block :: "hash_value \<Rightarrow> block_tree \<Rightarrow> pipelined_block option" where
  "tr_get_block block_id tr = map_option lb_executed_block (tr_id_to_block tr block_id)"

definition tr_block_exists :: "hash_value \<Rightarrow> block_tree \<Rightarrow> bool" where
  "tr_block_exists block_id tr \<longleftrightarrow> tr_id_to_block tr block_id \<noteq> None"

definition tr_ordered_root :: "block_tree \<Rightarrow> pipelined_block option" where
  "tr_ordered_root tr = tr_get_block (tr_ordered_root_id tr) tr"

definition tr_commit_root :: "block_tree \<Rightarrow> pipelined_block option" where
  "tr_commit_root tr = tr_get_block (tr_commit_root_id tr) tr"

definition tr_highest_certified_block :: "block_tree \<Rightarrow> pipelined_block option" where
  "tr_highest_certified_block tr = tr_get_block (tr_highest_certified_block_id tr) tr"

definition linkable_root :: "block_tree \<Rightarrow> linkable_block option" where
  "linkable_root tr = tr_id_to_block tr (tr_commit_root_id tr)"

definition payload_none_at :: "hash_value \<Rightarrow> block_tree \<Rightarrow> bool option" where
  "payload_none_at block_id tr =
     map_option (\<lambda>b. bt_payload (bd_block_type (bk_block_data (pb_block b))) = None) (tr_get_block block_id tr)"

definition is_safe_block_payload_none :: "block_tree \<Rightarrow> bool option" where
  "is_safe_block_payload_none tr = payload_none_at (tr_safe_block_id tr) tr"

definition is_finalized_block_payload_none :: "block_tree \<Rightarrow> bool option" where
  "is_finalized_block_payload_none tr = payload_none_at (tr_finalized_block_id tr) tr"

definition is_head_block_payload_none :: "block_tree \<Rightarrow> bool option" where
  "is_head_block_payload_none tr = payload_none_at (tr_head_block_id tr) tr"

definition is_head_block_qc :: "block_tree \<Rightarrow> bool" where
  "is_head_block_qc tr \<longleftrightarrow> tr_id_to_quorum_cert tr (tr_head_block_id tr) \<noteq> None"

section \<open>Inserting\<close>

definition tree_insert_block ::
  "laptos \<Rightarrow> pipelined_block \<Rightarrow> block_tree \<Rightarrow> ((string + pipelined_block) \<times> block_tree) option" where
  "tree_insert_block L b tr0 =
     (let block_id = pb_id b;
          tr = (if \<not> pb_is_nil b then tr0\<lparr>tr_head_block_id := block_id\<rparr> else tr0)
      in (case tr_get_block block_id tr of
            Some existing_block \<Rightarrow>
              if pb_state_compute_result existing_block = pb_state_compute_result b
              then Some (Inr existing_block, tr) else None
          | None \<Rightarrow>
              (case tr_id_to_block tr (pb_parent_id b) of
                 Some parent_lb \<Rightarrow>
                   (case add_child block_id parent_lb of
                      None \<Rightarrow> None
                    | Some parent' \<Rightarrow>
                        Some (Inr b, tr\<lparr>tr_id_to_block :=
                          (tr_id_to_block tr)(pb_parent_id b \<mapsto> parent', block_id \<mapsto> linkable_new b)\<rparr>))
               | None \<Rightarrow>
                   if pb_parent_id b \<noteq> x_genesis_block_id L then Some (Inl ''Parent block not found'', tr)
                   else Some (Inr b, tr\<lparr>tr_id_to_block :=
                          (tr_id_to_block tr)(block_id \<mapsto> linkable_new b)\<rparr>))))"

definition tree_insert_quorum_cert ::
  "quorum_cert \<Rightarrow> block_tree \<Rightarrow> ((string + unit) \<times> block_tree) option" where
  "tree_insert_quorum_cert qc tr =
     (let block_id = bi_id (certified_block qc) in
      case tr_get_block block_id tr of
        None \<Rightarrow> Some (Inl ''Block not found'', tr)
      | Some b \<Rightarrow>
          (case tr_highest_certified_block tr of
             None \<Rightarrow> None
           | Some hcb \<Rightarrow>
               let tr1 = (if pb_round b > pb_round hcb
                          then (if \<not> pb_is_nil b then tr\<lparr>tr_safe_block_id := pb_id b\<rparr> else tr)
                                 \<lparr>tr_highest_certified_block_id := pb_id b, tr_highest_quorum_cert := qc\<rparr>
                          else tr);
                   tr2 = (if tr_id_to_quorum_cert tr1 block_id = None
                          then tr1\<lparr>tr_id_to_quorum_cert := (tr_id_to_quorum_cert tr1)(block_id \<mapsto> qc)\<rparr>
                          else tr1);
                   tr3 = (if bi_round (wli_commit_info (tr_highest_ordered_cert tr2)) < bi_round (qc_commit_info qc)
                          then tr2\<lparr>tr_highest_ordered_cert := into_wrapped_ledger_info qc\<rparr> else tr2)
               in Some (Inr (), tr3)))"

definition insert_ordered_cert :: "wrapped_ledger_info \<Rightarrow> block_tree \<Rightarrow> block_tree" where
  "insert_ordered_cert cert tr =
     (if bi_round (wli_commit_info cert) > bi_round (wli_commit_info (tr_highest_ordered_cert tr))
      then tr\<lparr>tr_highest_ordered_cert := cert\<rparr> else tr)"

definition replace_2chain_timeout_cert :: "timeout_cert \<Rightarrow> block_tree \<Rightarrow> block_tree" where
  "replace_2chain_timeout_cert tc tr = tr\<lparr>tr_highest_2chain_timeout_cert := Some tc\<rparr>"

section \<open>Roots and pruning\<close>

definition update_ordered_root :: "hash_value \<Rightarrow> block_tree \<Rightarrow> block_tree option" where
  "update_ordered_root root_id tr =
     (if tr_block_exists root_id tr then Some (tr\<lparr>tr_ordered_root_id := root_id\<rparr>) else None)"

definition update_commit_and_finalized_root :: "hash_value \<Rightarrow> block_tree \<Rightarrow> block_tree option" where
  "update_commit_and_finalized_root root_id tr =
     (case tr_get_block root_id tr of
        None \<Rightarrow> None
      | Some b \<Rightarrow>
          let tr = (if \<not> pb_is_nil b then tr\<lparr>tr_finalized_block_id := root_id\<rparr> else tr)
          in Some (tr\<lparr>tr_commit_root_id := root_id\<rparr>))"

definition update_highest_commit_cert :: "wrapped_ledger_info \<Rightarrow> block_tree \<Rightarrow> block_tree option" where
  "update_highest_commit_cert new_commit_cert tr =
     (if bi_round (wli_commit_info new_commit_cert) > bi_round (wli_commit_info (tr_highest_commit_cert tr))
      then update_commit_and_finalized_root (bi_id (wli_commit_info new_commit_cert))
             (tr\<lparr>tr_highest_commit_cert := new_commit_cert\<rparr>)
      else Some tr)"

text \<open>The loop over the children of a block that is pruned; the head of the list is the top of the
  stack.\<close>

fun push_children ::
  "block_map \<Rightarrow> hash_value \<Rightarrow> hash_value list \<Rightarrow> linkable_block list \<Rightarrow> linkable_block list option" where
  "push_children M next_root_id [] stack = Some stack"
| "push_children M next_root_id (child_id # rest) stack =
     (if next_root_id = child_id then push_children M next_root_id rest stack
      else (case M child_id of
              None \<Rightarrow> None
            | Some lb \<Rightarrow> push_children M next_root_id rest (lb # stack)))"

partial_function (option) prune_loop ::
  "block_map \<Rightarrow> hash_value \<Rightarrow> linkable_block list \<Rightarrow> (u64 \<times> hash_value) list \<Rightarrow>
   (u64 \<times> hash_value) list option" where
  "prune_loop M next_root_id blocks_to_be_pruned blocks_pruned =
     (case blocks_to_be_pruned of
        [] \<Rightarrow> Some blocks_pruned
      | lb # stack \<Rightarrow>
          Option.bind (push_children M next_root_id (lb_children lb) stack) (\<lambda>stack'.
            prune_loop M next_root_id stack'
              (blocks_pruned @ [(pb_epoch (lb_executed_block lb), pb_id (lb_executed_block lb))])))"

definition find_blocks_to_prune :: "hash_value \<Rightarrow> block_tree \<Rightarrow> (u64 \<times> hash_value) list option" where
  "find_blocks_to_prune next_root_id tr =
     (if next_root_id = tr_commit_root_id tr then Some []
      else (case tr_get_block next_root_id tr of
              None \<Rightarrow> Some []
            | Some next_root \<Rightarrow>
                (case tr_commit_root tr of
                   None \<Rightarrow> None
                 | Some root \<Rightarrow>
                     if pb_round next_root \<le> pb_round root then Some []
                     else (case linkable_root tr of
                             None \<Rightarrow> None
                           | Some lr \<Rightarrow> prune_loop (tr_id_to_block tr) next_root_id [lr] []))))"

definition remove_block :: "hash_value \<Rightarrow> block_tree \<Rightarrow> block_tree" where
  "remove_block block_id tr =
     tr\<lparr>tr_id_to_block := (tr_id_to_block tr)(block_id := None),
        tr_id_to_quorum_cert := (tr_id_to_quorum_cert tr)(block_id := None)\<rparr>"

definition process_pruned_blocks :: "(u64 \<times> hash_value) list \<Rightarrow> block_tree \<Rightarrow> block_tree" where
  "process_pruned_blocks newly_pruned_blocks tr =
     (let ids = tr_pruned_block_ids tr @ map snd newly_pruned_blocks;
          num_blocks_to_remove = length ids - tr_max_pruned_blocks_in_mem tr
      in fold remove_block (take num_blocks_to_remove ids)
           (tr\<lparr>tr_pruned_block_ids := drop num_blocks_to_remove ids\<rparr>))"

definition commit_callback ::
  "laptos \<Rightarrow> pipelined_block list \<Rightarrow> wrapped_ledger_info \<Rightarrow> li_with_sigs \<Rightarrow> block_tree \<Rightarrow>
   block_tree option" where
  "commit_callback L blocks_to_commit finality_proof commit_decision tr =
     (if blocks_to_commit = [] then None
      else (case tr_commit_root tr of
              None \<Rightarrow> None
            | Some root \<Rightarrow>
                let block_to_commit = last blocks_to_commit in
                if pb_round block_to_commit \<le> pb_round root then Some tr
                else (case wli_create_merged_with_executed_state L finality_proof commit_decision of
                        Inl _ \<Rightarrow> None
                      | Inr commit_proof \<Rightarrow>
                          (case find_blocks_to_prune (pb_id block_to_commit) tr of
                             None \<Rightarrow> None
                           | Some ids_to_remove \<Rightarrow>
                               update_highest_commit_cert commit_proof
                                 (process_pruned_blocks ids_to_remove tr)))))"

section \<open>Paths\<close>

text \<open>The loop of \<open>path_from_root_to_block\<close>: the blocks from the given one up to a round at or
  below the root's, and the id it stopped at; the inner \<open>None\<close> is a missing block.\<close>

partial_function (option) path_loop ::
  "block_tree \<Rightarrow> u64 \<Rightarrow> hash_value \<Rightarrow> pipelined_block list \<Rightarrow>
   (hash_value \<times> pipelined_block list) option option" where
  "path_loop tr root_round cur_block_id res =
     (case tr_get_block cur_block_id tr of
        None \<Rightarrow> Some None
      | Some b \<Rightarrow>
          if pb_round b \<le> root_round then Some (Some (cur_block_id, res))
          else path_loop tr root_round (pb_parent_id b) (res @ [b]))"

definition path_from_root_to_block ::
  "hash_value \<Rightarrow> hash_value \<Rightarrow> u64 \<Rightarrow> block_tree \<Rightarrow> pipelined_block list option option" where
  "path_from_root_to_block block_id root_id root_round tr =
     (case path_loop tr root_round block_id [] of
        None \<Rightarrow> None
      | Some None \<Rightarrow> Some None
      | Some (Some (cur_block_id, res)) \<Rightarrow>
          if cur_block_id \<noteq> root_id then Some None else Some (Some (rev res)))"

definition path_from_ordered_root ::
  "hash_value \<Rightarrow> block_tree \<Rightarrow> pipelined_block list option option" where
  "path_from_ordered_root block_id tr =
     (case tr_ordered_root tr of
        None \<Rightarrow> None
      | Some root \<Rightarrow> path_from_root_to_block block_id (tr_ordered_root_id tr) (pb_round root) tr)"

definition path_from_commit_root ::
  "hash_value \<Rightarrow> block_tree \<Rightarrow> pipelined_block list option option" where
  "path_from_commit_root block_id tr =
     (case tr_commit_root tr of
        None \<Rightarrow> None
      | Some root \<Rightarrow> path_from_root_to_block block_id (tr_commit_root_id tr) (pb_round root) tr)"

end
