(* ===== verification/Block_Tree_Facts.thy ===== *)
theory Block_Tree_Facts
  imports Block_Tree
begin

text \<open>
  Facts about the block tree: the search for blocks to prune and the walk up to a root end and are
  exact; along any sequence of operations that respects their contract the tree stays consistent
  and no assertion fails.
\<close>

section \<open>Links\<close>

abbreviation lb_id :: "linkable_block \<Rightarrow> hash_value" where
  "lb_id lb \<equiv> pb_id (lb_executed_block lb)"

abbreviation lb_round :: "linkable_block \<Rightarrow> round" where
  "lb_round lb \<equiv> pb_round (lb_executed_block lb)"

abbreviation lb_parent :: "linkable_block \<Rightarrow> hash_value" where
  "lb_parent lb \<equiv> pb_parent_id (lb_executed_block lb)"

definition child_of :: "block_map \<Rightarrow> hash_value \<Rightarrow> hash_value \<Rightarrow> bool" where
  "child_of M p c \<longleftrightarrow> (\<exists>lp. M p = Some lp \<and> c \<in> set (lb_children lp))"

text \<open>
  The links are consistent: blocks are stored under their ids, a child link leads to a block with
  the matching parent link, and rounds grow along the links.
\<close>

definition links_ok :: "block_map \<Rightarrow> bool" where
  "links_ok M \<longleftrightarrow> finite (dom M) \<and>
     (\<forall>i lb. M i = Some lb \<longrightarrow> lb_id lb = i \<and> distinct (lb_children lb)) \<and>
     (\<forall>p c. child_of M p c \<longrightarrow> (\<exists>lc. M c = Some lc \<and> lb_parent lc = p)) \<and>
     (\<forall>p lp c lc. M p = Some lp \<longrightarrow> M c = Some lc \<longrightarrow> lb_parent lc = p \<longrightarrow> lb_round lp < lb_round lc)"

lemma links_okD:
  assumes "links_ok M"
  shows "finite (dom M)" "M i = Some lb \<Longrightarrow> lb_id lb = i" "M i = Some lb \<Longrightarrow> distinct (lb_children lb)"
    and "child_of M p c \<Longrightarrow> \<exists>lc. M c = Some lc \<and> lb_parent lc = p"
    and "M p = Some lp \<Longrightarrow> M c = Some lc \<Longrightarrow> lb_parent lc = p \<Longrightarrow> lb_round lp < lb_round lc"
  using assms unfolding links_ok_def by (simp, metis, metis, metis, metis)

text \<open>The blocks below \<open>root\<close> along child links that do not pass \<open>stop\<close>, and the blocks whose
  parent links lead to \<open>a\<close>.\<close>

inductive below_avoiding :: "block_map \<Rightarrow> hash_value \<Rightarrow> hash_value \<Rightarrow> hash_value \<Rightarrow> bool"
  for M stop root where
  root: "below_avoiding M stop root root"
| child: "below_avoiding M stop root p \<Longrightarrow> child_of M p c \<Longrightarrow> c \<noteq> stop \<Longrightarrow> below_avoiding M stop root c"

inductive descends :: "block_map \<Rightarrow> hash_value \<Rightarrow> hash_value \<Rightarrow> bool" for M a where
  self: "M a \<noteq> None \<Longrightarrow> descends M a a"
| parent: "M x = Some lx \<Longrightarrow> descends M a (lb_parent lx) \<Longrightarrow> descends M a x"

lemma descends_round:
  assumes "links_ok M" "descends M a x"
  shows "\<exists>la lx. M a = Some la \<and> M x = Some lx \<and> lb_round la \<le> lb_round lx"
  using assms(2)
proof induction
  case (parent x lx)
  then obtain la lp where l: "M a = Some la" "M (lb_parent lx) = Some lp" "lb_round la \<le> lb_round lp" by blast
  have "lb_round la \<le> lb_round lx"
    using l(3) links_okD(5) [OF assms(1) l(2) parent.hyps(1) refl] by (rule order.strict_implies_order [OF order.strict_trans1])
  with l(1) parent.hyps(1) show ?case by blast
qed auto

section \<open>The search for blocks to prune\<close>

lemma push_children_Some:
  "\<forall>c \<in> set cs. M c \<noteq> None \<Longrightarrow>
   push_children M n cs st = Some (rev (map (\<lambda>c. the (M c)) (filter (\<lambda>c. c \<noteq> n) cs)) @ st)"
  by (induction cs arbitrary: st) auto

text \<open>The loop's invariant, on the stack and the ids pruned so far.\<close>

definition prune_inv ::
  "block_map \<Rightarrow> hash_value \<Rightarrow> hash_value \<Rightarrow> linkable_block list \<Rightarrow> hash_value list \<Rightarrow> bool" where
  "prune_inv M stop root stack ids \<longleftrightarrow>
     (\<forall>lb \<in> set stack. M (lb_id lb) = Some lb) \<and> set ids \<subseteq> dom M \<and>
     distinct (map lb_id stack @ ids) \<and>
     (\<forall>x \<in> lb_id ` set stack \<union> set ids. below_avoiding M stop root x) \<and>
     (\<forall>x \<in> lb_id ` set stack. x = root \<or> (\<exists>p \<in> set ids. child_of M p x)) \<and>
     (\<forall>xs c ys. ids = xs @ c # ys \<longrightarrow> c = root \<or> (\<exists>p \<in> set xs. child_of M p c)) \<and>
     (\<forall>p \<in> set ids. \<forall>c. child_of M p c \<longrightarrow> c \<noteq> stop \<longrightarrow> c \<in> lb_id ` set stack \<union> set ids) \<and>
     root \<in> lb_id ` set stack \<union> set ids"

lemma below_round:
  assumes "links_ok M" "M root = Some lr" "below_avoiding M stop root x"
  shows "\<exists>lx. M x = Some lx \<and> lb_round lr \<le> lb_round lx \<and> (x \<noteq> root \<longrightarrow> lb_round lr < lb_round lx)"
  using assms(3)
proof induction
  case (child p c)
  from child.IH obtain lp where lp: "M p = Some lp" "lb_round lr \<le> lb_round lp" by blast
  from links_okD(4) [OF assms(1) child.hyps(2)] obtain lc where lc: "M c = Some lc" "lb_parent lc = p" by blast
  have "lb_round lr < lb_round lc"
    using lp(2) links_okD(5) [OF assms(1) lp(1) lc] by (rule order.strict_trans1)
  with lc(1) show ?case by (intro exI [of _ lc]) simp
qed (use assms(2) in auto)

lemma prune_inv_step:
  assumes ok: "links_ok M" "M root = Some lr" and inv: "prune_inv M stop root (lb # stack) ids"
  shows "\<exists>stack'. push_children M stop (lb_children lb) stack = Some stack' \<and>
     prune_inv M stop root stack' (ids @ [lb_id lb])"
proof -
  let ?x = "lb_id lb" and ?cs = "filter (\<lambda>c. c \<noteq> stop) (lb_children lb)"
  let ?stack' = "rev (map (\<lambda>c. the (M c)) ?cs) @ stack"
  have x: "M ?x = Some lb" "?x \<notin> set ids" "?x \<notin> lb_id ` set stack" "below_avoiding M stop root ?x"
    using inv by (simp_all add: prune_inv_def)
  have i1: "\<forall>l \<in> set stack. M (lb_id l) = Some l" and i2: "set ids \<subseteq> dom M"
    and i3: "distinct (map lb_id stack @ ids)"
    and i4: "\<forall>z \<in> lb_id ` set stack \<union> set ids. below_avoiding M stop root z"
    and i5: "\<forall>z \<in> insert ?x (lb_id ` set stack). z = root \<or> (\<exists>p \<in> set ids. child_of M p z)"
    and i6: "\<forall>xs c ys. ids = xs @ c # ys \<longrightarrow> c = root \<or> (\<exists>p \<in> set xs. child_of M p c)"
    and i7: "\<forall>p \<in> set ids. \<forall>c. child_of M p c \<longrightarrow> c \<noteq> stop \<longrightarrow> c \<in> insert ?x (lb_id ` set stack) \<union> set ids"
    and i8: "root \<in> insert ?x (lb_id ` set stack) \<union> set ids"
    using inv by (simp_all add: prune_inv_def)
  have kid: "child_of M ?x c" if "c \<in> set (lb_children lb)" for c using x(1) that by (auto simp: child_of_def)
  have here: "\<exists>lc. M c = Some lc \<and> lb_parent lc = ?x" if "c \<in> set (lb_children lb)" for c
    by (rule links_okD(4) [OF ok(1) kid [OF that]])
  have kids: "lb_id (the (M c)) = c" "M c \<noteq> None" if "c \<in> set (lb_children lb)" for c
    using here [OF that] links_okD(2) [OF ok(1)] by auto
  have ids': "lb_id ` set ?stack' = set ?cs \<union> lb_id ` set stack"
    using kids by (force simp: image_Un image_image)
  have map': "map lb_id ?stack' = rev ?cs @ map lb_id stack"
    using kids by (auto simp: rev_map [symmetric] intro!: map_idI)
  have up: "p = ?x" if "child_of M p c" "c \<in> set (lb_children lb)" for p c
    using here [OF that(2)] links_okD(4) [OF ok(1) that(1)] by auto
  have not_root: "c \<noteq> root" if "c \<in> set (lb_children lb)" for c
  proof -
    from below_round [OF ok x(4)] x(1) have "lb_round lr \<le> lb_round lb" by auto
    moreover from here [OF that] obtain lc where "M c = Some lc" "lb_parent lc = ?x" by blast
    with links_okD(5) [OF ok(1) x(1)] have "lb_round lb < lb_round lc" by blast
    ultimately show ?thesis using ok(2) \<open>M c = Some lc\<close> by auto
  qed
  have fresh: "c \<notin> lb_id ` set stack \<union> insert ?x (set ids)" if c: "c \<in> set (lb_children lb)" for c
  proof
    assume "c \<in> lb_id ` set stack \<union> insert ?x (set ids)"
    then consider "c \<in> lb_id ` set stack" | "c = ?x" | "c \<in> set ids" by blast
    then show False
    proof cases
      case 1
      then obtain p where "p \<in> set ids" "child_of M p c"
        using i5 not_root [OF c] by blast
      with up [OF _ c] x(2) show False by blast
    next
      case 2
      from i5 have "?x = root \<or> (\<exists>p \<in> set ids. child_of M p ?x)" by blast
      with 2 not_root [OF c] up [OF _ c] x(2) show False by blast
    next
      case 3
      then obtain xs ys where i: "ids = xs @ c # ys" by (meson split_list)
      with i6 have "c = root \<or> (\<exists>p \<in> set xs. child_of M p c)" by blast
      with not_root [OF c] obtain p where "p \<in> set xs" "child_of M p c" by blast
      with up [OF _ c] x(2) i show False by auto
    qed
  qed
  have "push_children M stop (lb_children lb) stack = Some ?stack'"
    by (rule push_children_Some) (use kids(2) in blast)
  moreover have "prune_inv M stop root ?stack' (ids @ [?x])"
    unfolding prune_inv_def ids' map'
  proof (intro conjI)
    show "\<forall>lb \<in> set ?stack'. M (lb_id lb) = Some lb"
    proof
      fix l assume "l \<in> set ?stack'"
      then consider "l \<in> set stack" | c where "c \<in> set (lb_children lb)" "l = the (M c)" by auto
      then show "M (lb_id l) = Some l"
      proof cases
        case 1
        then show ?thesis using i1 by blast
      next
        case 2
        then show ?thesis using kids [OF 2(1)] by auto
      qed
    qed
    show "set (ids @ [?x]) \<subseteq> dom M" using i2 x(1) by auto
    show "distinct ((rev ?cs @ map lb_id stack) @ ids @ [?x])"
      using i3 links_okD(3) [OF ok(1) x(1)] fresh x(2,3) by auto
    have "below_avoiding M stop root c" if "c \<in> set ?cs" for c
      using that by (intro below_avoiding.child [OF x(4) kid]) auto
    then show "\<forall>z \<in> set ?cs \<union> lb_id ` set stack \<union> set (ids @ [?x]). below_avoiding M stop root z"
      using i4 x(4) by (simp add: ball_Un)
    have "child_of M ?x c" if "c \<in> set ?cs" for c using that by (intro kid) simp
    then show "\<forall>z \<in> set ?cs \<union> lb_id ` set stack. z = root \<or> (\<exists>p \<in> set (ids @ [?x]). child_of M p z)"
      using i5 by (simp add: ball_Un) blast
    show "\<forall>xs c ys. ids @ [?x] = xs @ c # ys \<longrightarrow> c = root \<or> (\<exists>p \<in> set xs. child_of M p c)"
    proof (intro allI impI)
      fix xs c ys assume e: "ids @ [?x] = xs @ c # ys"
      show "c = root \<or> (\<exists>p \<in> set xs. child_of M p c)"
      proof (cases ys rule: rev_cases)
        case Nil
        with e i5 show ?thesis by auto
      next
        case (snoc zs z)
        with e have "ids = xs @ c # zs" by simp
        with i6 show ?thesis by blast
      qed
    qed
    have "c \<in> set ?cs" if "child_of M ?x c" "c \<noteq> stop" for c using that x(1) by (auto simp: child_of_def)
    then show "\<forall>p \<in> set (ids @ [?x]). \<forall>c. child_of M p c \<longrightarrow> c \<noteq> stop \<longrightarrow>
        c \<in> set ?cs \<union> lb_id ` set stack \<union> set (ids @ [?x])"
      using i7 by (simp add: ball_Un) blast
    show "root \<in> set ?cs \<union> lb_id ` set stack \<union> set (ids @ [?x])" using i8 by auto
  qed
  ultimately show ?thesis by blast
qed


lemma prune_loop_total:
  assumes ok: "links_ok M" "M root = Some lr" and inv: "prune_inv M stop root stack (map snd pruned)"
  shows "\<exists>ps. prune_loop M stop stack pruned = Some ps \<and> prune_inv M stop root [] (map snd ps)"
  using inv
proof (induction "card (dom M) - length pruned" arbitrary: stack pruned rule: less_induct)
  case less
  show ?case
  proof (cases stack)
    case Nil
    with less.prems show ?thesis by (subst prune_loop.simps) simp
  next
    case (Cons lb rest)
    let ?pruned = "pruned @ [(pb_epoch (lb_executed_block lb), lb_id lb)]"
    from prune_inv_step [OF ok less.prems [unfolded Cons]] obtain stack'
      where st: "push_children M stop (lb_children lb) rest = Some stack'"
        and inv': "prune_inv M stop root stack' (map snd ?pruned)" by auto
    have "distinct (map snd ?pruned)" "set (map snd ?pruned) \<subseteq> dom M" using inv' unfolding prune_inv_def by simp_all
    then have "length ?pruned \<le> card (dom M)"
      using distinct_card [of "map snd ?pruned"] card_mono [OF links_okD(1) [OF ok(1)]] by (metis length_map)
    then have "card (dom M) - length ?pruned < card (dom M) - length pruned" by simp
    from less.hyps [OF this inv'] show ?thesis
      unfolding Cons by (subst prune_loop.simps) (simp add: st)
  qed
qed

lemma prune_inv_start: "links_ok M \<Longrightarrow> M root = Some lr \<Longrightarrow> prune_inv M stop root [lr] []"
  using links_okD(2) [of M root lr] by (auto simp: prune_inv_def intro: below_avoiding.root)

lemma prune_inv_end:
  assumes "prune_inv M stop root [] ids"
  shows "set ids = {x. below_avoiding M stop root x}" "distinct ids"
proof -
  have a: "root \<in> set ids" "\<forall>p \<in> set ids. \<forall>c. child_of M p c \<longrightarrow> c \<noteq> stop \<longrightarrow> c \<in> set ids"
    and b: "\<forall>x \<in> set ids. below_avoiding M stop root x" and d: "distinct ids"
    using assms by (simp_all add: prune_inv_def)
  have "x \<in> set ids" if "below_avoiding M stop root x" for x
    using that by induction (use a in blast)+
  with b show "set ids = {x. below_avoiding M stop root x}" by blast
  show "distinct ids" by (rule d)
qed

lemma below_not_descends:
  assumes ok: "links_ok M" "M root = Some lr" "M stop = Some ls" "lb_round lr < lb_round ls"
    and "below_avoiding M stop root x"
  shows "\<not> descends M stop x"
  using assms(5)
proof induction
  case root
  show ?case using descends_round [OF ok(1)] ok(2-4) by (metis leD option.inject)
next
  case (child p c)
  from links_okD(4) [OF ok(1) child.hyps(2)] obtain lc where "M c = Some lc" "lb_parent lc = p" by blast
  with child.IH child.hyps(3) show ?case by (auto elim: descends.cases)
qed

lemma find_blocks_to_prune_runs:
  assumes ok: "links_ok (tr_id_to_block tr)"
    and "tr_commit_root tr = Some root" "tr_get_block next_root tr = Some nb" "pb_round root < pb_round nb"
  shows "\<exists>ps. find_blocks_to_prune next_root tr = Some ps \<and>
     prune_inv (tr_id_to_block tr) next_root (tr_commit_root_id tr) [] (map snd ps)"
proof -
  let ?M = "tr_id_to_block tr" and ?r = "tr_commit_root_id tr"
  from assms(2,3) obtain lr ln where l: "?M ?r = Some lr" "root = lb_executed_block lr"
    "?M next_root = Some ln" "nb = lb_executed_block ln"
    by (auto simp: tr_commit_root_def tr_get_block_def)
  have "prune_inv ?M next_root ?r [lr] (map snd [])" using prune_inv_start [OF ok l(1)] by simp
  from prune_loop_total [OF ok l(1) this] obtain ps
    where ps: "prune_loop ?M next_root [lr] [] = Some ps" "prune_inv ?M next_root ?r [] (map snd ps)"
    by blast
  have "next_root \<noteq> ?r" using l assms(4) by auto
  moreover have "\<not> pb_round nb \<le> pb_round root" using assms(4) by (simp only: not_le)
  ultimately have "find_blocks_to_prune next_root tr = Some ps"
    using assms(2,3) l(1) ps(1) by (simp add: find_blocks_to_prune_def linkable_root_def)
  with ps(2) show ?thesis by blast
qed

text \<open>
  C29. Pruning is exact and the search for it ends. If a block above the commit root becomes the
  new root, \<open>find_blocks_to_prune\<close> returns each block that hangs below the old root without
  passing through the new one, once, and never the new root or a block whose parent links lead
  to it: the committed branch and everything on top of it stays.
\<close>

theorem prune_exact:
  assumes ok: "links_ok (tr_id_to_block tr)"
    and "tr_commit_root tr = Some root" "tr_get_block next_root tr = Some nb" "pb_round root < pb_round nb"
  shows "\<exists>ps. find_blocks_to_prune next_root tr = Some ps \<and> distinct (map snd ps) \<and>
     set (map snd ps) = {x. below_avoiding (tr_id_to_block tr) next_root (tr_commit_root_id tr) x} \<and>
     (\<forall>x. descends (tr_id_to_block tr) next_root x \<longrightarrow> x \<notin> set (map snd ps))"
proof -
  from find_blocks_to_prune_runs [OF assms] obtain ps where ps: "find_blocks_to_prune next_root tr = Some ps"
    "prune_inv (tr_id_to_block tr) next_root (tr_commit_root_id tr) [] (map snd ps)" by blast
  have "\<not> descends (tr_id_to_block tr) next_root x"
    if "below_avoiding (tr_id_to_block tr) next_root (tr_commit_root_id tr) x" for x
    using below_not_descends [OF ok] assms(2-4) that by (auto simp: tr_commit_root_def tr_get_block_def)
  with ps prune_inv_end [OF ps(2)] show ?thesis by auto
qed

section \<open>Paths\<close>

text \<open>A chain of blocks of the tree from \<open>root_id\<close> (not included), each the parent of the next.\<close>

fun chain_from :: "block_tree \<Rightarrow> hash_value \<Rightarrow> pipelined_block list \<Rightarrow> bool" where
  "chain_from tr root_id [] = True"
| "chain_from tr root_id (b # bs) \<longleftrightarrow>
     pb_parent_id b = root_id \<and> tr_get_block (pb_id b) tr = Some b \<and> chain_from tr (pb_id b) bs"

lemma chain_from_append:
  "chain_from tr r (bs @ [b]) \<longleftrightarrow> chain_from tr r bs \<and>
     pb_parent_id b = (if bs = [] then r else pb_id (last bs)) \<and> tr_get_block (pb_id b) tr = Some b"
  by (induction bs arbitrary: r) auto

lemma descends_strict:
  assumes "links_ok M" "descends M a x" "x \<noteq> a" "M a = Some la" "M x = Some lx"
  shows "descends M a (lb_parent lx) \<and> lb_round la < lb_round lx"
  using assms(2)
proof cases
  case (parent l)
  with assms(5) have d: "descends M a (lb_parent lx)" by simp
  from descends_round [OF assms(1) d] assms(4) obtain lp
    where lp: "M (lb_parent lx) = Some lp" "lb_round la \<le> lb_round lp" by auto
  have "lb_round la < lb_round lx"
    using lp(2) links_okD(5) [OF assms(1) lp(1) assms(5) refl] by (rule order.strict_trans1)
  with d show ?thesis ..
qed (use assms(3) in auto)

definition path_outcome ::
  "block_tree \<Rightarrow> hash_value \<Rightarrow> hash_value \<Rightarrow> pipelined_block list \<Rightarrow>
   (hash_value \<times> pipelined_block list) option \<Rightarrow> bool" where
  "path_outcome tr r x res out \<longleftrightarrow>
     (if descends (tr_id_to_block tr) r x
      then \<exists>bs. out = Some (r, res @ rev bs) \<and> chain_from tr r bs \<and>
             x = (if bs = [] then r else pb_id (last bs))
      else \<forall>y res'. out = Some (y, res') \<longrightarrow> y \<noteq> r)"

lemma path_outcome_step:
  assumes ok: "links_ok (tr_id_to_block tr)" and r: "tr_id_to_block tr r = Some lr"
    and x: "tr_id_to_block tr x = Some lx" "x \<noteq> r"
    and out: "path_outcome tr r (lb_parent lx) (res @ [lb_executed_block lx]) out"
  shows "path_outcome tr r x res out"
proof (cases "descends (tr_id_to_block tr) r x")
  case True
  with descends_strict [OF ok True x(2) r x(1)] out obtain bs
    where bs: "out = Some (r, res @ rev (bs @ [lb_executed_block lx]))" "chain_from tr r bs"
      "lb_parent lx = (if bs = [] then r else pb_id (last bs))"
    by (auto simp: path_outcome_def)
  moreover have "tr_get_block (lb_id lx) tr = Some (lb_executed_block lx)" "lb_id lx = x"
    using links_okD(2) [OF ok x(1)] x(1) by (simp_all add: tr_get_block_def)
  ultimately show ?thesis
    using True unfolding path_outcome_def by (auto intro!: exI [of _ "bs @ [lb_executed_block lx]"] simp: chain_from_append)
next
  case False
  then have "\<not> descends (tr_id_to_block tr) r (lb_parent lx)" using x(1) by (auto intro: descends.parent)
  with out False show ?thesis by (simp add: path_outcome_def)
qed

lemma path_loop_correct:
  assumes ok: "links_ok (tr_id_to_block tr)" and r: "tr_id_to_block tr r = Some lr"
  shows "\<exists>out. path_loop tr (lb_round lr) x res = Some out \<and> path_outcome tr r x res out"
proof (cases "tr_id_to_block tr x")
  case None
  then have "\<not> descends (tr_id_to_block tr) r x" using descends_round [OF ok] by fastforce
  with None show ?thesis
    by (subst path_loop.simps) (simp add: tr_get_block_def path_outcome_def)
next
  case (Some lx)
  then show ?thesis
  proof (induction "unat (lb_round lx)" arbitrary: lx x res rule: less_induct)
    case less
    let ?b = "lb_executed_block lx"
    have b: "tr_get_block x tr = Some ?b" using less.prems by (simp add: tr_get_block_def)
    show ?case
    proof (cases "lb_round lx \<le> lb_round lr")
      case True
      then have e: "path_loop tr (lb_round lr) x res = Some (Some (x, res))"
        by (subst path_loop.simps) (simp add: b)
      have "x = r" if "descends (tr_id_to_block tr) r x"
        using descends_strict [OF ok that _ r less.prems] True by (metis leD)
      moreover have "descends (tr_id_to_block tr) r r" using r by (intro descends.self) simp
      ultimately show ?thesis unfolding e path_outcome_def by (auto intro!: exI [of _ "[]"])
    next
      case False
      then have ne: "x \<noteq> r" using r less.prems by auto
      have e: "path_loop tr (lb_round lr) x res = path_loop tr (lb_round lr) (lb_parent lx) (res @ [?b])"
        using False by (subst path_loop.simps) (simp add: b)
      have "\<exists>out. path_loop tr (lb_round lr) (lb_parent lx) (res @ [?b]) = Some out \<and>
          path_outcome tr r (lb_parent lx) (res @ [?b]) out"
      proof (cases "tr_id_to_block tr (lb_parent lx)")
        case None
        then have "\<not> descends (tr_id_to_block tr) r (lb_parent lx)" using descends_round [OF ok] by fastforce
        with None show ?thesis
          by (subst path_loop.simps) (simp add: tr_get_block_def path_outcome_def)
      next
        case (Some lp)
        have "lb_round lp < lb_round lx" by (rule links_okD(5) [OF ok Some less.prems refl])
        then show ?thesis by (intro less.hyps [OF _ Some]) (simp add: word_less_nat_alt)
      qed
      then show ?thesis unfolding e by (elim exE conjE) (blast intro: path_outcome_step [OF ok r less.prems ne])
    qed
  qed
qed



section \<open>The tree along its operations\<close>

text \<open>The blocks below \<open>r\<close>.\<close>

abbreviation live :: "block_map \<Rightarrow> hash_value \<Rightarrow> hash_value \<Rightarrow> bool" where
  "live M \<equiv> (child_of M)\<^sup>*\<^sup>*"

text \<open>In the queue of pruned blocks a parent comes before its children.\<close>

definition parents_first :: "block_map \<Rightarrow> hash_value list \<Rightarrow> bool" where
  "parents_first M D \<longleftrightarrow> (\<forall>xs c ys p. D = xs @ c # ys \<longrightarrow> child_of M p c \<longrightarrow> p \<in> set xs)"

definition queue_ok :: "block_map \<Rightarrow> hash_value list \<Rightarrow> bool" where
  "queue_ok M D \<longleftrightarrow> links_ok M \<and> distinct D \<and> set D \<subseteq> dom M \<and> parents_first M D"

definition tree_inv :: "block_tree \<Rightarrow> bool" where
  "tree_inv tr \<longleftrightarrow>
     (let M = tr_id_to_block tr; D = tr_pruned_block_ids tr; r = tr_commit_root_id tr in
      queue_ok M D \<and> M r \<noteq> None \<and> (\<forall>p. child_of M p r \<longrightarrow> p \<in> set D) \<and>
      (\<forall>x. live M r x \<longrightarrow> x \<notin> set D) \<and>
      live M r (tr_ordered_root_id tr) \<and> live M r (tr_highest_certified_block_id tr) \<and>
      length D \<le> tr_max_pruned_blocks_in_mem tr \<and>
      (\<forall>b. tr_commit_root tr = Some b \<longrightarrow>
         bi_round (wli_commit_info (tr_highest_commit_cert tr)) \<le> pb_round b))"

datatype tree_op =
  InsertBlock pipelined_block
| InsertQuorumCert quorum_cert
| InsertOrderedCert wrapped_ledger_info
| Replace2ChainTimeoutCert timeout_cert
| UpdateOrderedRoot hash_value
| CommitCallback "pipelined_block list" wrapped_ledger_info li_with_sigs

fun tree_step :: "laptos \<Rightarrow> tree_op \<Rightarrow> block_tree \<Rightarrow> block_tree option" where
  "tree_step L (InsertBlock b) tr = map_option snd (tree_insert_block L b tr)"
| "tree_step L (InsertQuorumCert qc) tr = map_option snd (tree_insert_quorum_cert qc tr)"
| "tree_step L (InsertOrderedCert w) tr = Some (insert_ordered_cert w tr)"
| "tree_step L (Replace2ChainTimeoutCert tc) tr = Some (replace_2chain_timeout_cert tc tr)"
| "tree_step L (UpdateOrderedRoot i) tr = update_ordered_root i tr"
| "tree_step L (CommitCallback bs p d) tr = commit_callback L bs p d tr"

text \<open>
  What the callers guarantee: a new block has a higher round than its parent and a lower one than
  its children, a block inserted again has the same result; a certified block and a new ordered
  root are below the commit root; a block is committed with a decision for it, is below the commit
  root and the ordered root and the highest certified block are below it.
\<close>

fun tree_op_ok :: "laptos \<Rightarrow> tree_op \<Rightarrow> block_tree \<Rightarrow> bool" where
  "tree_op_ok L (InsertBlock b) tr \<longleftrightarrow>
     (\<forall>b'. tr_get_block (pb_id b) tr = Some b' \<longrightarrow> pb_state_compute_result b' = pb_state_compute_result b) \<and>
     pb_parent_id b \<noteq> pb_id b \<and>
     (\<forall>lp. tr_id_to_block tr (pb_parent_id b) = Some lp \<longrightarrow> lb_round lp < pb_round b) \<and>
     (\<forall>i lc. tr_id_to_block tr i = Some lc \<longrightarrow> lb_parent lc = pb_id b \<longrightarrow> pb_round b < lb_round lc)"
| "tree_op_ok L (InsertQuorumCert qc) tr \<longleftrightarrow>
     (tr_block_exists (bi_id (certified_block qc)) tr \<longrightarrow>
      live (tr_id_to_block tr) (tr_commit_root_id tr) (bi_id (certified_block qc)))"
| "tree_op_ok L (InsertOrderedCert w) tr \<longleftrightarrow> True"
| "tree_op_ok L (Replace2ChainTimeoutCert tc) tr \<longleftrightarrow> True"
| "tree_op_ok L (UpdateOrderedRoot i) tr \<longleftrightarrow> live (tr_id_to_block tr) (tr_commit_root_id tr) i"
| "tree_op_ok L (CommitCallback bs p d) tr \<longleftrightarrow> bs \<noteq> [] \<and>
     (let b = last bs; live = (child_of (tr_id_to_block tr))\<^sup>*\<^sup>* in
      tr_get_block (pb_id b) tr = Some b \<and> live (tr_commit_root_id tr) (pb_id b) \<and>
      live (pb_id b) (tr_ordered_root_id tr) \<and> live (pb_id b) (tr_highest_certified_block_id tr) \<and>
      x_match_ordered_only L (wli_commit_info p) (li_commit_info (lws_ledger_info d)) \<and>
      bi_id (li_commit_info (lws_ledger_info d)) = pb_id b \<and>
      bi_round (li_commit_info (lws_ledger_info d)) = pb_round b)"

inductive tree_reach :: "laptos \<Rightarrow> block_tree \<Rightarrow> block_tree \<Rightarrow> bool" for L tr0 where
  start: "tree_reach L tr0 tr0"
| step: "tree_reach L tr0 tr \<Longrightarrow> tree_op_ok L op tr \<Longrightarrow> tree_step L op tr = Some tr' \<Longrightarrow> tree_reach L tr0 tr'"

subsection \<open>Live blocks\<close>

lemma live_descends:
  assumes ok: "links_ok M" "M a \<noteq> None" and "live M a x"
  shows "descends M a x"
  using assms(3)
proof induction
  case base
  show ?case using ok(2) by (rule descends.self)
next
  case (step p c)
  from links_okD(4) [OF ok(1) step.hyps(2)] obtain lc where "M c = Some lc" "lb_parent lc = p" by blast
  with step.IH show ?case by (auto intro: descends.parent)
qed

lemma live_below:
  "live M r x \<Longrightarrow> below_avoiding M n r x \<or> live M n x"
  by (induction rule: rtranclp_induct)
    (auto intro: below_avoiding.intros rtranclp.rtrancl_into_rtrancl)

lemma below_live: "below_avoiding M n r x \<Longrightarrow> live M r x"
  by (induction rule: below_avoiding.induct) (auto intro: rtranclp.rtrancl_into_rtrancl)

lemma child_parent_unique:
  "links_ok M \<Longrightarrow> child_of M p c \<Longrightarrow> child_of M q c \<Longrightarrow> p = q"
  using links_okD(4) [of M p c] links_okD(4) [of M q c] by fastforce

lemma new_root_parent:
  assumes ok: "links_ok M" "M r \<noteq> None" "live M r n" "n \<noteq> r" and p: "child_of M p n"
  shows "below_avoiding M n r p"
proof -
  from assms(3,4) obtain q where q: "live M r q" "child_of M q n" by (metis rtranclp.cases)
  with child_parent_unique [OF ok(1) p] have [simp]: "q = p" by blast
  from links_okD(4) [OF ok(1) p] obtain ln where ln: "M n = Some ln" "lb_parent ln = p" by blast
  have "\<not> live M n p"
  proof
    assume "live M n p"
    with ln(1) have "descends M n p" by (intro live_descends [OF ok(1)]) auto
    from descends_round [OF ok(1) this] ln(1) obtain lp where lp: "M p = Some lp" "lb_round ln \<le> lb_round lp" by auto
    with links_okD(5) [OF ok(1) lp(1) ln] show False by (meson leD)
  qed
  with live_below [OF q(1), of n] show ?thesis by simp
qed

subsection \<open>Removing the oldest pruned blocks\<close>

lemma fold_remove_block:
  "tr_id_to_block (fold remove_block ids tr) = tr_id_to_block tr |` (- set ids)"
  "tr_pruned_block_ids (fold remove_block ids tr) = tr_pruned_block_ids tr"
  "tr_commit_root_id (fold remove_block ids tr) = tr_commit_root_id tr"
  "tr_ordered_root_id (fold remove_block ids tr) = tr_ordered_root_id tr"
  "tr_highest_certified_block_id (fold remove_block ids tr) = tr_highest_certified_block_id tr"
  "tr_max_pruned_blocks_in_mem (fold remove_block ids tr) = tr_max_pruned_blocks_in_mem tr"
  "tr_highest_commit_cert (fold remove_block ids tr) = tr_highest_commit_cert tr"
  by (induction ids arbitrary: tr) (auto simp: remove_block_def restrict_map_def fun_eq_iff)

lemma child_of_restrict: "child_of (M |` (- S)) p c \<longleftrightarrow> p \<notin> S \<and> child_of M p c"
  by (auto simp: child_of_def restrict_map_def)

lemma queue_ok_drop:
  assumes "queue_ok M (xs @ ys)"
  shows "queue_ok (M |` (- set xs)) ys"
proof -
  have ok: "links_ok M" "distinct (xs @ ys)" "set (xs @ ys) \<subseteq> dom M" "parents_first M (xs @ ys)"
    using assms by (simp_all add: queue_ok_def)
  have early: "p \<in> set xs" if c: "c \<in> set xs" "child_of M p c" for p c
  proof -
    from split_list [OF c(1)] obtain as bs where xs: "xs = as @ c # bs" by blast
    with ok(4) c(2) have "p \<in> set as" by (auto simp: parents_first_def)
    then show ?thesis by (simp add: xs)
  qed
  have "links_ok (M |` (- set xs))"
    unfolding links_ok_def child_of_restrict
  proof (intro conjI allI impI)
    show "finite (dom (M |` (- set xs)))" using links_okD(1) [OF ok(1)] by simp
    fix p c assume "p \<notin> set xs \<and> child_of M p c"
    then show "\<exists>lc. (M |` (- set xs)) c = Some lc \<and> lb_parent lc = p"
      using links_okD(4) [OF ok(1)] early by (fastforce simp: restrict_map_def)
  qed (use links_okD(2,3,5) [OF ok(1)] in \<open>auto simp: restrict_map_def split: if_splits\<close>)
  moreover have "parents_first (M |` (- set xs)) ys"
    unfolding parents_first_def child_of_restrict
  proof (intro allI impI)
    fix as c bs p assume ys: "ys = as @ c # bs" and p: "p \<notin> set xs \<and> child_of M p c"
    then have "p \<in> set (xs @ as)" using ok(4) unfolding parents_first_def by (metis append.assoc)
    with p show "p \<in> set as" by simp
  qed
  ultimately show ?thesis using ok(2,3) by (auto simp: queue_ok_def)
qed

lemma live_restrict:
  assumes "live M r x" "\<forall>y. live M r y \<longrightarrow> y \<notin> S"
  shows "live (M |` (- S)) r x"
  using assms(1)
proof induction
  case (step p c)
  with assms(2) show ?case by (auto simp: child_of_restrict intro: rtranclp.rtrancl_into_rtrancl)
qed simp

lemma live_unrestrict: "live (M |` (- S)) r x \<Longrightarrow> live M r x"
  by (induction rule: rtranclp_induct) (auto simp: child_of_restrict intro: rtranclp.rtrancl_into_rtrancl)


subsection \<open>Every operation keeps the tree consistent\<close>

lemma tree_invD:
  assumes "tree_inv tr"
  shows "queue_ok (tr_id_to_block tr) (tr_pruned_block_ids tr)"
    and "links_ok (tr_id_to_block tr)"
    and "\<exists>b. tr_commit_root tr = Some b \<and> bi_round (wli_commit_info (tr_highest_commit_cert tr)) \<le> pb_round b"
    and "tr_id_to_block tr (tr_commit_root_id tr) \<noteq> None"
    and "child_of (tr_id_to_block tr) p (tr_commit_root_id tr) \<Longrightarrow> p \<in> set (tr_pruned_block_ids tr)"
    and "live (tr_id_to_block tr) (tr_commit_root_id tr) x \<Longrightarrow> x \<notin> set (tr_pruned_block_ids tr)"
    and "live (tr_id_to_block tr) (tr_commit_root_id tr) (tr_ordered_root_id tr)"
    and "live (tr_id_to_block tr) (tr_commit_root_id tr) (tr_highest_certified_block_id tr)"
    and "length (tr_pruned_block_ids tr) \<le> tr_max_pruned_blocks_in_mem tr"
  using assms by (auto simp: tree_inv_def Let_def queue_ok_def tr_commit_root_def tr_get_block_def)

lemma queue_ok_append:
  assumes D: "queue_ok M D" and r: "M r \<noteq> None" "\<forall>p. child_of M p r \<longrightarrow> p \<in> set D"
    and fresh: "\<forall>x. live M r x \<longrightarrow> x \<notin> set D" and ps: "prune_inv M n r [] ids"
  shows "queue_ok M (D @ ids)"
proof -
  have ok: "links_ok M" "distinct D" "set D \<subseteq> dom M" "parents_first M D"
    using D by (simp_all add: queue_ok_def)
  have ids: "set ids \<subseteq> dom M" "distinct ids" "\<forall>x \<in> set ids. below_avoiding M n r x"
    "\<forall>xs c ys. ids = xs @ c # ys \<longrightarrow> c = r \<or> (\<exists>p \<in> set xs. child_of M p c)"
    using ps by (simp_all add: prune_inv_def)
  have "set D \<inter> set ids = {}" using ids(3) fresh below_live by fast
  moreover have "parents_first M (D @ ids)"
    unfolding parents_first_def
  proof (intro allI impI)
    fix xs c ys p assume e: "D @ ids = xs @ c # ys" and p: "child_of M p c"
    consider zs where "D = xs @ c # zs" | zs where "xs = D @ zs" "ids = zs @ c # ys"
    proof -
      from e obtain us where "D = xs @ us \<and> us @ ids = c # ys \<or> D @ us = xs \<and> ids = us @ c # ys"
        by (auto simp: append_eq_append_conv2)
      then show thesis using that by (cases us) auto
    qed
    then show "p \<in> set xs"
    proof cases
      case 1
      with ok(4) p show ?thesis by (auto simp: parents_first_def)
    next
      case 2
      with ids(4) have "c = r \<or> (\<exists>q \<in> set zs. child_of M q c)" by blast
      then have "c = r \<or> p \<in> set zs" using child_parent_unique [OF ok(1) p] by metis
      then show ?thesis
      proof
        assume "c = r"
        with r(2) p have "p \<in> set D" by blast
        with 2(1) show ?thesis by simp
      qed (use 2(1) in simp)
    qed
  qed
  ultimately show ?thesis using ok(1-3) ids(1,2) by (simp add: queue_ok_def)
qed

lemma process_pruned_blocks_fields:
  fixes tr ps
  defines "ids \<equiv> tr_pruned_block_ids tr @ map snd ps"
  defines "k \<equiv> length ids - tr_max_pruned_blocks_in_mem tr"
  shows "tr_id_to_block (process_pruned_blocks ps tr) = tr_id_to_block tr |` (- set (take k ids))"
    and "tr_pruned_block_ids (process_pruned_blocks ps tr) = drop k ids"
    and "tr_ordered_root_id (process_pruned_blocks ps tr) = tr_ordered_root_id tr"
    and "tr_highest_certified_block_id (process_pruned_blocks ps tr) = tr_highest_certified_block_id tr"
    and "tr_max_pruned_blocks_in_mem (process_pruned_blocks ps tr) = tr_max_pruned_blocks_in_mem tr"
    and "tr_highest_commit_cert (process_pruned_blocks ps tr) = tr_highest_commit_cert tr"
  by (simp_all add: process_pruned_blocks_def Let_def fold_remove_block ids_def k_def)

text \<open>The tree after the removal of the pruned blocks, seen from the new root.\<close>

lemma prune_to_new_root:
  assumes inv: "tree_inv tr" and root: "tr_commit_root tr = Some root"
    and b: "tr_get_block n tr = Some b" "live (tr_id_to_block tr) (tr_commit_root_id tr) n" "pb_round root < pb_round b"
  shows "\<exists>ps. find_blocks_to_prune n tr = Some ps \<and>
     (let tr1 = process_pruned_blocks ps tr; M = tr_id_to_block tr1; D = tr_pruned_block_ids tr1 in
      queue_ok M D \<and> tr_get_block n tr1 = Some b \<and> (\<forall>p. child_of M p n \<longrightarrow> p \<in> set D) \<and>
      (\<forall>x. live M n x \<longrightarrow> x \<notin> set D) \<and> (\<forall>x. live (tr_id_to_block tr) n x \<longrightarrow> live M n x) \<and>
      length D \<le> tr_max_pruned_blocks_in_mem tr)"
proof -
  let ?M = "tr_id_to_block tr" and ?r = "tr_commit_root_id tr"
  note links = tree_invD(2) [OF inv]
  from find_blocks_to_prune_runs [OF links root b(1,3)] obtain ps
    where ps: "find_blocks_to_prune n tr = Some ps" "prune_inv ?M n ?r [] (map snd ps)" by blast
  define ids where "ids = tr_pruned_block_ids tr @ map snd ps"
  define k where "k = length ids - tr_max_pruned_blocks_in_mem tr"
  note f = process_pruned_blocks_fields [where tr = tr and ps = ps, folded ids_def, folded k_def]
  have q: "queue_ok ?M ids" unfolding ids_def
    using tree_invD(1,4) [OF inv] tree_invD(5,6) [OF inv] ps(2) by (intro queue_ok_append) blast+
  have "\<not> below_avoiding ?M n ?r x" if "live ?M n x" for x
    using below_not_descends [OF links] live_descends [OF links _ that] root b(1,3)
    by (auto simp: tr_commit_root_def tr_get_block_def)
  then have gone: "\<forall>x. live ?M n x \<longrightarrow> x \<notin> set ids"
    using tree_invD(6) [OF inv rtranclp_trans [OF b(2)]] prune_inv_end(1) [OF ps(2)] by (auto simp: ids_def)
  then have gone': "\<forall>x. live ?M n x \<longrightarrow> x \<notin> set (take k ids)" by (meson in_set_takeD)
  have "n \<noteq> ?r" using root b(1,3) by (auto simp: tr_commit_root_def)
  from new_root_parent [OF links tree_invD(4) [OF inv] b(2) this] prune_inv_end(1) [OF ps(2)]
  have "x \<in> set ids" if "child_of ?M x n" for x using that by (auto simp: ids_def)
  then have up: "x \<in> set (drop k ids)" if "child_of ?M x n" "x \<notin> set (take k ids)" for x
    using that by (metis Un_iff append_take_drop_id set_append)
  have "queue_ok (?M |` (- set (take k ids))) (drop k ids)"
    using queue_ok_drop [of ?M "take k ids" "drop k ids"] q by simp
  moreover have "tr_get_block n (process_pruned_blocks ps tr) = Some b"
    using b(1) gone' by (auto simp: f tr_get_block_def restrict_map_def)
  moreover have "\<forall>x. live (?M |` (- set (take k ids))) n x \<longrightarrow> x \<notin> set (drop k ids)"
    using gone live_unrestrict by (meson in_set_dropD)
  moreover have "live (?M |` (- set (take k ids))) n x" if "live ?M n x" for x
    using that gone' by (rule live_restrict)
  ultimately show ?thesis
    using ps(1) up by (auto simp: Let_def f child_of_restrict k_def)
qed

lemma tree_inv_commit:
  assumes inv: "tree_inv tr" and ok: "tree_op_ok L (CommitCallback bs p d) tr"
  shows "\<exists>tr'. commit_callback L bs p d tr = Some tr' \<and> tree_inv tr'"
proof -
  define b where "b = last bs"
  define w where "w = \<lparr>wli_vote_data = wli_vote_data p, wli_signed_ledger_info = d\<rparr>"
  let ?n = "pb_id b" and ?live = "live (tr_id_to_block tr)"
  have b: "bs \<noteq> []" "tr_get_block ?n tr = Some b" "?live (tr_commit_root_id tr) ?n"
    and l: "?live ?n (tr_ordered_root_id tr)" "?live ?n (tr_highest_certified_block_id tr)"
    and d: "x_match_ordered_only L (wli_commit_info p) (li_commit_info (lws_ledger_info d))"
    and w: "bi_id (wli_commit_info w) = ?n" "bi_round (wli_commit_info w) = pb_round b"
    using ok by (simp_all add: b_def Let_def w_def wli_commit_info_def)
  from tree_invD(3) [OF inv] obtain root where root: "tr_commit_root tr = Some root"
    "bi_round (wli_commit_info (tr_highest_commit_cert tr)) \<le> pb_round root" by blast
  show ?thesis
  proof (cases "pb_round b \<le> pb_round root")
    case True
    with inv b(1) root show ?thesis by (simp add: commit_callback_def b_def Let_def)
  next
    case False
    then have less: "pb_round root < pb_round b" by simp
    from prune_to_new_root [OF inv root(1) b(2,3) less] obtain ps where ps: "find_blocks_to_prune ?n tr = Some ps"
      and tr1: "let tr1 = process_pruned_blocks ps tr; M = tr_id_to_block tr1; D = tr_pruned_block_ids tr1 in
        queue_ok M D \<and> tr_get_block ?n tr1 = Some b \<and> (\<forall>p. child_of M p ?n \<longrightarrow> p \<in> set D) \<and>
        (\<forall>x. live M ?n x \<longrightarrow> x \<notin> set D) \<and> (\<forall>x. ?live ?n x \<longrightarrow> live M ?n x) \<and>
        length D \<le> tr_max_pruned_blocks_in_mem tr" by blast
    let ?tr1 = "process_pruned_blocks ps tr"
    note f = process_pruned_blocks_fields(3-) [where tr = tr and ps = ps]
    let ?fin = "(if \<not> pb_is_nil b then ?tr1\<lparr>tr_highest_commit_cert := w, tr_finalized_block_id := ?n\<rparr>
                 else ?tr1\<lparr>tr_highest_commit_cert := w\<rparr>)\<lparr>tr_commit_root_id := ?n\<rparr>"
    have "pb_round b > bi_round (wli_commit_info (tr_highest_commit_cert ?tr1))" using less root(2) f by simp
    moreover have "tr_get_block ?n (?tr1\<lparr>tr_highest_commit_cert := w\<rparr>) = Some b"
      using tr1 by (simp add: Let_def tr_get_block_def)
    ultimately have "update_highest_commit_cert w ?tr1 = Some ?fin"
      using w by (simp add: update_highest_commit_cert_def update_commit_and_finalized_root_def)
    then have "commit_callback L bs p d tr = Some ?fin"
      using b(1) d root(1) False ps
      by (simp add: commit_callback_def b_def [symmetric] w_def [symmetric]
          wli_create_merged_with_executed_state_def ensure_def)
    moreover have "tree_inv ?fin"
      using tr1 l w f by (auto simp: tree_inv_def Let_def tr_commit_root_def tr_get_block_def)
    ultimately show ?thesis by blast
  qed
qed


text \<open>The links after a new block is inserted.\<close>

definition attach :: "pipelined_block \<Rightarrow> block_map \<Rightarrow> block_map" where
  "attach b M =
     (case M (pb_parent_id b) of
        Some lp \<Rightarrow> M(pb_parent_id b \<mapsto> lp\<lparr>lb_children := lb_children lp @ [pb_id b]\<rparr>, pb_id b \<mapsto> linkable_new b)
      | None \<Rightarrow> M(pb_id b \<mapsto> linkable_new b))"

definition block_fits :: "pipelined_block \<Rightarrow> block_map \<Rightarrow> bool" where
  "block_fits b M \<longleftrightarrow> M (pb_id b) = None \<and> pb_parent_id b \<noteq> pb_id b \<and>
     (\<forall>lp. M (pb_parent_id b) = Some lp \<longrightarrow> lb_round lp < pb_round b) \<and>
     (\<forall>i lc. M i = Some lc \<longrightarrow> lb_parent lc = pb_id b \<longrightarrow> pb_round b < lb_round lc)"

lemma attach_block:
  assumes "block_fits b M"
  shows "map_option lb_executed_block (attach b M i) =
     (if i = pb_id b then Some b else map_option lb_executed_block (M i))"
  using assms by (auto simp: attach_def block_fits_def linkable_new_def split: option.split)

lemma child_of_attach:
  assumes "block_fits b M"
  shows "child_of (attach b M) p c \<longleftrightarrow>
     child_of M p c \<or> M (pb_parent_id b) \<noteq> None \<and> p = pb_parent_id b \<and> c = pb_id b"
  using assms by (auto simp: attach_def block_fits_def child_of_def linkable_new_def split: option.split if_splits)

lemma links_ok_attach:
  assumes ok: "links_ok M" and b: "block_fits b M"
  shows "links_ok (attach b M)"
proof -
  have in_M: "i = pb_id b \<and> lb_executed_block l = b \<or>
      (\<exists>l0. M i = Some l0 \<and> i \<noteq> pb_id b \<and> lb_executed_block l = lb_executed_block l0)"
    if "attach b M i = Some l" for i l
    using attach_block [OF b, of i] that by (cases "M i"; cases "i = pb_id b") auto
  have fresh: "\<not> child_of M p (pb_id b)" for p
    using links_okD(4) [OF ok, of p "pb_id b"] b by (auto simp: block_fits_def)
  show ?thesis unfolding links_ok_def
  proof (intro conjI allI impI)
    have "dom (attach b M) \<subseteq> insert (pb_id b) (dom M)" by (auto simp: attach_def split: option.splits if_splits)
    then show "finite (dom (attach b M))" using links_okD(1) [OF ok] by (simp add: finite_subset)
    fix i l assume i: "attach b M i = Some l"
    show "lb_id l = i" using in_M [OF i] links_okD(2) [OF ok] by auto
    show "distinct (lb_children l)"
      using i links_okD(3) [OF ok] fresh
      by (auto simp: attach_def linkable_new_def child_of_def split: option.splits if_splits)
  next
    fix p c assume "child_of (attach b M) p c"
    then have "child_of M p c \<or> p = pb_parent_id b \<and> c = pb_id b" using child_of_attach [OF b] by blast
    then show "\<exists>lc. attach b M c = Some lc \<and> lb_parent lc = p"
      using links_okD(4) [OF ok, of p c] attach_block [OF b, of c] fresh [of p] by (cases "c = pb_id b") auto
  next
    fix p lp c lc assume p: "attach b M p = Some lp" and c: "attach b M c = Some lc" and pc: "lb_parent lc = p"
    have "pb_parent_id b \<noteq> pb_id b" "\<forall>l. M (pb_parent_id b) = Some l \<longrightarrow> lb_round l < pb_round b"
      "\<forall>i l. M i = Some l \<longrightarrow> lb_parent l = pb_id b \<longrightarrow> pb_round b < lb_round l"
      using b by (auto simp: block_fits_def)
    then show "lb_round lp < lb_round lc"
      using in_M [OF p] in_M [OF c] pc links_okD(5) [OF ok, of p _ c] by auto
  qed
qed

lemma live_attach: "block_fits b M \<Longrightarrow> live M r x \<Longrightarrow> live (attach b M) r x"
  by (erule rtranclp_mono [THEN predicate2D, rotated]) (simp add: le_fun_def child_of_attach)

lemma live_attach_dest:
  assumes "block_fits b M" "live (attach b M) r x"
  shows "live M r x \<or> x = pb_id b"
  using assms(2)
proof induction
  case (step p c)
  have "\<not> child_of M (pb_id b) c" using assms(1) by (simp add: child_of_def block_fits_def)
  moreover have "pb_parent_id b \<noteq> pb_id b" using assms(1) by (simp add: block_fits_def)
  ultimately show ?case
    using step child_of_attach [OF assms(1), of p c] by (auto intro: rtranclp.rtrancl_into_rtrancl)
qed simp

lemma tree_inv_attach:
  assumes inv: "tree_inv tr" and b: "block_fits b (tr_id_to_block tr)"
  shows "tree_inv (tr\<lparr>tr_id_to_block := attach b (tr_id_to_block tr)\<rparr>)"
proof -
  let ?M = "tr_id_to_block tr" and ?D = "tr_pruned_block_ids tr" and ?r = "tr_commit_root_id tr"
  have q: "distinct ?D" "set ?D \<subseteq> dom ?M" "parents_first ?M ?D" using tree_invD(1) [OF inv] by (simp_all add: queue_ok_def)
  have new: "?M (pb_id b) = None" using b by (simp add: block_fits_def)
  then have notin: "pb_id b \<notin> set ?D" "pb_id b \<noteq> ?r" using q(2) tree_invD(4) [OF inv] by auto
  have dom: "i \<in> dom ?M \<Longrightarrow> attach b ?M i \<noteq> None" for i
    using attach_block [OF b, of i] by (auto split: if_splits)
  have "parents_first (attach b ?M) ?D"
    using q(3) notin(1) child_of_attach [OF b] unfolding parents_first_def by fastforce
  then have "queue_ok (attach b ?M) ?D"
    using links_ok_attach [OF tree_invD(2) [OF inv] b] q(1,2) dom by (auto simp: queue_ok_def dom_def)
  moreover have "\<forall>p. child_of (attach b ?M) p ?r \<longrightarrow> p \<in> set ?D"
    using notin(2) child_of_attach [OF b] tree_invD(5) [OF inv] by auto
  moreover have "\<forall>x. live (attach b ?M) ?r x \<longrightarrow> x \<notin> set ?D"
    using live_attach_dest [OF b] notin(1) tree_invD(6) [OF inv] by blast
  moreover have "attach b ?M ?r \<noteq> None" using dom tree_invD(4) [OF inv] by auto
  moreover have "map_option lb_executed_block (attach b ?M ?r) = tr_commit_root tr"
    using attach_block [OF b, of ?r] notin(2) by (simp add: tr_commit_root_def tr_get_block_def)
  ultimately show ?thesis
    using tree_invD(3,7-9) [OF inv] live_attach [OF b]
    by (auto simp: tree_inv_def Let_def tr_commit_root_def tr_get_block_def)
qed


lemma tree_inv_insert:
  assumes inv: "tree_inv tr" and ok: "tree_op_ok L (InsertBlock b) tr"
  shows "\<exists>r tr'. tree_insert_block L b tr = Some (r, tr') \<and> tree_inv tr'"
proof -
  define tr1 where "tr1 = (if \<not> pb_is_nil b then tr\<lparr>tr_head_block_id := pb_id b\<rparr> else tr)"
  have same: "tr_id_to_block tr1 = tr_id_to_block tr" by (simp add: tr1_def)
  have inv1: "tree_inv tr1" using inv by (simp add: tree_inv_def tr1_def tr_commit_root_def tr_get_block_def Let_def)
  show ?thesis
  proof (cases "tr_get_block (pb_id b) tr")
    case (Some b')
    with ok have "tree_insert_block L b tr = Some (Inr b', tr1)"
      by (auto simp: tree_insert_block_def tr1_def tr_get_block_def Let_def)
    with inv1 show ?thesis by blast
  next
    case None
    then have b: "block_fits b (tr_id_to_block tr1)" using ok by (simp add: block_fits_def same tr_get_block_def)
    then have no_child: "\<not> child_of (tr_id_to_block tr1) (pb_parent_id b) (pb_id b)"
      using links_okD(4) [OF tree_invD(2) [OF inv1]] by (fastforce simp: block_fits_def)
    have "\<exists>r. tree_insert_block L b tr = Some (r, tr1) \<or>
        tree_insert_block L b tr = Some (r, tr1\<lparr>tr_id_to_block := attach b (tr_id_to_block tr1)\<rparr>)"
      using None no_child
      by (cases "pb_is_nil b"; cases "tr_id_to_block tr (pb_parent_id b)")
        (auto simp: tree_insert_block_def tr1_def Let_def tr_get_block_def add_child_def attach_def child_of_def)
    with inv1 tree_inv_attach [OF inv1 b] show ?thesis by blast
  qed
qed

lemma tree_inv_fields:
  assumes "tree_inv tr" "tr_id_to_block tr' = tr_id_to_block tr"
    "tr_pruned_block_ids tr' = tr_pruned_block_ids tr" "tr_commit_root_id tr' = tr_commit_root_id tr"
    "tr_max_pruned_blocks_in_mem tr' = tr_max_pruned_blocks_in_mem tr"
    "tr_highest_commit_cert tr' = tr_highest_commit_cert tr"
    "live (tr_id_to_block tr) (tr_commit_root_id tr) (tr_ordered_root_id tr')"
    "live (tr_id_to_block tr) (tr_commit_root_id tr) (tr_highest_certified_block_id tr')"
  shows "tree_inv tr'"
  using assms by (simp add: tree_inv_def Let_def tr_commit_root_def tr_get_block_def)

lemma live_exists:
  assumes "tree_inv tr" "live (tr_id_to_block tr) (tr_commit_root_id tr) x"
  shows "tr_block_exists x tr"
  using descends_round [OF tree_invD(2) [OF assms(1)] live_descends [OF tree_invD(2,4) [OF assms(1)] assms(2)]]
  by (auto simp: tr_block_exists_def)

lemma tree_inv_insert_qc:
  assumes inv: "tree_inv tr" and ok: "tree_op_ok L (InsertQuorumCert qc) tr"
  shows "\<exists>r tr'. tree_insert_quorum_cert qc tr = Some (r, tr') \<and> tree_inv tr'"
proof (cases "tr_get_block (bi_id (certified_block qc)) tr")
  case None
  with inv show ?thesis by (simp add: tree_insert_quorum_cert_def)
next
  case (Some b)
  have id: "pb_id b = bi_id (certified_block qc)"
    using Some links_okD(2) [OF tree_invD(2) [OF inv]] by (auto simp: tr_get_block_def)
  have l: "live (tr_id_to_block tr) (tr_commit_root_id tr) (pb_id b)"
    using ok Some by (auto simp: id tr_block_exists_def tr_get_block_def)
  from live_exists [OF inv tree_invD(8) [OF inv]] obtain h where h: "tr_highest_certified_block tr = Some h"
    by (auto simp: tr_highest_certified_block_def tr_block_exists_def tr_get_block_def)
  define tr' where "tr' = snd (the (tree_insert_quorum_cert qc tr))"
  have "tree_insert_quorum_cert qc tr = Some (Inr (), tr')"
    using Some h by (simp add: tr'_def tree_insert_quorum_cert_def Let_def)
  moreover have "tree_inv tr'"
    by (rule tree_inv_fields [OF inv])
      (use Some h l tree_invD(7,8) [OF inv] in \<open>auto simp: tr'_def tree_insert_quorum_cert_def Let_def\<close>)
  ultimately show ?thesis by blast
qed

lemma tree_step_ok:
  assumes inv: "tree_inv tr" and ok: "tree_op_ok L op tr"
  shows "\<exists>tr'. tree_step L op tr = Some tr' \<and> tree_inv tr'"
proof (cases op)
  case (InsertBlock b)
  show ?thesis using tree_inv_insert [OF inv ok [unfolded InsertBlock]] unfolding InsertBlock
    by (elim exE conjE) simp
next
  case (InsertQuorumCert qc)
  show ?thesis using tree_inv_insert_qc [OF inv ok [unfolded InsertQuorumCert]] unfolding InsertQuorumCert
    by (elim exE conjE) simp
next
  case (InsertOrderedCert w)
  have "tree_inv (insert_ordered_cert w tr)"
    by (rule tree_inv_fields [OF inv]) (use tree_invD(7,8) [OF inv] in \<open>auto simp: insert_ordered_cert_def\<close>)
  with InsertOrderedCert show ?thesis by simp
next
  case (Replace2ChainTimeoutCert tc)
  have "tree_inv (replace_2chain_timeout_cert tc tr)"
    by (rule tree_inv_fields [OF inv]) (use tree_invD(7,8) [OF inv] in \<open>auto simp: replace_2chain_timeout_cert_def\<close>)
  with Replace2ChainTimeoutCert show ?thesis by simp
next
  case (UpdateOrderedRoot i)
  with ok have l: "live (tr_id_to_block tr) (tr_commit_root_id tr) i" by simp
  have "tree_inv (tr\<lparr>tr_ordered_root_id := i\<rparr>)"
    by (rule tree_inv_fields [OF inv]) (use l tree_invD(8) [OF inv] in auto)
  with UpdateOrderedRoot live_exists [OF inv l] show ?thesis by (simp add: update_ordered_root_def)
next
  case (CommitCallback bs p d)
  show ?thesis using tree_inv_commit [OF inv ok [unfolded CommitCallback]] unfolding CommitCallback
    by (simp only: tree_step.simps)
qed

lemma tree_inv_new:
  assumes "tree_new root qc oc cc m tc = Some tr" "bi_round (wli_commit_info cc) \<le> pb_round root"
    "pb_parent_id root \<noteq> pb_id root"
  shows "tree_inv tr"
proof -
  let ?M = "[pb_id root \<mapsto> linkable_new root]"
  have c: "\<not> child_of ?M p c" for p c by (simp add: child_of_def linkable_new_def)
  then have "links_ok ?M" using assms(3) by (auto simp: links_ok_def linkable_new_def split: if_splits)
  then have "tree_inv \<lparr>tr_id_to_block = ?M, tr_ordered_root_id = pb_id root, tr_commit_root_id = pb_id root,
      tr_highest_certified_block_id = pb_id root, tr_head_block_id = pb_id root, tr_safe_block_id = pb_id root,
      tr_finalized_block_id = pb_id root, tr_highest_quorum_cert = qc, tr_highest_2chain_timeout_cert = tc,
      tr_highest_ordered_cert = oc, tr_highest_commit_cert = cc,
      tr_id_to_quorum_cert = [bi_id (certified_block qc) \<mapsto> qc],
      tr_pruned_block_ids = [], tr_max_pruned_blocks_in_mem = m\<rparr>"
    using assms(2) c by (simp add: tree_inv_def queue_ok_def parents_first_def tr_commit_root_def tr_get_block_def linkable_new_def)
  with assms(1) show ?thesis by (auto simp: tree_new_def split: if_splits)
qed

lemma tree_reach_inv: "tree_reach L tr0 tr \<Longrightarrow> tree_inv tr0 \<Longrightarrow> tree_inv tr"
proof (induction rule: tree_reach.induct)
  case (step tr op tr')
  with tree_step_ok [of tr L op] show ?case by auto
qed



section \<open>An example\<close>

text \<open>A tree with the root (round 1, id 2), two children of it (rounds 2 and 3) and a block of
  round 4 on top of the first.\<close>

definition ex_pb :: "round \<Rightarrow> round \<Rightarrow> pipelined_block" where
  "ex_pb r p = new_ordered example_laptos
     (block_of_data example_laptos (bd_new_proposal (DirectMempool []) 0 [] r 0 (ex_qc 1 p (p - 1) 1)) None)"

definition ex_wli :: "round \<Rightarrow> wrapped_ledger_info" where
  "ex_wli r = \<lparr>wli_vote_data = ex_vote_data 1 r r,
     wli_signed_ledger_info = \<lparr>lws_ledger_info = \<lparr>li_commit_info = ex_block_info 1 r, li_consensus_data_hash = 0, li_block = None\<rparr>,
       lws_signatures = 1\<rparr>\<rparr>"

lemma ex_pb_simps [simp]:
  "pb_id (ex_pb r p) = Suc (unat r)" "pb_parent_id (ex_pb r p) = Suc (unat p)" "pb_round (ex_pb r p) = r"
  "pb_epoch (ex_pb r p) = 1" "\<not> pb_is_nil (ex_pb r p)"
  by (simp_all add: ex_pb_def new_ordered_def pb_new_def block_of_data_def bd_new_proposal_def bk_parent_id_def
      bd_parent_id_def bk_round_def bk_epoch_def ex_qc_def ex_vote_data_def ex_block_info_def
      block_info_new_def certified_block_def)

lemma ex_wli_simps [simp]:
  "wli_commit_info (ex_wli r) = ex_block_info 1 r" "wli_signed_ledger_info (ex_wli r) =
     \<lparr>lws_ledger_info = \<lparr>li_commit_info = ex_block_info 1 r, li_consensus_data_hash = 0, li_block = None\<rparr>, lws_signatures = 1\<rparr>"
  "bi_id (ex_block_info e r) = Suc (unat r)" "bi_round (ex_block_info e r) = r"
  by (simp_all add: ex_wli_def wli_commit_info_def ex_block_info_def block_info_new_def)

definition ex_tree_new :: block_tree where
  "ex_tree_new = the (tree_new (ex_pb 1 0) (ex_qc 1 1 0 1) (ex_wli 1) (ex_wli 1) 1 None)"

definition ex_tree_ops :: "tree_op list" where
  "ex_tree_ops = [InsertBlock (ex_pb 2 1), InsertBlock (ex_pb 3 1), InsertBlock (ex_pb 4 2)]"

definition ex_tree_map :: block_map where
  "ex_tree_map = [2 \<mapsto> \<lparr>lb_executed_block = ex_pb 1 0, lb_children = [3, 4]\<rparr>,
     3 \<mapsto> \<lparr>lb_executed_block = ex_pb 2 1, lb_children = [5]\<rparr>,
     4 \<mapsto> \<lparr>lb_executed_block = ex_pb 3 1, lb_children = []\<rparr>,
     5 \<mapsto> \<lparr>lb_executed_block = ex_pb 4 2, lb_children = []\<rparr>]"

definition ex_tree :: block_tree where
  "ex_tree = ex_tree_new\<lparr>tr_id_to_block := ex_tree_map, tr_head_block_id := 5\<rparr>"

lemma ex_tree_reach: "tree_reach example_laptos ex_tree_new ex_tree"
proof -
  let ?s = "tree_step example_laptos"
  let ?t1 = "the (?s (InsertBlock (ex_pb 2 1)) ex_tree_new)"
  let ?t2 = "the (?s (InsertBlock (ex_pb 3 1)) ?t1)"
  note defs = tree_insert_block_def ex_tree_new_def tree_new_def tr_get_block_def Let_def linkable_new_def add_child_def
  have "tree_reach example_laptos ex_tree_new ?t1"
    by (rule tree_reach.step [OF tree_reach.start, where op = "InsertBlock (ex_pb 2 1)"]) (auto simp: defs)
  then have "tree_reach example_laptos ex_tree_new ?t2"
    by (rule tree_reach.step [where op = "InsertBlock (ex_pb 3 1)"]) (auto simp: defs)
  then show ?thesis
    by (rule tree_reach.step [where op = "InsertBlock (ex_pb 4 2)"]) (auto simp: defs ex_tree_def ex_tree_map_def)
qed


lemma ex_tree_facts:
  "tree_new (ex_pb 1 0) (ex_qc 1 1 0 1) (ex_wli 1) (ex_wli 1) 1 None = Some ex_tree_new"
  "tr_id_to_block ex_tree = ex_tree_map" "tr_commit_root_id ex_tree = 2" "tr_commit_root ex_tree = Some (ex_pb 1 0)"
  by (simp_all add: ex_tree_def ex_tree_new_def tree_new_def tr_commit_root_def tr_get_block_def ex_tree_map_def)

lemma ex_tree_inv: "tree_inv ex_tree"
  by (rule tree_reach_inv [OF ex_tree_reach tree_inv_new [OF ex_tree_facts(1)]]) simp_all

lemma ex_prune: "find_blocks_to_prune 3 ex_tree = Some [(1, 2), (1, 4)]"
  by (simp add: find_blocks_to_prune_def linkable_root_def ex_tree_facts tr_get_block_def ex_tree_map_def
      prune_loop.simps word_le_nat_alt)

lemma ex_path: "path_from_commit_root 5 ex_tree = Some (Some [ex_pb 2 1, ex_pb 4 2])"
  by (simp add: path_from_commit_root_def path_from_root_to_block_def ex_tree_facts tr_get_block_def ex_tree_map_def
      path_loop.simps word_le_nat_alt)

theorem prune_exact_witness:
  "{x. below_avoiding (tr_id_to_block ex_tree) 3 2 x} = {2, 4}"
proof -
  have b: "tr_get_block 3 ex_tree = Some (ex_pb 2 1)" by (simp add: tr_get_block_def ex_tree_facts ex_tree_map_def)
  have "pb_round (ex_pb 1 0) < pb_round (ex_pb 2 1)" by simp
  from prune_exact [OF tree_invD(2) [OF ex_tree_inv] ex_tree_facts(4) b this]
  show ?thesis by (auto simp: ex_prune ex_tree_facts(3))
qed


definition ex_tree_ordered :: block_tree where
  "ex_tree_ordered = ex_tree\<lparr>tr_safe_block_id := 5, tr_highest_certified_block_id := 5,
     tr_highest_quorum_cert := ex_qc 1 4 2 3,
     tr_id_to_quorum_cert := (tr_id_to_quorum_cert ex_tree)(5 \<mapsto> ex_qc 1 4 2 3), tr_ordered_root_id := 3\<rparr>"

lemma ex_live: "live ex_tree_map 2 3" "live ex_tree_map 3 5" "live ex_tree_map 2 5"
proof -
  have c: "child_of ex_tree_map 2 3" "child_of ex_tree_map 3 5" by (simp_all add: child_of_def ex_tree_map_def)
  then show "live ex_tree_map 2 3" "live ex_tree_map 3 5" by blast+
  then show "live ex_tree_map 2 5" by (rule rtranclp_trans)
qed

lemma ex_tree_ordered_reach: "tree_reach example_laptos ex_tree_new ex_tree_ordered"
proof -
  let ?qc = "ex_qc 1 4 2 3"
  have q: "bi_id (certified_block ?qc) = 5" "bi_round (qc_commit_info ?qc) = 0"
    by (simp_all add: ex_qc_def ex_vote_data_def certified_block_def qc_commit_info_def block_info_new_def)
  let ?t = "ex_tree\<lparr>tr_safe_block_id := 5, tr_highest_certified_block_id := 5, tr_highest_quorum_cert := ?qc,
    tr_id_to_quorum_cert := (tr_id_to_quorum_cert ex_tree)(5 \<mapsto> ?qc)\<rparr>"
  have s: "tree_op_ok example_laptos (InsertQuorumCert ?qc) ex_tree" by (simp add: q ex_live ex_tree_facts)
  have "tree_step example_laptos (InsertQuorumCert ?qc) ex_tree = Some ?t"
    by (simp add: q tree_insert_quorum_cert_def Let_def tr_get_block_def ex_tree_map_def
        tr_highest_certified_block_def ex_tree_def ex_tree_new_def tree_new_def)
      (simp add: ex_qc_def ex_vote_data_def certified_block_def)
  from tree_reach.step [OF ex_tree_reach s this] have r: "tree_reach example_laptos ex_tree_new ?t" .
  have "tree_op_ok example_laptos (UpdateOrderedRoot 3) ?t" by (simp add: ex_live ex_tree_facts)
  then show ?thesis
    by (rule tree_reach.step [OF r])
      (simp add: update_ordered_root_def tr_block_exists_def ex_tree_facts ex_tree_map_def ex_tree_ordered_def)
qed


text \<open>
  C34. A block with an unknown parent is rejected, but the tree has already made it the head: the
  head then points to a block that is not in the tree, and \<open>is_head_block_payload_none\<close> panics.
\<close>

theorem rejected_block_becomes_head:
  assumes "\<not> tr_block_exists (pb_id b) tr" "\<not> tr_block_exists (pb_parent_id b) tr"
    and "pb_parent_id b \<noteq> x_genesis_block_id L" "\<not> pb_is_nil b"
  shows "\<exists>e tr'. tree_insert_block L b tr = Some (Inl e, tr') \<and> tr_id_to_block tr' = tr_id_to_block tr \<and>
     tr_head_block_id tr' = pb_id b \<and> is_head_block_payload_none tr' = None"
  using assms
  by (auto simp: tree_insert_block_def tr_block_exists_def tr_get_block_def Let_def is_head_block_payload_none_def
      payload_none_at_def)

theorem rejected_block_becomes_head_witness:
  "\<exists>e tr'. tree_insert_block example_laptos (ex_pb 9 7) ex_tree = Some (Inl e, tr') \<and> is_head_block_payload_none tr' = None"
  using rejected_block_becomes_head [of "ex_pb 9 7" ex_tree example_laptos]
  by (auto simp: tr_block_exists_def ex_tree_facts ex_tree_map_def)

end
