(* ===== verification/Block_Buffer.thy ===== *)
theory Block_Buffer
  imports Pipelined_Block
begin

text \<open>
  The block buffer manager (crates/block-buffer-manager/src/block\_buffer\_manager.rs), through
  which consensus hands ordered blocks to the execution layer and gets results back, and through
  which both change epochs. Every method locks the state machine once per attempt, so an attempt is
  one atomic step on the state; a method that has to wait returns \<open>Pending\<close> and is called again
  with the time that has passed, and calls of other methods may come in between. A panic (integer
  overflow) is \<open>None\<close>. Channels are numbered in the order in which they are created. The wake-up
  channel and the profile, whose times are only logged, are left out.
\<close>

section \<open>State\<close>

type_synonym block_id = nat

type_synonym block_hash = nat

record txn_item =
  ti_txns :: "signed_txn list"
  ti_gas_limit :: u64
  ti_insert_time :: nat

record external_block =
  xb_block_id :: block_id
  xb_block_number :: u64
  xb_usecs :: u64
  xb_epoch :: u64
  xb_txns :: "signed_txn list"

record block_hash_ref =
  bhr_block_id :: block_id
  bhr_num :: u64
  bhr_hash :: "block_hash option"
  bhr_persist_notifier :: "nat option"

record block_key =
  key_epoch :: u64
  key_block_number :: u64

definition block_key_new :: "u64 \<Rightarrow> u64 \<Rightarrow> block_key" where
  "block_key_new epoch block_number = \<lparr>key_epoch = epoch, key_block_number = block_number\<rparr>"

datatype block_state =
  Ordered external_block block_id u64
| Computed block_id state_compute_result
| Committed "block_hash option" state_compute_result block_id "nat option"
| Historical block_id

fun get_block_id :: "block_state \<Rightarrow> block_id" where
  "get_block_id (Ordered b _ _) = xb_block_id b"
| "get_block_id (Computed i _) = i"
| "get_block_id (Committed _ _ i _) = i"
| "get_block_id (Historical i) = i"

datatype buffer_state = Uninitialized | BufferReady | EpochChange

record epoch_change_cache =
  ec_epoch_block_info :: epoch_block_info
  ec_epoch_state :: epoch_state

record block_state_machine =
  bsm_blocks :: "(block_key \<times> block_state) list"
  bsm_latest_commit_block_number :: u64
  bsm_latest_finalized_block_number :: u64
  bsm_block_number_to_block_id :: "(u64 \<times> block_id) list"
  bsm_current_epoch :: u64
  bsm_next_epoch :: "u64 option"
  bsm_latest_epoch_change_block_number :: u64
  bsm_epoch_change_block_info :: "epoch_change_cache option"
  bsm_epoch_change_ready :: bool

record buffer_config =
  cfg_max_wait_timeout :: int
  cfg_max_block_size :: nat

definition buffer_config_default :: buffer_config where
  "buffer_config_default = \<lparr>cfg_max_wait_timeout = 5000000000, cfg_max_block_size = 256\<rparr>"

record block_buffer =
  bb_txns :: "txn_item list"
  bb_bsm :: block_state_machine
  bb_state :: buffer_state
  bb_config :: buffer_config
  bb_channels :: nat

datatype 'a poll = Pending | Ready 'a

text \<open>The decoding of a validator set: \<open>bcs::from_bytes\<close> and \<open>convert_validator_set\<close> of
  \<open>laptos\<close>.\<close>

record validator_set_codec =
  vc_from_bytes :: "nat \<Rightarrow> string + nat"
  vc_convert_validator_set :: "nat \<Rightarrow> string + validator_verifier"

definition bsm_get :: "block_state_machine \<Rightarrow> u64 \<Rightarrow> u64 \<Rightarrow> block_state option" where
  "bsm_get s epoch block_num = map_of (bsm_blocks s) (block_key_new epoch block_num)"

definition bsm_put :: "u64 \<Rightarrow> u64 \<Rightarrow> block_state \<Rightarrow> block_state_machine \<Rightarrow> block_state_machine" where
  "bsm_put epoch block_num st s =
     s\<lparr>bsm_blocks := al_insert (block_key_new epoch block_num) st (bsm_blocks s)\<rparr>"

definition is_suffix_block :: "block_state_machine \<Rightarrow> u64 \<Rightarrow> bool" where
  "is_suffix_block s block_num =
     (case bsm_epoch_change_block_info s of
        None \<Rightarrow> False
      | Some cache \<Rightarrow> block_num > ebi_block_number (ec_epoch_block_info cache))"

definition is_stale_commit_after_epoch_change :: "block_state_machine \<Rightarrow> u64 \<Rightarrow> u64 \<Rightarrow> bool" where
  "is_stale_commit_after_epoch_change s epoch block_num \<longleftrightarrow>
     epoch < bsm_current_epoch s \<or>
     (case bsm_epoch_change_block_info s of
        None \<Rightarrow> False
      | Some cache \<Rightarrow>
          epoch = bsm_current_epoch s \<and> block_num > ebi_block_number (ec_epoch_block_info cache))"

definition bb_new :: "buffer_config \<Rightarrow> block_buffer" where
  "bb_new config =
     \<lparr>bb_txns = [],
      bb_bsm =
        \<lparr>bsm_blocks = [], bsm_latest_commit_block_number = 0, bsm_latest_finalized_block_number = 0,
         bsm_block_number_to_block_id = [], bsm_current_epoch = 0, bsm_next_epoch = None,
         bsm_latest_epoch_change_block_number = 0, bsm_epoch_change_block_info = None,
         bsm_epoch_change_ready = False\<rparr>,
      bb_state = Uninitialized, bb_config = config, bb_channels = 0\<rparr>"

section \<open>Start and cleanup\<close>

definition remove_committed_blocks :: "block_buffer \<Rightarrow> block_buffer" where
  "remove_committed_blocks m =
     (let s = bb_bsm m in
      if length (bsm_blocks s) < cfg_max_block_size (bb_config m) then m
      else
        m\<lparr>bb_bsm := s\<lparr>bsm_blocks :=
             filter (\<lambda>(key, _). key_block_number key \<ge> bsm_latest_finalized_block_number s) (bsm_blocks s)\<rparr>\<rparr>)"

definition bb_init ::
  "u64 \<Rightarrow> (u64 \<times> u64 \<times> block_id) list \<Rightarrow> u64 \<Rightarrow> block_buffer \<Rightarrow> (string + unit) \<times> block_buffer" where
  "bb_init latest_commit ids initial_epoch m =
     (case (if ids = []
            then (if latest_commit > 0 then Inl ''requires a non-empty map'' else Inr None)
            else (case map_of ids latest_commit of
                    None \<Rightarrow> Inl ''latest_commit_block_number not found''
                  | Some x \<Rightarrow> Inr (Some x))) of
        Inl e \<Rightarrow> (Inl e, m)
      | Inr commit_block \<Rightarrow>
          let s = (bb_bsm m)
                \<lparr>bsm_latest_commit_block_number := latest_commit,
                 bsm_latest_finalized_block_number := latest_commit,
                 bsm_block_number_to_block_id := map (\<lambda>(n, _, i). (n, i)) ids,
                 bsm_current_epoch := initial_epoch\<rparr>;
              s = (case commit_block of
                     None \<Rightarrow> s
                   | Some (e, i) \<Rightarrow>
                       (bsm_put e latest_commit (Historical i) s)\<lparr>bsm_latest_epoch_change_block_number := 0\<rparr>)
          in (Inr (), m\<lparr>bb_bsm := s, bb_state := BufferReady\<rparr>))"

definition init_epoch :: "u64 \<Rightarrow> block_buffer \<Rightarrow> block_buffer" where
  "init_epoch epoch m = m\<lparr>bb_bsm := (bb_bsm m)\<lparr>bsm_current_epoch := epoch\<rparr>\<rparr>"

definition is_ready :: "block_buffer \<Rightarrow> bool" where
  "is_ready m \<longleftrightarrow> bb_state m \<noteq> Uninitialized"

definition is_epoch_change :: "block_buffer \<Rightarrow> bool" where
  "is_epoch_change m \<longleftrightarrow> bb_state m = EpochChange"

section \<open>Transactions\<close>

definition push_txns :: "nat \<Rightarrow> signed_txn list \<Rightarrow> u64 \<Rightarrow> block_buffer \<Rightarrow> block_buffer" where
  "push_txns now txns gas_limit m =
     m\<lparr>bb_txns := bb_txns m @ [\<lparr>ti_txns = txns, ti_gas_limit = gas_limit, ti_insert_time = now\<rparr>]\<rparr>"

text \<open>The index of the first item that does not fit; the sum of the gas limits is a checked
  \<open>u64\<close> addition.\<close>

fun split_point :: "nat \<Rightarrow> u64 \<Rightarrow> u64 \<Rightarrow> nat \<Rightarrow> txn_item list \<Rightarrow> nat option" where
  "split_point max_size gas_limit total_gas_limit cnt [] = Some 0"
| "split_point max_size gas_limit total_gas_limit cnt (item # items) =
     (case checked_add total_gas_limit (ti_gas_limit item) of
        None \<Rightarrow> None
      | Some t \<Rightarrow>
          if t > gas_limit \<or> cnt \<ge> max_size then Some 0
          else map_option Suc (split_point max_size gas_limit t (Suc cnt) items))"

definition pop_txns :: "nat \<Rightarrow> u64 \<Rightarrow> block_buffer \<Rightarrow> (signed_txn list \<times> block_buffer) option" where
  "pop_txns max_size gas_limit m =
     map_option (\<lambda>split.
       let n = (if split = 0 \<and> bb_txns m \<noteq> [] \<and> max_size > 0 then 1 else split)
       in (concat (map ti_txns (take n (bb_txns m))), m\<lparr>bb_txns := drop n (bb_txns m)\<rparr>))
     (split_point max_size gas_limit 0 0 (bb_txns m))"

section \<open>Ordered blocks\<close>

definition set_ordered_blocks ::
  "block_id \<Rightarrow> external_block \<Rightarrow> u64 \<Rightarrow> block_buffer \<Rightarrow> (string + unit) poll \<times> block_buffer" where
  "set_ordered_blocks parent_id b round m =
     (if \<not> is_ready m then (Pending, m)
      else
        let s = bb_bsm m; epoch = xb_epoch b; block_num = xb_block_number b in
        if bsm_epoch_change_ready s then (Ready (Inl ''epoch change is waiting to be consumed''), m)
        else if epoch < bsm_current_epoch s then (Ready (Inr ()), m)
        else if epoch > bsm_current_epoch s then (Ready (Inl ''future epoch''), m)
        else (case bsm_get s epoch block_num of
                Some _ \<Rightarrow> (Ready (Inr ()), m)
              | None \<Rightarrow>
                  let actual_parent =
                        (case checked_sub block_num 1 of
                           None \<Rightarrow> None
                         | Some p \<Rightarrow>
                             (case bsm_get s epoch p of
                                Some st \<Rightarrow> Some st
                              | None \<Rightarrow> if epoch > 0 then bsm_get s (epoch - 1) p else None));
                      parent_id = (case actual_parent of Some st \<Rightarrow> get_block_id st | None \<Rightarrow> parent_id)
                  in (Ready (Inr ()), m\<lparr>bb_bsm := bsm_put epoch block_num (Ordered b parent_id round) s\<rparr>)))"

definition reached_max :: "nat option \<Rightarrow> nat \<Rightarrow> bool" where
  "reached_max max_size n \<longleftrightarrow> int n \<ge> (case max_size of None \<Rightarrow> 2 ^ 64 - 1 | Some k \<Rightarrow> int k)"

function collect_ordered ::
  "block_state_machine \<Rightarrow> u64 \<Rightarrow> nat option \<Rightarrow> u64 \<Rightarrow> (external_block \<times> block_id) list \<Rightarrow>
   (external_block \<times> block_id) list option" where
  "collect_ordered s expected_epoch max_size current_num result =
     (case bsm_get s expected_epoch current_num of
        Some (Ordered b parent_id _) \<Rightarrow>
          let result = result @ [(b, parent_id)] in
          if reached_max max_size (length result) then Some result
          else (case checked_add current_num 1 of
                  None \<Rightarrow> None
                | Some n \<Rightarrow> collect_ordered s expected_epoch max_size n result)
      | _ \<Rightarrow> Some result)"
  by pat_completeness auto
termination
  by (relation "measure (\<lambda>(_, _, _, n, _). 2 ^ 64 - unat n)")
    (use checked_add_one_measure in \<open>auto simp del: diff_is_0_eq\<close>)

definition get_ordered_blocks ::
  "int \<Rightarrow> u64 \<Rightarrow> nat option \<Rightarrow> u64 \<Rightarrow> block_buffer \<Rightarrow>
   (string + (external_block \<times> block_id) list) poll option" where
  "get_ordered_blocks elapsed start_num max_size expected_epoch m =
     (if \<not> is_ready m then Some Pending
      else if elapsed > cfg_max_wait_timeout (bb_config m) then Some (Ready (Inl ''Timeout''))
      else
        let s = bb_bsm m in
        if bsm_epoch_change_ready s \<or> bsm_current_epoch s \<noteq> expected_epoch
        then Some (Ready (Inl ''Buffer is in epoch change''))
        else map_option (\<lambda>result. if result = [] then Pending else Ready (Inr result))
               (collect_ordered s expected_epoch max_size start_num []))"

section \<open>Execution results\<close>

definition get_executed_res ::
  "laptos \<Rightarrow> int \<Rightarrow> block_id \<Rightarrow> u64 \<Rightarrow> u64 \<Rightarrow> block_buffer \<Rightarrow>
   (string + state_compute_result) poll \<times> block_buffer" where
  "get_executed_res L elapsed block_id block_num epoch m =
     (if \<not> is_ready m then (Pending, m)
      else if elapsed > cfg_max_wait_timeout (bb_config m) then (Ready (Inl ''timeout''), m)
      else
        let s = bb_bsm m in
        case bsm_get s epoch block_num of
          Some (Computed i compute_result) \<Rightarrow>
            if i \<noteq> block_id then (Ready (Inl ''block id mismatch for Computed block''), m)
            else (Ready (Inr compute_result), m)
        | Some (Ordered _ _ _) \<Rightarrow>
            (case bsm_epoch_change_block_info s of
               Some cache \<Rightarrow>
                 if is_suffix_block s block_num
                 then
                   let dummy_result = new_dummy_with_epoch_state L (ec_epoch_state cache)
                   in (Ready (Inr dummy_result),
                       m\<lparr>bb_bsm := bsm_put epoch block_num (Computed block_id dummy_result) s\<rparr>)
                 else (Pending, m)
             | None \<Rightarrow> (Pending, m))
        | Some (Committed _ compute_result i _) \<Rightarrow>
            if i \<noteq> block_id then (Ready (Inl ''block id mismatch for Committed block''), m)
            else (Ready (Inr compute_result), m)
        | Some (Historical _) \<Rightarrow> (Ready (Inl ''Cannot get executed result for historical block''), m)
        | None \<Rightarrow>
            if epoch < bsm_current_epoch s then (Ready (Inr (scr_new_dummy L)), m)
            else (Ready (Inl ''There is no Ordered Block''), m))"

definition calculate_new_epoch_state ::
  "validator_set_codec \<Rightarrow> liquent_event list \<Rightarrow> u64 \<Rightarrow> block_state_machine \<Rightarrow>
   (string + epoch_state option) \<times> block_state_machine" where
  "calculate_new_epoch_state V events block_num s =
     (case List.find (\<lambda>ev. case ev of NewEpoch _ _ \<Rightarrow> True | _ \<Rightarrow> False) events of
        Some (NewEpoch new_epoch bytes) \<Rightarrow>
          (case bind_res (vc_from_bytes V bytes) (vc_convert_validator_set V) of
             Inl e \<Rightarrow> (Inl e, s)
           | Inr verifier \<Rightarrow>
               (Inr (Some \<lparr>es_epoch = new_epoch, es_verifier = verifier\<rparr>),
                s\<lparr>bsm_latest_epoch_change_block_number := block_num, bsm_next_epoch := Some new_epoch\<rparr>))
      | _ \<Rightarrow> (Inr None, s))"

definition handle_epoch_change_suffix_blocks ::
  "laptos \<Rightarrow> u64 \<Rightarrow> u64 \<Rightarrow> block_id \<Rightarrow> u64 \<Rightarrow> u64 \<Rightarrow> block_hash \<Rightarrow> epoch_state \<Rightarrow>
   block_state_machine \<Rightarrow> block_state_machine" where
  "handle_epoch_change_suffix_blocks L epoch_change_block_num epoch block_id usecs round hash es s =
     (let s = s\<lparr>bsm_epoch_change_block_info := Some
                  \<lparr>ec_epoch_block_info =
                     \<lparr>ebi_block_id = block_id, ebi_block_number = epoch_change_block_num,
                      ebi_epoch_start_round = round, ebi_epoch_start_timestamp_usecs = usecs,
                      ebi_block_hash = hash\<rparr>,
                   ec_epoch_state = es\<rparr>\<rparr>;
          suffix_keys =
            map (\<lambda>(key, st). (key, get_block_id st))
              (filter (\<lambda>(key, st). key_epoch key = epoch \<and> key_block_number key > epoch_change_block_num \<and>
                 (case st of Ordered _ _ _ \<Rightarrow> True | _ \<Rightarrow> False)) (bsm_blocks s))
      in fold (\<lambda>(key, i) s.
           s\<lparr>bsm_blocks := al_insert key (Computed i (new_dummy_with_epoch_state L es)) (bsm_blocks s)\<rparr>)
         suffix_keys s)"

definition set_compute_res ::
  "laptos \<Rightarrow> validator_set_codec \<Rightarrow> block_id \<Rightarrow> block_hash \<Rightarrow> u64 \<Rightarrow> u64 \<Rightarrow> bool list option \<Rightarrow>
   liquent_event list \<Rightarrow> block_buffer \<Rightarrow> (string + unit) poll \<times> block_buffer" where
  "set_compute_res L V block_id block_hash block_num epoch txn_status events m =
     (if \<not> is_ready m then (Pending, m)
      else
        case bsm_get (bb_bsm m) epoch block_num of
          Some (Ordered b _ round) \<Rightarrow>
            if xb_block_id b \<noteq> block_id then (Ready (Inl ''block id mismatch''), m)
            else (case calculate_new_epoch_state V events block_num (bb_bsm m) of
                    (Inl e, s) \<Rightarrow> (Ready (Inl e), m\<lparr>bb_bsm := s\<rparr>)
                  | (Inr new_epoch_state, s) \<Rightarrow>
                      let compute_result =
                            \<lparr>scr_execution_output =
                               \<lparr>cr_data = block_hash, cr_txn_num = of_nat (length (xb_txns b)),
                                cr_txn_status = txn_status, cr_events = events\<rparr>,
                             scr_epoch_state = new_epoch_state, scr_block_end_info = None\<rparr>;
                          s = bsm_put epoch block_num (Computed block_id compute_result) s;
                          s = (case new_epoch_state of
                                 None \<Rightarrow> s
                               | Some es \<Rightarrow>
                                   handle_epoch_change_suffix_blocks L block_num epoch block_id
                                     (xb_usecs b) round block_hash es s)
                      in (Ready (Inr ()), m\<lparr>bb_bsm := s\<rparr>))
        | _ \<Rightarrow> (Ready (Inl ''There is no Ordered Block''), m))"

section \<open>Commits\<close>

text \<open>One block of \<open>set_commit_blocks\<close>: the error, or the receivers collected so far.\<close>

definition commit_one ::
  "u64 \<Rightarrow> block_hash_ref \<Rightarrow> nat list \<Rightarrow> block_buffer \<Rightarrow> (string + nat list) \<times> block_buffer" where
  "commit_one epoch r receivers m =
     (let s = bb_bsm m; is_suffix = is_suffix_block s (bhr_num r) in
      case bsm_get s epoch (bhr_num r) of
        Some (Computed i compute_result) \<Rightarrow>
          if i = bhr_block_id r
          then
            let notify = scr_epoch_state compute_result \<noteq> None \<and> \<not> is_suffix;
                notifier = (if notify then Some (bb_channels m) else None);
                s = bsm_put epoch (bhr_num r) (Committed (bhr_hash r) compute_result (bhr_block_id r) notifier) s
            in (Inr (if notify then receivers @ [bb_channels m] else receivers),
                m\<lparr>bb_bsm := s, bb_channels := (if notify then Suc (bb_channels m) else bb_channels m)\<rparr>)
          else (Inl ''Computed Block id and number is not equal'', m)
      | Some (Committed _ _ i _) \<Rightarrow>
          if \<not> is_suffix \<and> i \<noteq> bhr_block_id r then (Inl ''Committed Block id mismatch'', m)
          else (Inr receivers, m)
      | Some (Ordered _ _ _) \<Rightarrow> (Inl ''Set commit block meet ordered block'', m)
      | Some (Historical i) \<Rightarrow>
          if i \<noteq> bhr_block_id r then (Inl ''Historical Block id mismatch'', m) else (Inr receivers, m)
      | None \<Rightarrow>
          if is_stale_commit_after_epoch_change s epoch (bhr_num r) then (Inr receivers, m)
          else (Inl ''There is no Block'', m))"

fun commit_all ::
  "u64 \<Rightarrow> block_hash_ref list \<Rightarrow> nat list \<Rightarrow> block_buffer \<Rightarrow> (string + nat list) \<times> block_buffer" where
  "commit_all epoch [] receivers m = (Inr receivers, m)"
| "commit_all epoch (r # rs) receivers m =
     (case commit_one epoch r receivers m of
        (Inl e, m) \<Rightarrow> (Inl e, m)
      | (Inr receivers, m) \<Rightarrow> commit_all epoch rs receivers m)"

definition set_commit_blocks ::
  "block_hash_ref list \<Rightarrow> u64 \<Rightarrow> block_buffer \<Rightarrow> (string + nat list) poll \<times> block_buffer" where
  "set_commit_blocks block_ids epoch m =
     (if \<not> is_ready m then (Pending, m)
      else (case commit_all epoch block_ids [] m of (r, m) \<Rightarrow> (Ready r, m)))"

function collect_committed ::
  "u64 \<Rightarrow> nat option \<Rightarrow> u64 \<Rightarrow> block_hash_ref list \<Rightarrow> block_state_machine \<Rightarrow>
   (block_hash_ref list \<times> block_state_machine) option" where
  "collect_committed epoch max_size current_num result s =
     (if is_suffix_block s current_num then Some (result, s)
      else (case bsm_get s epoch current_num of
              Some (Committed hash compute_result i persist_notifier) \<Rightarrow>
                let result = result @ [\<lparr>bhr_block_id = i, bhr_num = current_num, bhr_hash = hash,
                                        bhr_persist_notifier = persist_notifier\<rparr>];
                    s = bsm_put epoch current_num (Committed hash compute_result i None) s in
                if reached_max max_size (length result) then Some (result, s)
                else (case checked_add current_num 1 of
                        None \<Rightarrow> None
                      | Some n \<Rightarrow> collect_committed epoch max_size n result s)
            | _ \<Rightarrow> Some (result, s)))"
  by pat_completeness auto
termination
  by (relation "measure (\<lambda>(_, _, n, _, _). 2 ^ 64 - unat n)")
    (use checked_add_one_measure in \<open>auto simp del: diff_is_0_eq\<close>)

definition get_committed_blocks ::
  "int \<Rightarrow> u64 \<Rightarrow> nat option \<Rightarrow> u64 \<Rightarrow> block_buffer \<Rightarrow>
   ((string + block_hash_ref list) poll \<times> block_buffer) option" where
  "get_committed_blocks elapsed start_num max_size epoch m =
     (if \<not> is_ready m then Some (Pending, m)
      else if elapsed > cfg_max_wait_timeout (bb_config m) then Some (Ready (Inl ''Timeout''), m)
      else
        map_option (\<lambda>(result, s).
            (if result = [] then Pending else Ready (Inr result), m\<lparr>bb_bsm := s\<rparr>))
          (collect_committed epoch max_size start_num [] (bb_bsm m)))"

definition set_state :: "u64 \<Rightarrow> u64 \<Rightarrow> block_buffer \<Rightarrow> block_buffer" where
  "set_state latest_commit latest_finalized m =
     m\<lparr>bb_bsm := (bb_bsm m)\<lparr>bsm_latest_commit_block_number := latest_commit,
                            bsm_latest_finalized_block_number := latest_finalized\<rparr>\<rparr>"

section \<open>Epoch change\<close>

definition consume_epoch_change :: "block_buffer \<Rightarrow> (u64 \<times> u64) \<times> block_buffer" where
  "consume_epoch_change m =
     (let s = bb_bsm m;
          epoch_change_block_number = bsm_latest_epoch_change_block_number s;
          new_epoch = (case bsm_next_epoch s of Some e \<Rightarrow> e | None \<Rightarrow> bsm_current_epoch s);
          effective_block_number =
            (if epoch_change_block_number = 0 then bsm_latest_commit_block_number s
             else epoch_change_block_number)
      in ((new_epoch, effective_block_number),
          m\<lparr>bb_bsm := s\<lparr>bsm_latest_epoch_change_block_number := 0, bsm_epoch_change_ready := False\<rparr>,
            bb_state := BufferReady\<rparr>))"

definition get_epoch_change_block_info :: "u64 \<Rightarrow> u64 \<Rightarrow> block_buffer \<Rightarrow> epoch_block_info option" where
  "get_epoch_change_block_info block_num epoch m =
     (case bsm_epoch_change_block_info (bb_bsm m) of
        None \<Rightarrow> None
      | Some cache \<Rightarrow>
          if block_num > ebi_block_number (ec_epoch_block_info cache) \<and> epoch = bsm_current_epoch (bb_bsm m)
          then Some (ec_epoch_block_info cache) else None)"

definition release_inflight_blocks :: "block_buffer \<Rightarrow> block_buffer" where
  "release_inflight_blocks m =
     (let s = bb_bsm m; n = bsm_latest_epoch_change_block_number s in
      if n = 0 \<and> bsm_next_epoch s = None \<and> bsm_epoch_change_block_info s = None then m
      else
        let s = (case bsm_next_epoch s of
                   None \<Rightarrow> s
                 | Some e \<Rightarrow> s\<lparr>bsm_next_epoch := None, bsm_current_epoch := e\<rparr>);
            s = s\<lparr>bsm_blocks := filter (\<lambda>(key, _). key_block_number key \<le> n) (bsm_blocks s),
                  bsm_epoch_change_block_info := None, bsm_epoch_change_ready := True\<rparr>
        in m\<lparr>bb_bsm := s, bb_state := EpochChange\<rparr>)"

end
