(* ===== verification/Block_Buffer_Facts.thy ===== *)
theory Block_Buffer_Facts
  imports Block_Buffer Example_Instance
begin

text \<open>
  Facts about the block buffer: batches of transactions leave it in order, an execution result is
  final while its block is in the buffer, ordered blocks are handed out without gaps, every persist
  notifier is handed out at most once, and an epoch change moves the buffer to the new epoch.
\<close>


declare collect_ordered.simps [simp del] collect_committed.simps [simp del]

lemma block_key_new_eq [simp]: "block_key_new e n = block_key_new e' n' \<longleftrightarrow> e = e' \<and> n = n'"
  by (auto simp: block_key_new_def)

lemma block_key_new_sel [simp]: "key_epoch (block_key_new e n) = e" "key_block_number (block_key_new e n) = n"
  by (simp_all add: block_key_new_def)

lemma bsm_get_put [simp]:
  "bsm_get (bsm_put e n st s) e' n' = (if e' = e \<and> n' = n then Some st else bsm_get s e' n')"
  by (auto simp: bsm_get_def bsm_put_def)

lemma bsm_put_fields [simp]:
  "bsm_latest_commit_block_number (bsm_put e n st s) = bsm_latest_commit_block_number s"
  "bsm_latest_finalized_block_number (bsm_put e n st s) = bsm_latest_finalized_block_number s"
  "bsm_current_epoch (bsm_put e n st s) = bsm_current_epoch s"
  "bsm_next_epoch (bsm_put e n st s) = bsm_next_epoch s"
  "bsm_latest_epoch_change_block_number (bsm_put e n st s) = bsm_latest_epoch_change_block_number s"
  "bsm_epoch_change_block_info (bsm_put e n st s) = bsm_epoch_change_block_info s"
  "bsm_epoch_change_ready (bsm_put e n st s) = bsm_epoch_change_ready s"
  by (simp_all add: bsm_put_def)

lemma bsm_get_cong: "bsm_blocks s = bsm_blocks s' \<Longrightarrow> bsm_get s = bsm_get s'"
  by (simp add: bsm_get_def fun_eq_iff)

section \<open>The transaction buffer\<close>

definition gas_of :: "txn_item list \<Rightarrow> nat" where
  "gas_of items = sum_list (map (\<lambda>i. unat (ti_gas_limit i)) items)"

lemma gas_of_simps [simp]: "gas_of [] = 0" "gas_of (i # is) = unat (ti_gas_limit i) + gas_of is"
  by (simp_all add: gas_of_def)

lemma split_point_spec:
  assumes "unat t0 + gas_of items < 2 ^ 64"
  shows "\<exists>k. split_point max_size gas_limit t0 cnt items = Some k \<and> k \<le> length items \<and>
     (k > 0 \<longrightarrow> cnt + k \<le> max_size \<and> unat t0 + gas_of (take k items) \<le> unat gas_limit) \<and>
     (k < length items \<longrightarrow> unat t0 + gas_of (take (Suc k) items) > unat gas_limit \<or> cnt + k \<ge> max_size)"
  using assms
proof (induction items arbitrary: t0 cnt)
  case (Cons item items)
  let ?t = "t0 + ti_gas_limit item"
  have c: "checked_add t0 (ti_gas_limit item) = Some ?t" and t: "unat ?t = unat t0 + unat (ti_gas_limit item)"
    using Cons.prems checked_add_Some [of t0 "ti_gas_limit item" ?t] by (simp_all add: checked_add_def)
  show ?case
  proof (cases "?t > gas_limit \<or> cnt \<ge> max_size")
    case True
    with t show ?thesis by (auto simp: c word_less_nat_alt)
  next
    case False
    have "unat ?t + gas_of items < 2 ^ 64" using Cons.prems t by simp
    from Cons.IH [OF this, of "Suc cnt"] obtain k where k: "split_point max_size gas_limit ?t (Suc cnt) items = Some k"
      "k \<le> length items" "k > 0 \<longrightarrow> Suc cnt + k \<le> max_size \<and> unat ?t + gas_of (take k items) \<le> unat gas_limit"
      "k < length items \<longrightarrow> unat ?t + gas_of (take (Suc k) items) > unat gas_limit \<or> Suc cnt + k \<ge> max_size" by blast
    have "unat ?t \<le> unat gas_limit" using False by (simp add: word_le_nat_alt not_less)
    then show ?thesis using False c k t by (intro exI [of _ "Suc k"]) (cases k; simp add: add.assoc)
  qed
qed simp

text \<open>
  C39. Transactions leave the buffer in the order in which they came, whole batches at a time, none
  lost and none twice. If the gas limits of the buffered batches do not overflow \<open>u64\<close>, \<open>pop_txns\<close>
  returns; it takes the longest prefix within the gas limit and the maximal number of batches,
  except that a single batch that alone exceeds the gas limit is taken too, so a non-empty
  buffer always makes progress.
\<close>

theorem pop_txns_prefix:
  assumes "gas_of (bb_txns m) < 2 ^ 64"
  shows "\<exists>n txns m'. pop_txns max_size gas_limit m = Some (txns, m') \<and>
     txns = concat (map ti_txns (take n (bb_txns m))) \<and> bb_txns m' = drop n (bb_txns m) \<and> bb_bsm m' = bb_bsm m \<and>
     n \<le> max_size \<and> (gas_of (take n (bb_txns m)) \<le> unat gas_limit \<or> n = 1) \<and>
     (n < length (bb_txns m) \<longrightarrow> n = max_size \<or> gas_of (take (Suc n) (bb_txns m)) > unat gas_limit) \<and>
     (bb_txns m \<noteq> [] \<and> max_size > 0 \<longrightarrow> n > 0)"
proof -
  obtain k where k: "split_point max_size gas_limit 0 0 (bb_txns m) = Some k" "k \<le> length (bb_txns m)"
    "k > 0 \<longrightarrow> k \<le> max_size \<and> gas_of (take k (bb_txns m)) \<le> unat gas_limit"
    "k < length (bb_txns m) \<longrightarrow> gas_of (take (Suc k) (bb_txns m)) > unat gas_limit \<or> k \<ge> max_size"
    using split_point_spec [of 0 "bb_txns m" max_size gas_limit 0] assms by auto
  have one: "gas_of (take 2 (bb_txns m)) \<ge> gas_of (take 1 (bb_txns m))"
    by (cases "bb_txns m") (auto simp: gas_of_def)
  show ?thesis
  proof (cases "k = 0 \<and> bb_txns m \<noteq> [] \<and> max_size > 0")
    case True
    then show ?thesis using k one
      by (intro exI [of _ 1] exI [of _ "concat (map ti_txns (take 1 (bb_txns m)))"]
          exI [of _ "m\<lparr>bb_txns := drop 1 (bb_txns m)\<rparr>"]) (auto simp: pop_txns_def numeral_2_eq_2)
  next
    case False
    then show ?thesis using k
      by (intro exI [of _ k] exI [of _ "concat (map ti_txns (take k (bb_txns m)))"]
          exI [of _ "m\<lparr>bb_txns := drop k (bb_txns m)\<rparr>"]) (auto simp: pop_txns_def)
  qed
qed


section \<open>Operations\<close>

datatype bb_op =
  BbInit u64 "(u64 \<times> u64 \<times> block_id) list" u64
| BbInitEpoch u64
| PushTxns nat "signed_txn list" u64
| PopTxns nat u64
| SetOrderedBlocks block_id external_block u64
| GetExecutedRes int block_id u64 u64
| SetComputeRes block_id block_hash u64 u64 "bool list option" "liquent_event list"
| SetCommitBlocks "block_hash_ref list" u64
| GetCommittedBlocks int u64 "nat option" u64
| SetState u64 u64
| ConsumeEpochChange
| ReleaseInflightBlocks
| RemoveCommittedBlocks

text \<open>The state and the persist notifiers that \<open>get_committed_blocks\<close> has handed out; \<open>None\<close>
  after a panic.\<close>

type_synonym bb_run_state = "(block_buffer \<times> nat list) option"

definition handed_out :: "(string + block_hash_ref list) poll \<Rightarrow> nat list" where
  "handed_out r = (case r of Ready (Inr refs) \<Rightarrow> List.map_filter bhr_persist_notifier refs | _ \<Rightarrow> [])"

fun bb_exec :: "laptos \<Rightarrow> validator_set_codec \<Rightarrow> bb_op \<Rightarrow> block_buffer \<Rightarrow> (block_buffer \<times> nat list) option" where
  "bb_exec L V (BbInit n ids e) m = Some (snd (bb_init n ids e m), [])"
| "bb_exec L V (BbInitEpoch e) m = Some (init_epoch e m, [])"
| "bb_exec L V (PushTxns now txns gas) m = Some (push_txns now txns gas m, [])"
| "bb_exec L V (PopTxns k gas) m = map_option (\<lambda>(_, m'). (m', [])) (pop_txns k gas m)"
| "bb_exec L V (SetOrderedBlocks p b r) m = Some (snd (set_ordered_blocks p b r m), [])"
| "bb_exec L V (GetExecutedRes t i n e) m = Some (snd (get_executed_res L t i n e m), [])"
| "bb_exec L V (SetComputeRes i h n e st evs) m = Some (snd (set_compute_res L V i h n e st evs m), [])"
| "bb_exec L V (SetCommitBlocks rs e) m = Some (snd (set_commit_blocks rs e m), [])"
| "bb_exec L V (GetCommittedBlocks t n k e) m =
     map_option (\<lambda>(r, m'). (m', handed_out r)) (get_committed_blocks t n k e m)"
| "bb_exec L V (SetState n f) m = Some (set_state n f m, [])"
| "bb_exec L V ConsumeEpochChange m = Some (snd (consume_epoch_change m), [])"
| "bb_exec L V ReleaseInflightBlocks m = Some (release_inflight_blocks m, [])"
| "bb_exec L V RemoveCommittedBlocks m = Some (remove_committed_blocks m, [])"

definition bb_step :: "laptos \<Rightarrow> validator_set_codec \<Rightarrow> bb_run_state \<Rightarrow> bb_op \<Rightarrow> bb_run_state" where
  "bb_step L V st op =
     Option.bind st (\<lambda>(m, out). map_option (\<lambda>(m', new). (m', out @ new)) (bb_exec L V op m))"

definition bb_run :: "laptos \<Rightarrow> validator_set_codec \<Rightarrow> buffer_config \<Rightarrow> bb_op list \<Rightarrow> bb_run_state" where
  "bb_run L V config ops = run_ops (bb_step L V) (Some (bb_new config, [])) ops"

section \<open>What the operations do to a block\<close>

lemma map_of_filter_distinct:
  assumes "distinct (map fst blocks)"
  shows "map_of (filter Q blocks) key =
     (case map_of blocks key of Some st \<Rightarrow> (if Q (key, st) then Some st else None) | None \<Rightarrow> None)"
  using assms by (induction blocks) (auto split: option.split simp: map_of_eq_None_iff rev_image_eqI)

lemma map_of_fold_al_insert:
  "distinct (map fst ks) \<Longrightarrow>
   map_of (fold (\<lambda>(k, i). al_insert k (f i)) ks xs) k =
     (case map_of ks k of None \<Rightarrow> map_of xs k | Some i \<Rightarrow> Some (f i))"
  by (induction ks arbitrary: xs) (auto split: option.split simp: map_of_eq_None_iff rev_image_eqI dest: map_of_SomeD)

lemma distinct_fold_al_insert:
  "distinct (map fst xs) \<Longrightarrow> distinct (map fst (fold (\<lambda>(k, i). al_insert k (f i)) ks xs))"
  by (induction ks arbitrary: xs) (auto intro: distinct_al_insert)

abbreviation keys_ok :: "block_state_machine \<Rightarrow> bool" where
  "keys_ok s \<equiv> distinct (map fst (bsm_blocks s))"

lemma keys_ok_put: "keys_ok s \<Longrightarrow> keys_ok (bsm_put e n st s)"
  by (simp add: bsm_put_def distinct_al_insert)

lemma fold_blocks:
  "fold (\<lambda>(key, i) s. s\<lparr>bsm_blocks := al_insert key (f i) (bsm_blocks s)\<rparr>) ks s =
     s\<lparr>bsm_blocks := fold (\<lambda>(key, i). al_insert key (f i)) ks (bsm_blocks s)\<rparr>"
  by (induction ks arbitrary: s) auto

lemma handle_suffix_get:
  assumes "keys_ok s"
  shows "bsm_get (handle_epoch_change_suffix_blocks L num epoch i t r h es s) e n =
     (case bsm_get s e n of
        Some (Ordered b p rd) \<Rightarrow>
          if e = epoch \<and> n > num then Some (Computed (xb_block_id b) (new_dummy_with_epoch_state L es))
          else Some (Ordered b p rd)
      | st \<Rightarrow> st)"
proof -
  let ?P = "\<lambda>(key, st). key_epoch key = epoch \<and> key_block_number key > num \<and> (case st of Ordered _ _ _ \<Rightarrow> True | _ \<Rightarrow> False)"
  let ?ks = "map (\<lambda>(key, st). (key, get_block_id st)) (filter ?P (bsm_blocks s))"
  have "map fst ?ks = map fst (filter ?P (bsm_blocks s))" by (simp add: case_prod_unfold comp_def)
  then have d: "distinct (map fst ?ks)" using distinct_map_filter [OF assms] by (simp only:)
  have m: "map_of ?ks k = map_option get_block_id (map_of (filter ?P (bsm_blocks s)) k)" for k
    by (simp add: map_of_map)
  show ?thesis
    by (auto simp: handle_epoch_change_suffix_blocks_def Let_def fold_blocks bsm_get_def map_of_fold_al_insert [OF d] m
        map_of_filter_distinct [OF assms] split: option.split block_state.split)
qed


lemma handle_suffix_keys: "keys_ok s \<Longrightarrow> keys_ok (handle_epoch_change_suffix_blocks L num epoch i t r h es s)"
  by (simp add: handle_epoch_change_suffix_blocks_def Let_def fold_blocks distinct_fold_al_insert)

lemma handle_suffix_fields:
  "bsm_current_epoch (handle_epoch_change_suffix_blocks L num epoch i t r h es s) = bsm_current_epoch s"
  "bsm_next_epoch (handle_epoch_change_suffix_blocks L num epoch i t r h es s) = bsm_next_epoch s"
  "bsm_latest_epoch_change_block_number (handle_epoch_change_suffix_blocks L num epoch i t r h es s) =
     bsm_latest_epoch_change_block_number s"
  "bsm_epoch_change_ready (handle_epoch_change_suffix_blocks L num epoch i t r h es s) = bsm_epoch_change_ready s"
  "bsm_epoch_change_block_info (handle_epoch_change_suffix_blocks L num epoch i t r h es s) =
     Some \<lparr>ec_epoch_block_info = \<lparr>ebi_block_id = i, ebi_block_number = num, ebi_epoch_start_round = r,
             ebi_epoch_start_timestamp_usecs = t, ebi_block_hash = h\<rparr>, ec_epoch_state = es\<rparr>"
  by (simp_all add: handle_epoch_change_suffix_blocks_def Let_def fold_blocks)

text \<open>The id and the result of a block that has been executed.\<close>

definition result_at :: "block_state_machine \<Rightarrow> u64 \<Rightarrow> u64 \<Rightarrow> (block_id \<times> state_compute_result) option" where
  "result_at s e n =
     (case bsm_get s e n of
        Some (Computed i r) \<Rightarrow> Some (i, r) | Some (Committed _ r i _) \<Rightarrow> Some (i, r) | _ \<Rightarrow> None)"

definition keeps_results :: "block_state_machine \<Rightarrow> block_state_machine \<Rightarrow> bool" where
  "keeps_results s s' \<longleftrightarrow> keys_ok s' \<and>
     (\<forall>e n x. result_at s e n = Some x \<longrightarrow> result_at s' e n = Some x)"

lemma keeps_results_refl: "keys_ok s \<Longrightarrow> keeps_results s s"
  by (simp add: keeps_results_def)

lemma keeps_results_trans: "keeps_results s t \<Longrightarrow> keeps_results t u \<Longrightarrow> keeps_results s u"
  by (simp add: keeps_results_def)

lemma keeps_results_fields:
  "keys_ok s \<Longrightarrow> bsm_blocks s' = bsm_blocks s \<Longrightarrow> keeps_results s s'"
  by (simp add: keeps_results_def result_at_def bsm_get_def)

lemma keeps_results_put:
  "keys_ok s \<Longrightarrow> result_at s e n = None \<or> result_at s e n = result_at (bsm_put e n st s) e n \<Longrightarrow>
   keeps_results s (bsm_put e n st s)"
  by (auto simp: keeps_results_def keys_ok_put) (auto simp: result_at_def split: if_splits)

lemma commit_one_results:
  "keys_ok (bb_bsm m) \<Longrightarrow> keeps_results (bb_bsm m) (bb_bsm (snd (commit_one e r rcv m)))"
  by (auto simp: commit_one_def Let_def keeps_results_refl result_at_def
      intro!: keeps_results_put split: option.split block_state.split)

lemma commit_all_results:
  "keys_ok (bb_bsm m) \<Longrightarrow> keeps_results (bb_bsm m) (bb_bsm (snd (commit_all e rs rcv m)))"
proof (induction e rs rcv m rule: commit_all.induct)
  case (2 e r rs rcv m)
  note c = commit_one_results [OF "2.prems", of e r rcv]
  then have "keys_ok (bb_bsm (snd (commit_one e r rcv m)))" by (simp add: keeps_results_def)
  with 2 c show ?case
    by (cases "commit_one e r rcv m"; cases "fst (commit_one e r rcv m)")
      (auto intro: keeps_results_trans)
qed (simp add: keeps_results_refl)

lemma collect_committed_results:
  "collect_committed e k n res s = Some (res', s') \<Longrightarrow> keys_ok s \<Longrightarrow> keeps_results s s'"
proof (induction e k n res s rule: collect_committed.induct)
  case (1 e k n res s)
  have put: "keeps_results s (bsm_put e n (Committed h r i None) s)" if "bsm_get s e n = Some (Committed h r i nt)" for h r i nt
    using that "1.prems"(2) by (intro keeps_results_put) (simp_all add: result_at_def)
  show ?case
    using "1.prems" put "1.IH" keys_ok_put
    by (subst (asm) collect_committed.simps)
      (auto simp: Let_def keeps_results_refl intro: keeps_results_trans
        split: if_splits option.splits block_state.splits)
qed

fun within_epoch :: "bb_op \<Rightarrow> bool" where
  "within_epoch (BbInit _ _ _) = False"
| "within_epoch ReleaseInflightBlocks = False"
| "within_epoch RemoveCommittedBlocks = False"
| "within_epoch _ = True"

lemma handle_suffix_results:
  "keys_ok s \<Longrightarrow> keeps_results s (handle_epoch_change_suffix_blocks L num epoch i t r h es s)"
  by (auto simp: keeps_results_def handle_suffix_keys result_at_def handle_suffix_get split: option.splits block_state.splits)

lemma calculate_new_epoch_state_cases:
  "calculate_new_epoch_state V evs n s = (r, s') \<Longrightarrow>
     s' = s \<and> (\<forall>es. r \<noteq> Inr (Some es)) \<or>
     (\<exists>es. r = Inr (Some es) \<and>
        s' = s\<lparr>bsm_latest_epoch_change_block_number := n, bsm_next_epoch := Some (es_epoch es)\<rparr>)"
  by (auto simp: calculate_new_epoch_state_def split: option.splits liquent_event.splits sum.splits)

lemma set_compute_res_results:
  assumes "keys_ok (bb_bsm m)"
  shows "keeps_results (bb_bsm m) (bb_bsm (snd (set_compute_res L V i h n e st evs m)))"
proof -
  obtain r s where c: "calculate_new_epoch_state V evs n (bb_bsm m) = (r, s)" by fastforce
  have b: "bsm_blocks s = bsm_blocks (bb_bsm m)" using calculate_new_epoch_state_cases [OF c] by auto
  then have s: "keys_ok s" "keeps_results (bb_bsm m) s" using assms by (auto intro: keeps_results_fields)
  have put: "keeps_results s (bsm_put e n (Computed i' res) s)" if "bsm_get (bb_bsm m) e n = Some (Ordered b p rd)" for i' res b p rd
    using that b s(1) by (intro keeps_results_put) (simp_all add: result_at_def bsm_get_def)
  have "keeps_results s (handle_epoch_change_suffix_blocks L n e i' t rd h es (bsm_put e n (Computed i' res) s))"
    if "bsm_get (bb_bsm m) e n = Some (Ordered b p rd)" for i' res b p rd t es
    using put [OF that] handle_suffix_results [OF keys_ok_put [OF s(1)]] by (rule keeps_results_trans)
  with put s assms show ?thesis
    by (auto simp: set_compute_res_def c Let_def keeps_results_refl intro: keeps_results_trans
        split: option.split block_state.split sum.split)
qed

lemma bb_exec_results:
  assumes "bb_exec L V op m = Some (m', new)" "keys_ok (bb_bsm m)" "within_epoch op"
  shows "keeps_results (bb_bsm m) (bb_bsm m')"
proof (cases op)
  case (SetComputeRes i h n e st evs)
  then show ?thesis using assms set_compute_res_results by auto
next
  case (SetCommitBlocks rs e)
  then show ?thesis using assms commit_all_results [of m e rs "[]"]
    by (auto simp: set_commit_blocks_def keeps_results_refl split: prod.splits if_splits)
next
  case (GetCommittedBlocks t n k e)
  then show ?thesis using assms collect_committed_results
    by (auto simp: get_committed_blocks_def keeps_results_refl split: if_splits)
next
  case (SetOrderedBlocks p b r)
  then show ?thesis using assms
    by (auto simp: set_ordered_blocks_def Let_def keeps_results_refl result_at_def intro!: keeps_results_put split: option.split)
next
  case (GetExecutedRes t i n e)
  then show ?thesis using assms
    by (auto simp: get_executed_res_def Let_def keeps_results_refl result_at_def intro!: keeps_results_put
        split: option.split block_state.split)
qed (use assms in \<open>auto simp: init_epoch_def push_txns_def pop_txns_def set_state_def consume_epoch_change_def Let_def
       intro: keeps_results_fields\<close>)


section \<open>The invariant\<close>

text \<open>The persist notifier that is stored with a committed block.\<close>

definition notifier_at :: "block_state_machine \<Rightarrow> u64 \<Rightarrow> u64 \<Rightarrow> nat option" where
  "notifier_at s e n = (case bsm_get s e n of Some (Committed _ _ _ nt) \<Rightarrow> nt | _ \<Rightarrow> None)"

text \<open>Blocks are stored under their epoch and number.\<close>

definition ordered_ok :: "block_state_machine \<Rightarrow> bool" where
  "ordered_ok s \<longleftrightarrow>
     (\<forall>e n b p r. bsm_get s e n = Some (Ordered b p r) \<longrightarrow> xb_epoch b = e \<and> xb_block_number b = n)"

definition notifiers_ok :: "nat \<Rightarrow> nat list \<Rightarrow> block_state_machine \<Rightarrow> bool" where
  "notifiers_ok ch out s \<longleftrightarrow> distinct out \<and> (\<forall>c \<in> set out. c < ch) \<and>
     (\<forall>e n c. notifier_at s e n = Some c \<longrightarrow> c < ch \<and> c \<notin> set out) \<and>
     (\<forall>e n e' n' c. notifier_at s e n = Some c \<longrightarrow> notifier_at s e' n' = Some c \<longrightarrow> e = e' \<and> n = n')"

definition bb_inv :: "block_buffer \<Rightarrow> nat list \<Rightarrow> bool" where
  "bb_inv m out \<longleftrightarrow> keys_ok (bb_bsm m) \<and> ordered_ok (bb_bsm m) \<and> notifiers_ok (bb_channels m) out (bb_bsm m)"

text \<open>Changes that add no notifier and order no block.\<close>

definition no_new :: "block_state_machine \<Rightarrow> block_state_machine \<Rightarrow> bool" where
  "no_new s s' \<longleftrightarrow> keys_ok s' \<and>
     (\<forall>e n. bsm_get s' e n = bsm_get s e n \<or> bsm_get s' e n = None \<or>
        (\<exists>i. bsm_get s' e n = Some (Historical i)) \<or> (\<exists>i r. bsm_get s' e n = Some (Computed i r)))"

lemma no_new_refl: "keys_ok s \<Longrightarrow> no_new s s"
  by (simp add: no_new_def)

lemma no_new_fields: "keys_ok s \<Longrightarrow> bsm_blocks s' = bsm_blocks s \<Longrightarrow> no_new s s'"
  by (simp add: no_new_def bsm_get_def)

lemma no_new_trans:
  assumes "no_new s t" "no_new t u"
  shows "no_new s u"
  unfolding no_new_def
proof (intro conjI allI)
  show "keys_ok u" using assms(2) by (simp add: no_new_def)
  fix e n
  show "bsm_get u e n = bsm_get s e n \<or> bsm_get u e n = None \<or>
     (\<exists>i. bsm_get u e n = Some (Historical i)) \<or> (\<exists>i r. bsm_get u e n = Some (Computed i r))"
    using assms [unfolded no_new_def] by metis
qed

lemma no_new_put:
  "keys_ok s \<Longrightarrow> (\<exists>i. st = Historical i) \<or> (\<exists>i r. st = Computed i r) \<Longrightarrow> no_new s (bsm_put e n st s)"
  by (auto simp: no_new_def keys_ok_put)

lemma no_new_filter: "keys_ok s \<Longrightarrow> bsm_blocks s' = filter P (bsm_blocks s) \<Longrightarrow> no_new s s'"
  by (auto simp: no_new_def bsm_get_def map_of_filter_distinct distinct_map_filter split: option.split)

lemma no_new_handle:
  "keys_ok s \<Longrightarrow> no_new s (handle_epoch_change_suffix_blocks L num epoch i t r h es s)"
  by (simp add: no_new_def handle_suffix_keys handle_suffix_get split: option.split block_state.split)

lemma bb_inv_no_new:
  assumes "bb_inv m out" "no_new (bb_bsm m) (bb_bsm m')" "bb_channels m' = bb_channels m"
  shows "bb_inv m' out"
proof -
  have k: "notifier_at (bb_bsm m') e n = None \<or> notifier_at (bb_bsm m') e n = notifier_at (bb_bsm m) e n" for e n
    using assms(2) [unfolded no_new_def, THEN conjunct2, rule_format, of e n] by (auto simp: notifier_at_def)
  have "notifiers_ok (bb_channels m) out (bb_bsm m')"
    using assms(1) k unfolding bb_inv_def notifiers_ok_def by (metis option.distinct(1))
  moreover have "ordered_ok (bb_bsm m')"
    unfolding ordered_ok_def
  proof (intro allI impI)
    fix e n b p r assume b: "bsm_get (bb_bsm m') e n = Some (Ordered b p r)"
    with assms(2) [unfolded no_new_def, THEN conjunct2, rule_format, of e n]
    have "bsm_get (bb_bsm m) e n = Some (Ordered b p r)" by auto
    with assms(1) show "xb_epoch b = e \<and> xb_block_number b = n" unfolding bb_inv_def ordered_ok_def by blast
  qed
  ultimately show ?thesis using assms(2,3) by (simp add: bb_inv_def no_new_def)
qed

lemma set_ordered_blocks_cases:
  "snd (set_ordered_blocks p b r m) = m \<or>
   (\<exists>q. snd (set_ordered_blocks p b r m) =
      m\<lparr>bb_bsm := bsm_put (xb_epoch b) (xb_block_number b) (Ordered b q r) (bb_bsm m)\<rparr>)"
  by (auto simp: set_ordered_blocks_def Let_def split: option.split)

lemma bb_inv_set_ordered:
  assumes "bb_inv m out"
  shows "bb_inv (snd (set_ordered_blocks p b r m)) out"
proof -
  have "bb_inv (m\<lparr>bb_bsm := bsm_put (xb_epoch b) (xb_block_number b) (Ordered b q r) (bb_bsm m)\<rparr>) out" for q
    using assms by (auto simp: bb_inv_def keys_ok_put ordered_ok_def notifiers_ok_def notifier_at_def split: if_splits)
  with assms set_ordered_blocks_cases [of p b r m] show ?thesis by auto
qed

lemma bb_inv_commit_one:
  assumes "bb_inv m out"
  shows "bb_inv (snd (commit_one e r rcv m)) out"
proof -
  let ?put = "\<lambda>c i nt. bsm_put e (bhr_num r) (Committed (bhr_hash r) c i nt) (bb_bsm m)"
  have i: "keys_ok (bb_bsm m)" "ordered_ok (bb_bsm m)" "notifiers_ok (bb_channels m) out (bb_bsm m)"
    using assms by (simp_all add: bb_inv_def)
  have o: "keys_ok (?put c i nt)" "ordered_ok (?put c i nt)" for c i nt
    using i(1,2) by (auto simp: keys_ok_put ordered_ok_def split: if_splits)
  have "notifiers_ok (Suc (bb_channels m)) out (?put c i (Some (bb_channels m)))" for c i
    using i(3) by (auto simp: notifiers_ok_def notifier_at_def less_Suc_eq split: if_splits)
  moreover have "notifiers_ok (bb_channels m) out (?put c i None)" for c i
    using i(3) by (auto simp: notifiers_ok_def notifier_at_def split: if_splits)
  ultimately show ?thesis
    using assms o by (auto simp: commit_one_def Let_def bb_inv_def split: option.split block_state.split)
qed

lemma bb_inv_commit_all: "bb_inv m out \<Longrightarrow> bb_inv (snd (commit_all e rs rcv m)) out"
proof (induction e rs rcv m rule: commit_all.induct)
  case (2 e r rs rcv m)
  with bb_inv_commit_one [of m out e r rcv] show ?case
    by (cases "commit_one e r rcv m"; cases "fst (commit_one e r rcv m)") auto
qed simp

lemma collect_committed_inv:
  assumes "collect_committed e k n res s = Some (res', s')"
    and "keys_ok s" "ordered_ok s" "notifiers_ok ch (out @ List.map_filter bhr_persist_notifier res) s"
  shows "keys_ok s' \<and> ordered_ok s' \<and> notifiers_ok ch (out @ List.map_filter bhr_persist_notifier res') s'"
  using assms
proof (induction e k n res s rule: collect_committed.induct)
  case (1 e k n res s)
  show ?case
  proof (cases "\<exists>h c i nt. \<not> is_suffix_block s n \<and> bsm_get s e n = Some (Committed h c i nt)")
    case False
    then show ?thesis using "1.prems"
      by (subst (asm) collect_committed.simps) (auto split: if_splits option.splits block_state.splits)
  next
    case True
    then obtain h c i nt where st: "\<not> is_suffix_block s n" "bsm_get s e n = Some (Committed h c i nt)" by blast
    let ?s = "bsm_put e n (Committed h c i None) s"
    let ?res = "res @ [\<lparr>bhr_block_id = i, bhr_num = n, bhr_hash = h, bhr_persist_notifier = nt\<rparr>]"
    have s: "keys_ok ?s" "ordered_ok ?s" using "1.prems"(2,3) by (auto simp: keys_ok_put ordered_ok_def split: if_splits)
    have nt: "notifier_at s e n = nt" using st(2) by (simp add: notifier_at_def)
    have "notifiers_ok ch (out @ List.map_filter bhr_persist_notifier ?res) ?s"
      using "1.prems"(4) nt unfolding notifiers_ok_def
      by (auto simp: notifier_at_def List.map_filter_def split: if_splits option.splits)
    with s show ?thesis
      using "1.prems"(1) "1.IH" [OF st refl refl] st
      by (subst (asm) collect_committed.simps) (auto simp: Let_def split: if_splits option.splits)
  qed
qed


lemma set_compute_res_no_new:
  assumes "keys_ok (bb_bsm m)"
  shows "no_new (bb_bsm m) (bb_bsm (snd (set_compute_res L V i h n e st evs m)))"
proof -
  obtain r s where c: "calculate_new_epoch_state V evs n (bb_bsm m) = (r, s)" by fastforce
  then have s: "keys_ok s" "no_new (bb_bsm m) s"
    using calculate_new_epoch_state_cases [OF c] assms by (auto intro: no_new_fields)
  have put: "no_new s (bsm_put e n (Computed i' res) s)" for i' res using s(1) by (intro no_new_put) auto
  have "no_new s (handle_epoch_change_suffix_blocks L n e i' t rd h es (bsm_put e n (Computed i' res) s))" for i' t rd es res
    using put no_new_handle [OF keys_ok_put [OF s(1)]] by (rule no_new_trans)
  with put s assms show ?thesis
    by (auto simp: set_compute_res_def c Let_def no_new_refl intro: no_new_trans
        split: option.split block_state.split sum.split)
qed

lemma bb_inv_exec:
  assumes "bb_exec L V op m = Some (m', new)" "bb_inv m out"
  shows "bb_inv m' (out @ new)"
proof -
  have k: "keys_ok (bb_bsm m)" using assms(2) by (simp add: bb_inv_def)
  note quiet = bb_inv_no_new [OF assms(2)]
  show ?thesis
  proof (cases op)
    case (SetOrderedBlocks p b r)
    then show ?thesis using assms bb_inv_set_ordered by auto
  next
    case (SetComputeRes i h n e st evs)
    have "bb_channels (snd (set_compute_res L V i h n e st evs m)) = bb_channels m"
      by (auto simp: set_compute_res_def Let_def split: option.split block_state.split sum.split prod.split)
    with quiet [OF set_compute_res_no_new [OF k]] SetComputeRes assms(1) show ?thesis by auto
  next
    case (SetCommitBlocks rs e)
    then show ?thesis using assms bb_inv_commit_all [OF assms(2), of e rs "[]"]
      by (auto simp: set_commit_blocks_def split: prod.splits if_splits)
  next
    case (GetCommittedBlocks t n j e)
    then show ?thesis using assms collect_committed_inv [of e j n "[]" "bb_bsm m" _ _ "bb_channels m" out]
      by (auto simp: get_committed_blocks_def bb_inv_def handed_out_def List.map_filter_def split: if_splits)
  next
    case (GetExecutedRes t i n e)
    have "no_new (bb_bsm m) (bb_bsm (snd (get_executed_res L t i n e m)))" "bb_channels (snd (get_executed_res L t i n e m)) = bb_channels m"
      using k by (auto simp: get_executed_res_def Let_def intro!: no_new_put no_new_refl split: option.split block_state.split)
    with quiet GetExecutedRes assms(1) show ?thesis by auto
  next
    case (BbInit n ids e)
    have "no_new (bb_bsm m) ((bsm_put a n (Historical b) s)\<lparr>bsm_latest_epoch_change_block_number := 0\<rparr>)"
      if s: "bsm_blocks s = bsm_blocks (bb_bsm m)" for a b s
    proof -
      have "keys_ok s" using k s by simp
      then show ?thesis
        by (intro no_new_trans [OF no_new_fields [OF k s] no_new_trans [OF no_new_put no_new_fields]])
          (auto simp: keys_ok_put)
    qed
    then have "no_new (bb_bsm m) (bb_bsm (snd (bb_init n ids e m)))" "bb_channels (snd (bb_init n ids e m)) = bb_channels m"
      using no_new_fields [OF k] by (auto simp: bb_init_def Let_def no_new_refl [OF k] split: option.split)
    with quiet BbInit assms(1) show ?thesis by auto
  next
    case ReleaseInflightBlocks
    have "no_new (bb_bsm m) (bb_bsm (release_inflight_blocks m))" "bb_channels (release_inflight_blocks m) = bb_channels m"
      using k by (auto simp: release_inflight_blocks_def Let_def intro: no_new_refl no_new_filter split: option.split)
    with quiet ReleaseInflightBlocks assms(1) show ?thesis by auto
  next
    case RemoveCommittedBlocks
    have "no_new (bb_bsm m) (bb_bsm (remove_committed_blocks m))" "bb_channels (remove_committed_blocks m) = bb_channels m"
      using k by (auto simp: remove_committed_blocks_def Let_def intro: no_new_refl no_new_filter)
    with quiet RemoveCommittedBlocks assms(1) show ?thesis by auto
  qed (use assms(1) quiet k in \<open>auto simp: init_epoch_def push_txns_def pop_txns_def set_state_def
         consume_epoch_change_def Let_def no_new_fields\<close>)
qed


definition bb_run_inv :: "bb_run_state \<Rightarrow> bool" where
  "bb_run_inv st = (case st of None \<Rightarrow> True | Some (m, out) \<Rightarrow> bb_inv m out)"

interpretation buffer: invariant_machine "bb_step L V" bb_run_inv for L V
proof unfold_locales
  fix st op assume "bb_run_inv st"
  then show "bb_run_inv (bb_step L V st op)"
    by (auto simp: bb_run_inv_def bb_step_def split: option.splits intro: bb_inv_exec)
qed

lemma bb_inv_run:
  assumes "bb_run L V config ops = Some (m, out)"
  shows "bb_inv m out"
proof -
  have "bb_run_inv (Some (bb_new config, []))"
    by (simp add: bb_run_inv_def bb_inv_def bb_new_def ordered_ok_def notifiers_ok_def notifier_at_def bsm_get_def)
  from buffer.run_inv [OF this, of L V ops] assms show ?thesis by (simp add: bb_run_inv_def bb_run_def)
qed

lemma bb_run_snoc: "bb_run L V config (ops @ [op]) = bb_step L V (bb_run L V config ops) op"
  by (simp add: bb_run_def run_ops_append)

lemma run_panicked: "run_ops (bb_step L V) None ops = None"
  by (induction ops) (simp_all add: bb_step_def)

lemma bb_step_Some:
  "bb_step L V (Some (m, out)) op = map_option (\<lambda>(m', new). (m', out @ new)) (bb_exec L V op m)"
  by (simp add: bb_step_def)

section \<open>Results are final\<close>

lemma bb_exec_keys:
  "bb_exec L V op m = Some (m', new) \<Longrightarrow> bb_inv m out \<Longrightarrow> keys_ok (bb_bsm m')"
  using bb_inv_exec by (auto simp: bb_inv_def)

lemma run_keeps_results:
  assumes "run_ops (bb_step L V) (Some (m, out)) ops = Some (m', out')" "\<forall>op \<in> set ops. within_epoch op"
    and "keys_ok (bb_bsm m)"
  shows "keeps_results (bb_bsm m) (bb_bsm m')"
  using assms
proof (induction ops arbitrary: m out)
  case (Cons op ops)
  then obtain m1 new where e: "bb_exec L V op m = Some (m1, new)"
    and r: "run_ops (bb_step L V) (Some (m1, out @ new)) ops = Some (m', out')"
    by (cases "bb_exec L V op m") (auto simp: bb_step_Some run_panicked)
  have k: "keeps_results (bb_bsm m) (bb_bsm m1)" using bb_exec_results [OF e] Cons.prems by simp
  then have "keeps_results (bb_bsm m1) (bb_bsm m')"
    using Cons.IH [OF r] Cons.prems(2) by (simp add: keeps_results_def)
  with k show ?case by (rule keeps_results_trans)
qed (simp add: keeps_results_refl)

lemma executed_res_result:
  assumes "get_executed_res L t i n e m = (Ready (Inr r), m')" "bsm_get (bb_bsm m) e n \<noteq> None"
  shows "result_at (bb_bsm m') e n = Some (i, r)" "result_at (bb_bsm m) e n = Some x \<Longrightarrow> x = (i, r)"
  using assms
  by (auto simp: get_executed_res_def Let_def result_at_def split: if_splits option.splits block_state.splits)

text \<open>
  C35. Execution results are final. While a block stays in the buffer, whatever else is ordered,
  executed and committed meanwhile, all successful queries for its epoch and number were made with
  the same block id and got the same result.
\<close>

theorem executed_results_final:
  assumes "bb_run L V config ops = Some (m1, out1)"
    and "get_executed_res L t1 i1 n e m1 = (Ready (Inr r1), m1')" "bsm_get (bb_bsm m1) e n \<noteq> None"
    and "run_ops (bb_step L V) (Some (m1', out1)) ops' = Some (m2, out2)" "\<forall>op \<in> set ops'. within_epoch op"
    and "get_executed_res L t2 i2 n e m2 = (Ready (Inr r2), m2')"
  shows "i1 = i2 \<and> r1 = r2"
proof -
  have "bb_exec L V (GetExecutedRes t1 i1 n e) m1 = Some (m1', [])" using assms(2) by simp
  from bb_exec_keys [OF this bb_inv_run [OF assms(1)]] have "keys_ok (bb_bsm m1')" .
  from run_keeps_results [OF assms(4,5) this] executed_res_result(1) [OF assms(2,3)]
  have r: "result_at (bb_bsm m2) e n = Some (i1, r1)" by (simp add: keeps_results_def)
  then have "bsm_get (bb_bsm m2) e n \<noteq> None" by (cases "bsm_get (bb_bsm m2) e n") (auto simp: result_at_def)
  from executed_res_result(2) [OF assms(6) this r] show ?thesis by simp
qed

section \<open>Notifiers\<close>

text \<open>
  C38. Every persist notifier is handed out at most once: over any sequence of operations, the
  notifiers that \<open>get_committed_blocks\<close> returns are pairwise different and none of them is still
  stored with a block.
\<close>

theorem persist_notified_once:
  assumes "bb_run L V config ops = Some (m, out)"
  shows "distinct out \<and>
     (\<forall>e n h r i c. bsm_get (bb_bsm m) e n = Some (Committed h r i (Some c)) \<longrightarrow> c \<notin> set out)"
proof -
  have n: "distinct out" "\<forall>e n c. notifier_at (bb_bsm m) e n = Some c \<longrightarrow> c \<notin> set out"
    using bb_inv_run [OF assms] by (simp_all add: bb_inv_def notifiers_ok_def)
  have "c \<notin> set out" if "bsm_get (bb_bsm m) e n = Some (Committed h r i (Some c))" for e n h r i c
  proof -
    have "notifier_at (bb_bsm m) e n = Some c" using that by (simp add: notifier_at_def)
    with n(2) show ?thesis by blast
  qed
  with n(1) show ?thesis by blast
qed

section \<open>Ordered blocks\<close>

lemma collect_ordered_spec:
  assumes "collect_ordered s e k n acc = Some bs"
  shows "\<exists>new. bs = acc @ new \<and> unat n + length new \<le> 2 ^ 64 \<and>
     (\<forall>j < length new. \<exists>rd. bsm_get s e (n + of_nat j) = Some (Ordered (fst (new ! j)) (snd (new ! j)) rd)) \<and>
     (reached_max k (length bs) \<or> (\<nexists>b p rd. bsm_get s e (n + of_nat (length new)) = Some (Ordered b p rd)))"
  using assms
proof (induction s e k n acc rule: collect_ordered.induct)
  case (1 s e k n acc)
  show ?case
  proof (cases "\<exists>b p rd. bsm_get s e n = Some (Ordered b p rd)")
    case False
    then have "bs = acc" using "1.prems" by (subst (asm) collect_ordered.simps) (auto split: option.splits block_state.splits)
    with False show ?thesis using unat_lt_u64 [of n] by (intro exI [of _ "[]"]) auto
  next
    case True
    then obtain b p rd where b: "bsm_get s e n = Some (Ordered b p rd)" by blast
    show ?thesis
    proof (cases "reached_max k (length (acc @ [(b, p)]))")
      case True
      then have "bs = acc @ [(b, p)]" using "1.prems" b by (subst (asm) collect_ordered.simps) simp
      with True b show ?thesis using unat_lt_u64 [of n] by (intro exI [of _ "[(b, p)]"]) auto
    next
      case False
      then obtain n' where n': "checked_add n 1 = Some n'" "collect_ordered s e k n' (acc @ [(b, p)]) = Some bs"
        using "1.prems" b by (subst (asm) collect_ordered.simps) (auto split: option.splits)
      from "1.IH" [OF b refl refl False n'(1,2)] obtain new where new: "bs = acc @ (b, p) # new" "unat n' + length new \<le> 2 ^ 64"
        "\<forall>j < length new. \<exists>rd. bsm_get s e (n' + of_nat j) = Some (Ordered (fst (new ! j)) (snd (new ! j)) rd)"
        "reached_max k (length bs) \<or> (\<nexists>b p rd. bsm_get s e (n' + of_nat (length new)) = Some (Ordered b p rd))"
        by auto
      have n1: "n' = n + 1" "unat n' = unat n + 1" using n'(1) by (auto simp: checked_add_one_Some unat_plus_one)
      have "\<exists>rd. bsm_get s e (n + of_nat j) = Some (Ordered (fst (((b, p) # new) ! j)) (snd (((b, p) # new) ! j)) rd)"
        if "j < length ((b, p) # new)" for j
        using that b new(3) n1(1) by (cases j) (auto simp: algebra_simps)
      then show ?thesis using new(1,2,4) n1 by (intro exI [of _ "(b, p) # new"]) (auto simp: algebra_simps)
    qed
  qed
qed

text \<open>
  C37. The execution layer gets the ordered blocks of its epoch without gaps: what
  \<open>get_ordered_blocks\<close> returns are blocks of the current epoch with the numbers from \<open>start_num\<close> on,
  one after the other without wrap-around, at least one, and it stops only at the requested
  size or before a block that is not there or already executed.
\<close>

theorem ordered_blocks_consecutive:
  assumes "bb_run L V config ops = Some (m, out)"
    and "get_ordered_blocks t start k e m = Some (Ready (Inr bs))"
  shows "e = bsm_current_epoch (bb_bsm m) \<and> bs \<noteq> [] \<and> unat start + length bs \<le> 2 ^ 64 \<and>
     (\<forall>j < length bs. xb_epoch (fst (bs ! j)) = e \<and> xb_block_number (fst (bs ! j)) = start + of_nat j) \<and>
     (reached_max k (length bs) \<or>
      (\<nexists>b p rd. bsm_get (bb_bsm m) e (start + of_nat (length bs)) = Some (Ordered b p rd)))"
proof -
  have c: "collect_ordered (bb_bsm m) e k start [] = Some bs" "bs \<noteq> []" "e = bsm_current_epoch (bb_bsm m)"
    using assms(2) by (auto simp: get_ordered_blocks_def Let_def split: if_splits)
  have ok: "ordered_ok (bb_bsm m)" using bb_inv_run [OF assms(1)] by (simp add: bb_inv_def)
  have "xb_epoch (fst (bs ! j)) = e \<and> xb_block_number (fst (bs ! j)) = start + of_nat j" if "j < length bs" for j
  proof -
    from collect_ordered_spec [OF c(1)] that obtain rd
      where "bsm_get (bb_bsm m) e (start + of_nat j) = Some (Ordered (fst (bs ! j)) (snd (bs ! j)) rd)" by auto
    with ok show ?thesis unfolding ordered_ok_def by blast
  qed
  with c collect_ordered_spec [OF c(1)] show ?thesis by auto
qed


section \<open>Epoch change\<close>

text \<open>The pending epoch change, and the operations that do not touch it.\<close>

definition pending_change :: "block_buffer \<Rightarrow> u64 option \<times> u64 \<times> epoch_change_cache option \<times> buffer_state" where
  "pending_change m =
     (bsm_next_epoch (bb_bsm m), bsm_latest_epoch_change_block_number (bb_bsm m),
      bsm_epoch_change_block_info (bb_bsm m), bb_state m)"

fun keeps_change :: "bb_op \<Rightarrow> bool" where
  "keeps_change (SetComputeRes _ _ _ _ _ _) = False"
| "keeps_change ConsumeEpochChange = False"
| "keeps_change op = within_epoch op"

lemma keeps_change_within: "keeps_change op \<Longrightarrow> within_epoch op"
  by (cases op) auto

lemma commit_all_pending: "pending_change (snd (commit_all e rs rcv m)) = pending_change m"
proof (induction e rs rcv m rule: commit_all.induct)
  case (2 e r rs rcv m)
  have "pending_change (snd (commit_one e r rcv m)) = pending_change m"
    by (simp add: commit_one_def pending_change_def Let_def split: option.split block_state.split)
  with 2 show ?case by (cases "commit_one e r rcv m"; cases "fst (commit_one e r rcv m)") auto
qed simp

lemma collect_committed_pending:
  "collect_committed e k n res s = Some (res', s') \<Longrightarrow>
   bsm_next_epoch s' = bsm_next_epoch s \<and>
   bsm_latest_epoch_change_block_number s' = bsm_latest_epoch_change_block_number s \<and>
   bsm_epoch_change_block_info s' = bsm_epoch_change_block_info s"
proof (induction e k n res s rule: collect_committed.induct)
  case (1 e k n res s)
  show ?case
    using "1.prems" "1.IH"
    by (subst (asm) collect_committed.simps) (auto simp: Let_def split: if_splits option.splits block_state.splits)
qed

lemma exec_pending:
  assumes "bb_exec L V op m = Some (m', new)" "keeps_change op"
  shows "pending_change m' = pending_change m"
proof (cases op)
  case (SetOrderedBlocks p b r)
  with assms set_ordered_blocks_cases [of p b r m] show ?thesis by (auto simp: pending_change_def)
next
  case (SetCommitBlocks rs e)
  with assms commit_all_pending [of e rs "[]" m] show ?thesis
    by (auto simp: set_commit_blocks_def split: prod.splits if_splits)
next
  case (GetCommittedBlocks t n k e)
  with assms collect_committed_pending [of e k n "[]" "bb_bsm m"] show ?thesis
    by (auto simp: get_committed_blocks_def pending_change_def split: if_splits)
next
  case (GetExecutedRes t i n e)
  with assms show ?thesis
    by (auto simp: get_executed_res_def Let_def pending_change_def split: option.split block_state.split)
qed (use assms in \<open>auto simp: pending_change_def init_epoch_def push_txns_def pop_txns_def set_state_def Let_def\<close>)

lemma run_pending:
  assumes "run_ops (bb_step L V) (Some (m, out)) ops = Some (m', out')" "\<forall>op \<in> set ops. keeps_change op"
  shows "pending_change m' = pending_change m"
  using assms
proof (induction ops arbitrary: m out)
  case (Cons op ops)
  then obtain m1 new where e: "bb_exec L V op m = Some (m1, new)"
    and r: "run_ops (bb_step L V) (Some (m1, out @ new)) ops = Some (m', out')"
    by (cases "bb_exec L V op m") (auto simp: bb_step_Some run_panicked)
  with exec_pending [OF e] Cons.IH [OF r] Cons.prems(2) show ?case by simp
qed simp

lemma compute_starts_change:
  assumes "set_compute_res L V i h n e st evs m = (Ready (Inr ()), m1)"
    and "List.find (\<lambda>ev. case ev of NewEpoch _ _ \<Rightarrow> True | _ \<Rightarrow> False) evs = Some (NewEpoch e' bytes)"
  shows "bsm_next_epoch (bb_bsm m1) = Some e'" "bsm_latest_epoch_change_block_number (bb_bsm m1) = n"
    and "bb_state m1 = bb_state m" "is_ready m"
    and "keys_ok (bb_bsm m) \<Longrightarrow> \<exists>r. result_at (bb_bsm m1) e n = Some (i, r)"
proof -
  from assms obtain b p rd es where b: "bsm_get (bb_bsm m) e n = Some (Ordered b p rd)" "is_ready m"
    and m1: "m1 = m\<lparr>bb_bsm := handle_epoch_change_suffix_blocks L n e i (xb_usecs b) rd h es
        (bsm_put e n (Computed i \<lparr>scr_execution_output =
             \<lparr>cr_data = h, cr_txn_num = of_nat (length (xb_txns b)), cr_txn_status = st, cr_events = evs\<rparr>,
             scr_epoch_state = Some es, scr_block_end_info = None\<rparr>)
          ((bb_bsm m)\<lparr>bsm_latest_epoch_change_block_number := n, bsm_next_epoch := Some e'\<rparr>))\<rparr>"
    by (auto simp: set_compute_res_def calculate_new_epoch_state_def Let_def
        split: if_splits option.splits block_state.splits sum.splits)
  show "bsm_next_epoch (bb_bsm m1) = Some e'" "bsm_latest_epoch_change_block_number (bb_bsm m1) = n"
    "bb_state m1 = bb_state m" "is_ready m"
    using b(2) by (simp_all add: m1 handle_suffix_fields)
  show "\<exists>r. result_at (bb_bsm m1) e n = Some (i, r)" if "keys_ok (bb_bsm m)"
    using that by (simp add: m1 result_at_def handle_suffix_get keys_ok_put)
qed



section \<open>An example\<close>

definition ex_codec :: validator_set_codec where
  "ex_codec = \<lparr>vc_from_bytes = Inr, vc_convert_validator_set = Inr\<rparr>"

definition ex_config :: buffer_config where
  "ex_config = \<lparr>cfg_max_wait_timeout = 5, cfg_max_block_size = 2\<rparr>"

text \<open>Block \<open>n\<close> of epoch \<open>e\<close> with the id \<open>i\<close>.\<close>

definition ex_xb :: "u64 \<Rightarrow> u64 \<Rightarrow> block_id \<Rightarrow> external_block" where
  "ex_xb e n i = \<lparr>xb_block_id = i, xb_block_number = n, xb_usecs = 0, xb_epoch = e, xb_txns = []\<rparr>"

definition ex_bb_ops :: "bb_op list" where
  "ex_bb_ops = [BbInit 0 [(0, 1, 100)] 1, SetOrderedBlocks 100 (ex_xb 1 1 101) 1, SetOrderedBlocks 101 (ex_xb 1 2 102) 2]"

definition ex_ref :: "u64 \<Rightarrow> block_id \<Rightarrow> block_hash_ref" where
  "ex_ref n i = \<lparr>bhr_block_id = i, bhr_num = n, bhr_hash = None, bhr_persist_notifier = None\<rparr>"

definition ex_buffer :: block_buffer where
  "ex_buffer = fst (the (bb_run example_laptos ex_codec ex_config ex_bb_ops))"

lemma ex_buffer_run: "bb_run example_laptos ex_codec ex_config ex_bb_ops = Some (ex_buffer, [])"
proof -
  have "map_option snd (bb_run example_laptos ex_codec ex_config ex_bb_ops) = Some []" by code_simp
  then show ?thesis by (cases "bb_run example_laptos ex_codec ex_config ex_bb_ops") (auto simp: ex_buffer_def)
qed

lemma ex_buffer_fields:
  "bsm_get (bb_bsm ex_buffer) 1 1 = Some (Ordered (ex_xb 1 1 101) 100 1)"
  "bsm_get (bb_bsm ex_buffer) 1 2 = Some (Ordered (ex_xb 1 2 102) 101 2)" "bsm_get (bb_bsm ex_buffer) 1 3 = None"
  "is_ready ex_buffer" "\<not> bsm_epoch_change_ready (bb_bsm ex_buffer)" "bsm_current_epoch (bb_bsm ex_buffer) = 1"
  "cfg_max_wait_timeout (bb_config ex_buffer) = 5"
  by code_simp+

lemma collect_ordered_step:
  "bsm_get s e n = Some (Ordered b p r) \<Longrightarrow> \<not> reached_max k (Suc (length acc)) \<Longrightarrow> n \<noteq> u64_max \<Longrightarrow>
   collect_ordered s e k n acc = collect_ordered s e k (n + 1) (acc @ [(b, p)])"
  by (subst collect_ordered.simps) (simp add: checked_add_one_Some [THEN iffD2])

lemma collect_ordered_stop: "bsm_get s e n = None \<Longrightarrow> collect_ordered s e k n acc = Some acc"
  by (subst collect_ordered.simps) simp

theorem ordered_blocks_consecutive_witness:
  "\<exists>bs. get_ordered_blocks 0 1 (Some 5) 1 ex_buffer = Some (Ready (Inr bs)) \<and> length bs = 2 \<and>
     (\<forall>j < length bs. xb_epoch (fst (bs ! j)) = 1 \<and> xb_block_number (fst (bs ! j)) = 1 + of_nat j)"
proof -
  let ?bs = "[(ex_xb 1 1 101, 100), (ex_xb 1 2 102, 101)]"
  have g: "get_ordered_blocks 0 1 (Some 5) 1 ex_buffer = Some (Ready (Inr ?bs))"
    by (simp add: get_ordered_blocks_def ex_buffer_fields collect_ordered_step collect_ordered_stop reached_max_def u64_max_def)
  note o = ordered_blocks_consecutive [OF ex_buffer_run g, THEN conjunct2, THEN conjunct2, THEN conjunct2, THEN conjunct1]
  have "length ?bs = 2" by simp
  with g o show ?thesis by (intro exI [of _ ?bs] conjI)
qed

definition ex_committed :: block_buffer where
  "ex_committed = fst (the (bb_run example_laptos ex_codec ex_config
     (ex_bb_ops @ [SetComputeRes 101 7 1 1 None [NewEpoch 2 4], SetCommitBlocks [ex_ref 1 101] 1])))"

lemma ex_committed_run:
  "bb_run example_laptos ex_codec ex_config
     (ex_bb_ops @ [SetComputeRes 101 7 1 1 None [NewEpoch 2 4], SetCommitBlocks [ex_ref 1 101] 1]) = Some (ex_committed, [])"
  (is "?r = _")
proof -
  have "map_option snd ?r = Some []" by code_simp
  then show ?thesis by (cases ?r) (auto simp: ex_committed_def)
qed

lemma ex_committed_fields:
  "map_option get_block_id (bsm_get (bb_bsm ex_committed) 1 1) = Some 101"
  "notifier_at (bb_bsm ex_committed) 1 1 = Some 0"
  "\<not> is_suffix_block (bb_bsm ex_committed) 1" "is_suffix_block (bb_bsm ex_committed) 2"
  "is_ready ex_committed" "cfg_max_wait_timeout (bb_config ex_committed) = 5"
  by code_simp+

theorem persist_notified_once_witness:
  "\<exists>m. bb_run example_laptos ex_codec ex_config
     ((ex_bb_ops @ [SetComputeRes 101 7 1 1 None [NewEpoch 2 4], SetCommitBlocks [ex_ref 1 101] 1]) @
      [GetCommittedBlocks 0 1 None 1]) = Some (m, [0]) \<and> notifier_at (bb_bsm m) 1 1 = None"
proof -
  let ?s = "bb_bsm ex_committed"
  from ex_committed_fields(1,2) obtain h c where c: "bsm_get ?s 1 1 = Some (Committed h c 101 (Some 0))"
    by (auto simp: notifier_at_def split: option.splits block_state.splits)
  let ?s' = "bsm_put 1 1 (Committed h c 101 None) ?s"
  have suffix: "is_suffix_block ?s' 2" using ex_committed_fields(4) by (simp add: is_suffix_block_def)
  have "collect_committed 1 None 1 [] ?s =
      Some ([\<lparr>bhr_block_id = 101, bhr_num = 1, bhr_hash = h, bhr_persist_notifier = Some 0\<rparr>], ?s')"
    by (subst collect_committed.simps)
      (simp add: c ex_committed_fields reached_max_def checked_add_one_Some [THEN iffD2] u64_max_def
        collect_committed.simps [of _ _ 2] suffix)
  then have r: "bb_run example_laptos ex_codec ex_config
     ((ex_bb_ops @ [SetComputeRes 101 7 1 1 None [NewEpoch 2 4], SetCommitBlocks [ex_ref 1 101] 1]) @
      [GetCommittedBlocks 0 1 None 1]) = Some (ex_committed\<lparr>bb_bsm := ?s'\<rparr>, [0])"
    by (subst bb_run_snoc)
      (simp add: ex_committed_run bb_step_Some get_committed_blocks_def ex_committed_fields handed_out_def List.map_filter_def)
  have "notifier_at ?s' 1 1 \<noteq> Some 0"
    using persist_notified_once [OF r] by (auto simp: notifier_at_def)
  then have "notifier_at ?s' 1 1 = None" by (simp add: notifier_at_def)
  with r show ?thesis by (intro exI [of _ "ex_committed\<lparr>bb_bsm := ?s'\<rparr>"]) simp
qed

theorem pop_txns_prefix_witness:
  "\<exists>n txns m'. pop_txns 2 10 (push_txns 0 [3] 6 (push_txns 0 [1, 2] 5 (bb_new ex_config))) = Some (txns, m') \<and> n > 0 \<and>
     txns = concat (map ti_txns (take n (bb_txns (push_txns 0 [3] 6 (push_txns 0 [1, 2] 5 (bb_new ex_config))))))"
  using pop_txns_prefix [of "push_txns 0 [3] 6 (push_txns 0 [1, 2] 5 (bb_new ex_config))" 2 10]
  by (auto simp: push_txns_def bb_new_def)

lemma ex_result:
  "get_executed_res example_laptos 0 102 2 1 ex_committed =
     (Ready (Inr (new_dummy_with_epoch_state example_laptos \<lparr>es_epoch = 2, es_verifier = 4\<rparr>)), ex_committed)"
  by code_simp

theorem executed_results_final_witness:
  "\<exists>r m'. get_executed_res example_laptos 0 102 2 1
      (snd (set_commit_blocks [ex_ref 2 102] 1 ex_committed)) = (Ready (Inr r), m') \<and>
     r = new_dummy_with_epoch_state example_laptos \<lparr>es_epoch = 2, es_verifier = 4\<rparr>"
proof -
  let ?m = "snd (set_commit_blocks [ex_ref 2 102] 1 ex_committed)"
  have p: "bsm_get (bb_bsm ex_committed) 1 2 \<noteq> None" by code_simp
  have run: "run_ops (bb_step example_laptos ex_codec) (Some (ex_committed, [])) [SetCommitBlocks [ex_ref 2 102] 1] = Some (?m, [])"
    by (simp add: bb_step_Some)
  have "\<exists>r. get_executed_res example_laptos 0 102 2 1 ?m = (Ready (Inr r), ?m)"
    by (rule exI [of _ "new_dummy_with_epoch_state example_laptos \<lparr>es_epoch = 2, es_verifier = 4\<rparr>"]) code_simp
  then obtain r where r: "get_executed_res example_laptos 0 102 2 1 ?m = (Ready (Inr r), ?m)" by blast
  from executed_results_final [OF ex_committed_run ex_result p run _ r] r show ?thesis by simp
qed



text \<open>
  C40. The id of a query for a suffix block is not checked. A suffix block is a block behind the
  block that ends the epoch; if one is ordered but not executed, a query for it
  under a wrong id succeeds and replaces the block's id, and from then on the query under
  the right id fails.
\<close>

theorem suffix_query_replaces_id:
  assumes "is_ready m" "t \<le> cfg_max_wait_timeout (bb_config m)" "is_suffix_block (bb_bsm m) n"
    and "bsm_get (bb_bsm m) e n = Some (Ordered b p r)" "i \<noteq> xb_block_id b"
  shows "\<exists>res m' err. get_executed_res L t i n e m = (Ready (Inr res), m') \<and>
     bsm_get (bb_bsm m') e n = Some (Computed i res) \<and>
     get_executed_res L t (xb_block_id b) n e m' = (Ready (Inl err), m')"
proof -
  from assms(3) obtain cache where "bsm_epoch_change_block_info (bb_bsm m) = Some cache"
    by (auto simp: is_suffix_block_def split: option.splits)
  with assms show ?thesis by (simp add: get_executed_res_def is_ready_def Let_def)
qed

definition ex_late_suffix :: block_buffer where
  "ex_late_suffix = snd (set_ordered_blocks 102 (ex_xb 1 3 103) 3 ex_committed)"

theorem suffix_query_replaces_id_witness:
  "\<exists>res m'. get_executed_res example_laptos 0 999 3 1 ex_late_suffix = (Ready (Inr res), m') \<and>
     bsm_get (bb_bsm m') 1 3 = Some (Computed 999 res)"
proof -
  have "is_ready ex_late_suffix" "is_suffix_block (bb_bsm ex_late_suffix) 3"
    "bsm_get (bb_bsm ex_late_suffix) 1 3 = Some (Ordered (ex_xb 1 3 103) 102 3)"
    "cfg_max_wait_timeout (bb_config ex_late_suffix) = 5" by code_simp+
  with suffix_query_replaces_id [of ex_late_suffix 0 3 1 "ex_xb 1 3 103" 102 3 999 example_laptos]
  show ?thesis by (auto simp: ex_xb_def)
qed

end
