(* ===== verification/Pipeline_Buffer.thy ===== *)
theory Pipeline_Buffer
  imports Pipelined_Block
begin

text \<open>
  The buffer of the execution pipeline (pipeline/buffer.rs): an ordered dictionary, kept as a hash
  map of linked items with cursors to the first and the last one. Every \<open>unwrap\<close> can panic
  (\<open>None\<close>); \<open>find_elem_from\<close> follows the links and would not return on a cycle, so its loop is a
  partial function. The facts show that the structure refines a list of pairs: no operation panics
  or loops and each returns what the same operation on the list returns.
\<close>

section \<open>The linked dictionary\<close>

type_synonym cursor = "hash_value option"

record 'a linked_item =
  lk_elem :: "'a option"
  lk_index :: u64
  lk_next :: cursor

record 'a buffer =
  bf_map :: "(hash_value \<times> 'a linked_item) list"
  bf_count :: u64
  bf_head :: cursor
  bf_tail :: cursor

definition buf_new :: "'a buffer" where
  "buf_new = \<lparr>bf_map = [], bf_count = 0, bf_head = None, bf_tail = None\<rparr>"

definition buf_len :: "'a buffer \<Rightarrow> nat" where
  "buf_len b = length (bf_map b)"

text \<open>\<open>HashMap::remove\<close>.\<close>

definition al_remove :: "'k \<Rightarrow> ('k \<times> 'v) list \<Rightarrow> ('k \<times> 'v) list" where
  "al_remove k xs = filter (\<lambda>p. fst p \<noteq> k) xs"

text \<open>The trait \<open>Hashable\<close> is the argument \<open>hash\<close>; computing the hash may panic.\<close>

definition buf_push_back :: "('a \<Rightarrow> hash_value option) \<Rightarrow> 'a \<Rightarrow> 'a buffer \<Rightarrow> 'a buffer option" where
  "buf_push_back hash elem b =
     Option.bind (checked_add (bf_count b) 1) (\<lambda>count.
     Option.bind (hash elem) (\<lambda>t_hash.
     let m = al_insert t_hash \<lparr>lk_elem = Some elem, lk_index = count, lk_next = None\<rparr> (bf_map b) in
     Option.bind (case bf_tail b of
                    None \<Rightarrow> Some m
                  | Some tail \<Rightarrow>
                      map_option (\<lambda>item. al_insert tail (item\<lparr>lk_next := Some t_hash\<rparr>) m) (map_of m tail))
       (\<lambda>m. Some \<lparr>bf_map = m, bf_count = count,
                  bf_head = (case bf_head b of None \<Rightarrow> Some t_hash | Some h \<Rightarrow> Some h),
                  bf_tail = Some t_hash\<rparr>)))"

definition buf_pop_front :: "'a buffer \<Rightarrow> ('a option \<times> 'a buffer) option" where
  "buf_pop_front b =
     (case bf_head b of
        None \<Rightarrow> Some (None, b)
      | Some head \<Rightarrow>
          Option.bind (map_of (bf_map b) head) (\<lambda>item.
          Option.bind (lk_elem item) (\<lambda>elem.
          Some (Some elem,
            b\<lparr>bf_map := al_remove head (bf_map b), bf_head := lk_next item,
              bf_tail := (if lk_next item = None then None else bf_tail b)\<rparr>))))"

definition buf_get_next :: "'a buffer \<Rightarrow> cursor \<Rightarrow> cursor option" where
  "buf_get_next b c = Option.bind c (\<lambda>k. map_option lk_next (map_of (bf_map b) k))"

definition buf_get :: "'a buffer \<Rightarrow> cursor \<Rightarrow> 'a option" where
  "buf_get b c = Option.bind c (\<lambda>k. Option.bind (map_of (bf_map b) k) lk_elem)"

definition buf_set :: "cursor \<Rightarrow> 'a \<Rightarrow> 'a buffer \<Rightarrow> 'a buffer option" where
  "buf_set c new_val b =
     Option.bind c (\<lambda>k. Option.bind (map_of (bf_map b) k) (\<lambda>item.
       Some (b\<lparr>bf_map := al_insert k (item\<lparr>lk_elem := Some new_val\<rparr>) (bf_map b)\<rparr>)))"

definition buf_take :: "cursor \<Rightarrow> 'a buffer \<Rightarrow> ('a \<times> 'a buffer) option" where
  "buf_take c b =
     Option.bind c (\<lambda>k. Option.bind (map_of (bf_map b) k) (\<lambda>item.
     Option.bind (lk_elem item) (\<lambda>elem.
       Some (elem, b\<lparr>bf_map := al_insert k (item\<lparr>lk_elem := None\<rparr>) (bf_map b)\<rparr>))))"

definition buf_exist :: "'a buffer \<Rightarrow> cursor \<Rightarrow> bool" where
  "buf_exist b c = (case c of None \<Rightarrow> False | Some key \<Rightarrow> map_of (bf_map b) key \<noteq> None)"

partial_function (option) find_elem_loop :: "('a \<Rightarrow> bool) \<Rightarrow> 'a buffer \<Rightarrow> cursor \<Rightarrow> cursor option" where
  "find_elem_loop compare b current =
     (if current = None then Some None
      else Option.bind (buf_get b current) (\<lambda>e.
           if compare e then Some current
           else Option.bind (buf_get_next b current) (find_elem_loop compare b)))"

definition find_elem_from :: "cursor \<Rightarrow> ('a \<Rightarrow> bool) \<Rightarrow> 'a buffer \<Rightarrow> cursor option" where
  "find_elem_from c compare b = (if buf_exist b c then find_elem_loop compare b c else Some None)"

definition find_elem_by_key :: "cursor \<Rightarrow> hash_value \<Rightarrow> 'a buffer \<Rightarrow> cursor" where
  "find_elem_by_key c key b =
     Option.bind c (\<lambda>k. Option.bind (map_of (bf_map b) k) (\<lambda>cursor_item.
     Option.bind (map_of (bf_map b) key) (\<lambda>item.
       if lk_index cursor_item \<le> lk_index item then Some key else None)))"

section \<open>The buffer as a list\<close>

text \<open>
  \<open>links m lo c xs\<close>: from cursor \<open>c\<close> the links lead through the entries \<open>xs\<close>, each with its
  element (\<open>None\<close> where it is taken out), the indices increase and are above \<open>lo\<close>.
\<close>

primrec links ::
  "(hash_value \<Rightarrow> 'a linked_item option) \<Rightarrow> nat \<Rightarrow> cursor \<Rightarrow> (hash_value \<times> 'a option) list \<Rightarrow> bool" where
  "links m lo c [] \<longleftrightarrow> c = None"
| "links m lo c (x # xs) \<longleftrightarrow> c = Some (fst x) \<and>
     (case m (fst x) of
        None \<Rightarrow> False
      | Some item \<Rightarrow> lk_elem item = snd x \<and> lo < unat (lk_index item) \<and>
                     links m (unat (lk_index item)) (lk_next item) xs)"

definition buf_rep :: "'a buffer \<Rightarrow> (hash_value \<times> 'a option) list \<Rightarrow> bool" where
  "buf_rep b xs \<longleftrightarrow>
     distinct (map fst (bf_map b)) \<and> distinct (map fst xs) \<and>
     fst ` set (bf_map b) = fst ` set xs \<and>
     links (map_of (bf_map b)) 0 (bf_head b) xs \<and>
     bf_tail b = (if xs = [] then None else Some (fst (last xs))) \<and>
     (\<forall>k item. map_of (bf_map b) k = Some item \<longrightarrow> unat (lk_index item) \<le> unat (bf_count b))"

lemma map_of_al_remove [simp]: "map_of (al_remove k xs) = (map_of xs)(k := None)"
  by (induction xs) (auto simp: al_remove_def)

lemma keys_al_remove [simp]: "fst ` set (al_remove k xs) = fst ` set xs - {k}"
  by (auto simp: al_remove_def)

lemma distinct_al_remove: "distinct (map fst xs) \<Longrightarrow> distinct (map fst (al_remove k xs))"
  by (simp add: al_remove_def distinct_map_filter)

lemma links_upd: "k \<notin> fst ` set xs \<Longrightarrow> links (m(k := v)) lo c xs = links m lo c xs"
  by (induction xs arbitrary: lo c) (auto split: option.split)

lemma links_mono: "links m lo c xs \<Longrightarrow> lo' \<le> lo \<Longrightarrow> links m lo' c xs"
  by (cases xs) (auto split: option.splits)

lemma links_head: "links m lo c xs \<Longrightarrow> c = (if xs = [] then None else Some (fst (hd xs)))"
  by (cases xs) auto

lemma links_set:
  "links m lo c (ys @ (k, e) # zs) \<Longrightarrow> distinct (map fst (ys @ (k, e) # zs)) \<Longrightarrow> m k = Some item \<Longrightarrow>
   links (m(k \<mapsto> item\<lparr>lk_elem := e'\<rparr>)) lo c (ys @ (k, e') # zs)"
  by (induction ys arbitrary: lo c) (auto split: option.splits simp: links_upd)

lemma links_at:
  "links m lo c (ys @ (k, e) # zs) \<Longrightarrow>
   \<exists>item lo'. m k = Some item \<and> lk_elem item = e \<and> lo \<le> lo' \<and> links m lo' (Some k) ((k, e) # zs)"
proof (induction ys arbitrary: lo c)
  case (Cons y ys)
  then obtain item where "m (fst y) = Some item" "lo < unat (lk_index item)"
    "links m (unat (lk_index item)) (lk_next item) (ys @ (k, e) # zs)" by (auto split: option.splits)
  moreover obtain item' lo' where "m k = Some item'" "lk_elem item' = e" "unat (lk_index item) \<le> lo'"
    "links m lo' (Some k) ((k, e) # zs)" using Cons.IH [OF calculation(3)] by (elim exE conjE)
  ultimately show ?case by (intro exI [of _ item'] exI [of _ lo']) simp
qed (auto split: option.splits)

lemma links_snoc:
  assumes "links m lo c xs" "xs \<noteq> []" "distinct (map fst xs)" "k \<notin> fst ` set xs"
    "m (fst (last xs)) = Some item" "\<forall>x \<in> set xs. \<forall>it. m (fst x) = Some it \<longrightarrow> unat (lk_index it) < unat i"
  shows "links (m(k \<mapsto> \<lparr>lk_elem = Some e, lk_index = i, lk_next = None\<rparr>, fst (last xs) \<mapsto> item\<lparr>lk_next := Some k\<rparr>))
           lo c (xs @ [(k, Some e)])"
  using assms
proof (induction xs arbitrary: lo c)
  case (Cons x xs)
  show ?case
  proof (cases xs)
    case Nil
    with Cons.prems show ?thesis by (auto split: option.splits)
  next
    case (Cons y ys)
    obtain it where it: "m (fst x) = Some it" "c = Some (fst x)" "lk_elem it = snd x" "lo < unat (lk_index it)"
      "links m (unat (lk_index it)) (lk_next it) xs"
      using Cons.prems(1) by (auto split: option.splits)
    have "fst (last xs) \<in> fst ` set xs" using Cons by simp
    moreover have "fst x \<notin> fst ` set xs" using Cons.prems(3) by simp
    ultimately have "fst x \<noteq> fst (last xs)" by metis
    moreover have "fst x \<noteq> k" using Cons.prems(4) by auto
    moreover have "fst (last (x # xs)) = fst (last xs)" using Cons by simp
    moreover note Cons.IH [OF it(5)] Cons.prems it Cons
    ultimately show ?thesis by simp
  qed
qed simp


lemma buf_rep_new: "buf_rep buf_new []"
  by (simp add: buf_rep_def buf_new_def)

lemma buf_rep_len: "buf_rep b xs \<Longrightarrow> buf_len b = length xs"
  by (auto simp: buf_rep_def buf_len_def) (metis distinct_card length_map set_map)

lemma buf_rep_map_of:
  assumes "buf_rep b xs" "map_of xs k = Some e"
  obtains item where "map_of (bf_map b) k = Some item" "lk_elem item = e"
proof -
  obtain ys zs where "xs = ys @ (k, e) # zs" using map_of_SomeD [OF assms(2)] by (metis split_list)
  then have "links (map_of (bf_map b)) 0 (bf_head b) (ys @ (k, e) # zs)" using assms(1) by (simp add: buf_rep_def)
  from links_at [OF this] that show ?thesis by (elim exE conjE)
qed

lemma buf_rep_map_of_None: "buf_rep b xs \<Longrightarrow> map_of (bf_map b) k = None \<longleftrightarrow> map_of xs k = None"
  by (simp add: buf_rep_def map_of_eq_None_iff)

lemma buf_rep_push_back:
  assumes "buf_rep b xs" "hash e = Some k" "k \<notin> fst ` set xs" "Suc (unat (bf_count b)) < 2 ^ 64"
  shows "\<exists>b'. buf_push_back hash e b = Some b' \<and> buf_rep b' (xs @ [(k, Some e)]) \<and>
    unat (bf_count b') = Suc (unat (bf_count b))"
proof -
  obtain i where i: "checked_add (bf_count b) 1 = Some i" using assms(4) by (auto simp: checked_add_def)
  then have ui: "unat i = Suc (unat (bf_count b))" by (auto dest: checked_add_Some)
  let ?new = "\<lparr>lk_elem = Some e, lk_index = i, lk_next = None\<rparr>"
  note r = assms(1)[unfolded buf_rep_def]
  show ?thesis
  proof (cases "xs = []")
    case True
    with r i ui assms(2) show ?thesis
      by (auto simp: buf_push_back_def buf_rep_def Let_def)
  next
    case False
    then have l: "fst (last xs) \<in> fst ` set xs" by simp
    with assms(3) have kl: "k \<noteq> fst (last xs)" by auto
    from l r obtain item where item: "map_of (bf_map b) (fst (last xs)) = Some item"
      by (metis map_of_eq_None_iff not_None_eq)
    have hd: "bf_head b \<noteq> None" using r False links_head [of _ 0 "bf_head b" xs] by auto
    have idx: "unat (lk_index it) < unat i" if "map_of (bf_map b) k' = Some it" for k' it
      using r that ui by (auto simp: less_Suc_eq_le)
    have "links ((map_of (bf_map b))(k \<mapsto> ?new, fst (last xs) \<mapsto> item\<lparr>lk_next := Some k\<rparr>)) 0 (bf_head b) (xs @ [(k, Some e)])"
      by (rule links_snoc) (use r False assms(3) item idx in auto)
    with r i ui assms(2,3) item kl hd False l show ?thesis
      by (auto simp: buf_push_back_def buf_rep_def Let_def distinct_al_insert split: option.split)
        (auto simp: less_Suc_eq_le intro: le_SucI)
  qed
qed

lemma buf_rep_pop_front:
  assumes "buf_rep b ((k, Some e) # xs)"
  shows "\<exists>b'. buf_pop_front b = Some (Some e, b') \<and> buf_rep b' xs \<and> bf_count b' = bf_count b"
proof -
  note r = assms[unfolded buf_rep_def]
  obtain item where item: "map_of (bf_map b) k = Some item" "lk_elem item = Some e" "bf_head b = Some k"
    "links (map_of (bf_map b)) (unat (lk_index item)) (lk_next item) xs"
    using r by (auto split: option.splits)
  have n: "lk_next item = None \<longleftrightarrow> xs = []" using links_head [OF item(4)] by simp
  have "links ((map_of (bf_map b))(k := None)) 0 (lk_next item) xs"
    using links_mono [OF item(4)] r by (simp add: links_upd)
  with r item n show ?thesis
    by (auto simp: buf_pop_front_def buf_rep_def distinct_al_remove split: if_splits)
qed

lemma buf_rep_pop_empty: "buf_rep b [] \<Longrightarrow> buf_pop_front b = Some (None, b)"
  by (simp add: buf_rep_def buf_pop_front_def)

lemma buf_rep_get: "buf_rep b xs \<Longrightarrow> map_of xs k = Some e \<Longrightarrow> buf_get b (Some k) = e"
  by (auto simp: buf_get_def elim: buf_rep_map_of)


lemma al_insert_at: "k \<notin> fst ` set ys \<Longrightarrow> al_insert k e' (ys @ (k, e) # zs) = ys @ (k, e') # zs"
  by (induction ys) auto

lemma keys_al_insert_map: "k \<in> fst ` set xs \<Longrightarrow> map fst (al_insert k e xs) = map fst xs"
  by (induction k e xs rule: al_insert.induct) auto

lemma buf_rep_upd:
  assumes "buf_rep b xs" "map_of (bf_map b) k = Some item"
  shows "buf_rep (b\<lparr>bf_map := al_insert k (item\<lparr>lk_elem := e'\<rparr>) (bf_map b)\<rparr>) (al_insert k e' xs)"
proof -
  note r = assms(1)[unfolded buf_rep_def]
  have k: "k \<in> fst ` set xs" using r assms(2) by (metis map_of_eq_None_iff option.distinct(1))
  then obtain ys e zs where xs: "xs = ys @ (k, e) # zs" by (metis imageE prod.collapse split_list)
  then have ny: "k \<notin> fst ` set ys" using r by simp
  have "links ((map_of (bf_map b))(k \<mapsto> item\<lparr>lk_elem := e'\<rparr>)) 0 (bf_head b) (ys @ (k, e') # zs)"
    by (rule links_set) (use r xs assms(2) in auto)
  with r k assms(2) ny show ?thesis
    by (auto simp: buf_rep_def distinct_al_insert keys_al_insert_map xs al_insert_at)
qed

lemma buf_rep_take:
  assumes "buf_rep b xs" "map_of xs k = Some (Some e)"
  shows "\<exists>b'. buf_take (Some k) b = Some (e, b') \<and> buf_rep b' (al_insert k None xs) \<and> bf_count b' = bf_count b"
proof -
  obtain item where "map_of (bf_map b) k = Some item" "lk_elem item = Some e" using assms by (rule buf_rep_map_of)
  with buf_rep_upd [OF assms(1) this(1), of None] show ?thesis by (simp add: buf_take_def)
qed

lemma buf_rep_set:
  assumes "buf_rep b xs" "k \<in> fst ` set xs"
  shows "\<exists>b'. buf_set (Some k) e b = Some b' \<and> buf_rep b' (al_insert k (Some e) xs) \<and> bf_count b' = bf_count b"
proof -
  obtain item where "map_of (bf_map b) k = Some item"
    using assms by (metis buf_rep_map_of_None map_of_eq_None_iff not_None_eq)
  with buf_rep_upd [OF assms(1) this, of "Some e"] show ?thesis by (simp add: buf_set_def)
qed

abbreviation filled :: "(hash_value \<times> 'a) list \<Rightarrow> (hash_value \<times> 'a option) list" where
  "filled xs \<equiv> map (apsnd Some) xs"

lemma find_elem_loop_links:
  "links (map_of (bf_map b)) lo c (filled xs) \<Longrightarrow>
   find_elem_loop P b c = Some (map_option fst (find (\<lambda>p. P (snd p)) xs))"
proof (induction xs arbitrary: lo c)
  case Nil
  then show ?case by (simp add: find_elem_loop.simps [of P b None])
next
  case (Cons x xs)
  then obtain item where item: "map_of (bf_map b) (fst x) = Some item" "c = Some (fst x)" "lk_elem item = Some (snd x)"
    "links (map_of (bf_map b)) (unat (lk_index item)) (lk_next item) (filled xs)" by (auto split: option.splits)
  have "buf_get b c = Some (snd x)" "buf_get_next b c = Some (lk_next item)"
    using item by (simp_all add: buf_get_def buf_get_next_def)
  with item(2) Cons.IH [OF item(4)] show ?case by (subst find_elem_loop.simps) simp
qed

lemma links_sorted:
  assumes "links m lo c (ys @ (k, e) # zs)" "m k = Some it"
  shows "(\<forall>x \<in> set ys. \<exists>i. m (fst x) = Some i \<and> lk_index i < lk_index it) \<and>
         (\<forall>x \<in> set zs. \<exists>i. m (fst x) = Some i \<and> lk_index it < lk_index i)"
proof -
  have all: "\<exists>i. m (fst x) = Some i \<and> lo < unat (lk_index i)" if "links m lo c xs" "x \<in> set xs" for lo c xs x
    using that
  proof (induction xs arbitrary: lo c)
    case (Cons y xs)
    then show ?case by (fastforce split: option.splits)
  qed simp
  show ?thesis using assms
  proof (induction ys arbitrary: lo c)
    case Nil
    then show ?case by (auto split: option.splits simp: word_less_nat_alt dest: all)
  next
    case (Cons y ys)
    then obtain i where i: "m (fst y) = Some i" "links m (unat (lk_index i)) (lk_next i) (ys @ (k, e) # zs)"
      by (auto split: option.splits)
    with all [OF i(2), of "(k, e)"] Cons show ?case by (auto simp: word_less_nat_alt)
  qed
qed

definition find_from :: "cursor \<Rightarrow> ('a \<Rightarrow> bool) \<Rightarrow> (hash_value \<times> 'a) list \<Rightarrow> cursor" where
  "find_from c P xs =
     Option.bind c (\<lambda>k. map_option fst (find (\<lambda>p. P (snd p)) (dropWhile (\<lambda>p. fst p \<noteq> k) xs)))"

definition find_by_key :: "cursor \<Rightarrow> hash_value \<Rightarrow> (hash_value \<times> 'a) list \<Rightarrow> cursor" where
  "find_by_key c key xs =
     Option.bind c (\<lambda>k. if key \<in> fst ` set (dropWhile (\<lambda>p. fst p \<noteq> k) xs) then Some key else None)"

lemma dropWhile_key:
  "k \<notin> fst ` set ys \<Longrightarrow> dropWhile (\<lambda>p. fst p \<noteq> k) (ys @ (k, e) # zs) = (k, e) # zs"
  "k \<notin> fst ` set xs \<Longrightarrow> dropWhile (\<lambda>p. fst p \<noteq> k) xs = []"
  by (induction ys) (auto simp: dropWhile_eq_Nil_conv)

lemma buf_find_elem_from:
  assumes "buf_rep b (filled xs)"
  shows "find_elem_from c P b = Some (find_from c P xs)"
proof (cases "\<exists>k e. c = Some k \<and> (k, e) \<in> set xs")
  case True
  then obtain k e ys zs where k: "c = Some k" "xs = ys @ (k, e) # zs" by (metis split_list)
  with assms have "links (map_of (bf_map b)) 0 (bf_head b) (filled ys @ (k, Some e) # filled zs)"
    by (simp add: buf_rep_def)
  from links_at [OF this] obtain item lo' where "map_of (bf_map b) k = Some item"
    "links (map_of (bf_map b)) lo' (Some k) (filled ((k, e) # zs))" by auto
  moreover have "k \<notin> fst ` set ys" using assms k by (auto simp: buf_rep_def image_image)
  ultimately show ?thesis using find_elem_loop_links [of b lo' "Some k" "(k, e) # zs" P] k
    by (simp add: find_elem_from_def buf_exist_def find_from_def dropWhile_key)
next
  case False
  then have "\<not> buf_exist b c" and "find_from c P xs = None"
    using assms buf_rep_map_of_None [OF assms]
    by (cases c; force simp: buf_exist_def find_from_def dropWhile_key map_of_eq_None_iff image_image)+
  then show ?thesis by (simp add: find_elem_from_def)
qed


lemma buf_find_elem_by_key:
  assumes "buf_rep b (filled xs)"
  shows "find_elem_by_key c key b = find_by_key c key xs"
proof (cases "\<exists>k e. c = Some k \<and> (k, e) \<in> set xs")
  case True
  then obtain k e ys zs where k: "c = Some k" "xs = ys @ (k, e) # zs" by (metis split_list)
  note r = assms[unfolded buf_rep_def]
  have l: "links (map_of (bf_map b)) 0 (bf_head b) (filled ys @ (k, Some e) # filled zs)" using r k by simp
  obtain item where item: "map_of (bf_map b) k = Some item" using links_at [OF l] by blast
  note s = links_sorted [OF l item]
  have ky: "k \<notin> fst ` set ys" using r k by (simp add: image_image)
  consider "key = k" | "key \<in> fst ` set ys" "key \<notin> fst ` set zs" "key \<noteq> k" | "key \<in> fst ` set zs"
    | "key \<notin> fst ` set xs" using ky r k by (auto simp: image_image)
  then show ?thesis
  proof cases
    case 2
    then obtain i where "map_of (bf_map b) key = Some i" "lk_index i < lk_index item" using s by fastforce
    with 2 item k ky show ?thesis by (simp add: find_elem_by_key_def find_by_key_def dropWhile_key)
  next
    case 3
    then obtain i where "map_of (bf_map b) key = Some i" "lk_index item < lk_index i" using s by fastforce
    with 3 item k ky show ?thesis by (simp add: find_elem_by_key_def find_by_key_def dropWhile_key)
  next
    case 4
    then have "map_of (bf_map b) key = None" using buf_rep_map_of_None [OF assms, of key]
      by (simp add: map_of_eq_None_iff image_image)
    moreover have "key \<notin> fst ` set zs" "key \<noteq> k" using 4 k(2) by (simp_all add: image_Un)
    ultimately show ?thesis using item k ky by (simp add: find_elem_by_key_def find_by_key_def dropWhile_key)
  qed (use item k ky in \<open>simp add: find_elem_by_key_def find_by_key_def dropWhile_key\<close>)
next
  case False
  show ?thesis
  proof (cases c)
    case (Some k)
    have k: "k \<notin> fst ` set xs" using False Some by force
    then have "map_of (bf_map b) k = None" using buf_rep_map_of_None [OF assms, of k]
      by (simp add: map_of_eq_None_iff image_image)
    with Some k show ?thesis by (simp add: find_elem_by_key_def find_by_key_def dropWhile_key)
  qed (simp add: find_elem_by_key_def find_by_key_def)
qed

section \<open>Refinement of a list\<close>

text \<open>
  A concrete machine that may panic simulates an abstract one: as long as the callers respect the
  contract \<open>ok\<close>, related states give the same output and stay related.
\<close>

primrec conc_run :: "('op \<Rightarrow> 'c \<Rightarrow> ('out \<times> 'c) option) \<Rightarrow> 'op list \<Rightarrow> 'c \<Rightarrow> ('out list \<times> 'c) option" where
  "conc_run conc [] s = Some ([], s)"
| "conc_run conc (x # xs) s =
     Option.bind (conc x s) (\<lambda>(out, s). map_option (apfst (Cons out)) (conc_run conc xs s))"

primrec abst_run :: "('op \<Rightarrow> 'a \<Rightarrow> 'out \<times> 'a) \<Rightarrow> 'op list \<Rightarrow> 'a \<Rightarrow> 'out list \<times> 'a" where
  "abst_run abst [] t = ([], t)"
| "abst_run abst (x # xs) t = (case abst x t of (out, t) \<Rightarrow> apfst (Cons out) (abst_run abst xs t))"

primrec ok_run :: "('a \<Rightarrow> 'op \<Rightarrow> bool) \<Rightarrow> ('op \<Rightarrow> 'a \<Rightarrow> 'out \<times> 'a) \<Rightarrow> 'op list \<Rightarrow> 'a \<Rightarrow> bool" where
  "ok_run ok abst [] t \<longleftrightarrow> True"
| "ok_run ok abst (x # xs) t \<longleftrightarrow> ok t x \<and> ok_run ok abst xs (snd (abst x t))"

locale simulation =
  fixes rel :: "'c \<Rightarrow> 'a \<Rightarrow> bool" and ok :: "'a \<Rightarrow> 'op \<Rightarrow> bool"
    and conc :: "'op \<Rightarrow> 'c \<Rightarrow> ('out \<times> 'c) option" and abst :: "'op \<Rightarrow> 'a \<Rightarrow> 'out \<times> 'a"
  assumes sim: "rel s t \<Longrightarrow> ok t x \<Longrightarrow> \<exists>s'. conc x s = Some (fst (abst x t), s') \<and> rel s' (snd (abst x t))"
begin

lemma run_sim:
  "rel s t \<Longrightarrow> ok_run ok abst xs t \<Longrightarrow>
   \<exists>s'. conc_run conc xs s = Some (fst (abst_run abst xs t), s') \<and> rel s' (snd (abst_run abst xs t))"
proof (induction xs arbitrary: s t)
  case (Cons x xs)
  have "ok t x" using Cons.prems(2) by simp
  from sim [OF Cons.prems(1) this] obtain s1 where s1: "conc x s = Some (fst (abst x t), s1)" "rel s1 (snd (abst x t))"
    by blast
  moreover have "ok_run ok abst xs (snd (abst x t))" using Cons.prems(2) by simp
  ultimately obtain s2 where s2: "conc_run conc xs s1 = Some (fst (abst_run abst xs (snd (abst x t))), s2)"
    "rel s2 (snd (abst_run abst xs (snd (abst x t))))" using Cons.IH by blast
  then show ?case using s1(1) by (intro exI [of _ s2]) (simp add: split_beta)
qed simp

end

text \<open>
  The operations as the buffer manager uses them: an element is taken out only to be replaced at
  once (\<open>Replace\<close>). The abstract state is the list of pairs and the number of elements pushed so
  far; the contract is that a pushed element has a key that is not in the buffer, that less than
  \<open>2 ^ 64\<close> elements are ever pushed, and that an element is replaced under a key that is there.
\<close>

datatype 'a buf_op =
    Push_back 'a
  | Pop_front
  | Replace hash_value 'a
  | Find_from cursor "'a \<Rightarrow> bool"
  | Find_by_key cursor hash_value

datatype 'a buf_out = Done | Elem "'a option" | At cursor

definition buf_conc :: "('a \<Rightarrow> hash_value option) \<Rightarrow> 'a buf_op \<Rightarrow> 'a buffer \<Rightarrow> ('a buf_out \<times> 'a buffer) option" where
  "buf_conc hash x b =
     (case x of
        Push_back e \<Rightarrow> map_option (Pair Done) (buf_push_back hash e b)
      | Pop_front \<Rightarrow> map_option (apfst Elem) (buf_pop_front b)
      | Replace k e \<Rightarrow>
          Option.bind (buf_take (Some k) b) (\<lambda>(old, b). map_option (Pair (Elem (Some old))) (buf_set (Some k) e b))
      | Find_from c P \<Rightarrow> map_option (\<lambda>k. (At k, b)) (find_elem_from c P b)
      | Find_by_key c key \<Rightarrow> Some (At (find_elem_by_key c key b), b))"

definition buf_abst ::
  "('a \<Rightarrow> hash_value option) \<Rightarrow> 'a buf_op \<Rightarrow> nat \<times> (hash_value \<times> 'a) list \<Rightarrow>
   'a buf_out \<times> nat \<times> (hash_value \<times> 'a) list" where
  "buf_abst hash x t =
     (case x of
        Push_back e \<Rightarrow> (Done, Suc (fst t), snd t @ [(the (hash e), e)])
      | Pop_front \<Rightarrow> (Elem (if snd t = [] then None else Some (snd (hd (snd t)))), fst t, tl (snd t))
      | Replace k e \<Rightarrow> (Elem (map_of (snd t) k), fst t, al_insert k e (snd t))
      | Find_from c P \<Rightarrow> (At (find_from c P (snd t)), t)
      | Find_by_key c key \<Rightarrow> (At (find_by_key c key (snd t)), t))"

definition buf_op_ok ::
  "('a \<Rightarrow> hash_value option) \<Rightarrow> nat \<times> (hash_value \<times> 'a) list \<Rightarrow> 'a buf_op \<Rightarrow> bool" where
  "buf_op_ok hash t x =
     (case x of
        Push_back e \<Rightarrow>
          (case hash e of None \<Rightarrow> False | Some k \<Rightarrow> k \<notin> fst ` set (snd t)) \<and> Suc (fst t) < 2 ^ 64
      | Replace k e \<Rightarrow> k \<in> fst ` set (snd t)
      | _ \<Rightarrow> True)"

definition buf_rel :: "'a buffer \<Rightarrow> nat \<times> (hash_value \<times> 'a) list \<Rightarrow> bool" where
  "buf_rel b t \<longleftrightarrow> buf_rep b (filled (snd t)) \<and> fst t = unat (bf_count b)"

lemma buf_rel_len: "buf_rel b t \<Longrightarrow> buf_len b = length (snd t)"
  using buf_rep_len [of b "filled (snd t)"] by (simp add: buf_rel_def)

lemma filled_al_insert: "al_insert k (Some e) (filled xs) = filled (al_insert k e xs)"
  by (induction k e xs rule: al_insert.induct) auto

lemma al_insert_twice: "al_insert k v (al_insert k v' xs) = al_insert k v xs"
  by (induction k v' xs rule: al_insert.induct) auto

lemma map_of_filled: "map_of (filled xs) k = map_option Some (map_of xs k)"
  by (induction xs) auto

lemma buf_sim:
  assumes "buf_rel b t" "buf_op_ok hash t x"
  shows "\<exists>b'. buf_conc hash x b = Some (fst (buf_abst hash x t), b') \<and> buf_rel b' (snd (buf_abst hash x t))"
proof -
  obtain n xs where t: "t = (n, xs)" by (cases t)
  note r = assms(1)[unfolded buf_rel_def t fst_conv snd_conv, THEN conjunct1]
  note n = assms(1)[unfolded buf_rel_def t fst_conv snd_conv, THEN conjunct2]
  show ?thesis
  proof (cases x)
    case (Push_back e)
    with assms(2) t obtain k where k: "hash e = Some k" "k \<notin> fst ` set (filled xs)" "Suc n < 2 ^ 64"
      by (auto simp: buf_op_ok_def image_image split: option.splits)
    with buf_rep_push_back [OF r, of hash e k] n Push_back t show ?thesis
      by (auto simp: buf_conc_def buf_abst_def buf_rel_def)
  next
    case Pop_front
    show ?thesis
    proof (cases xs)
      case Nil
      with r n Pop_front t buf_rep_pop_empty [of b] show ?thesis
        by (auto simp: buf_conc_def buf_abst_def buf_rel_def)
    next
      case (Cons p ps)
      with r n Pop_front t buf_rep_pop_front [of b "fst p" "snd p" "filled ps"] show ?thesis
        by (auto simp: buf_conc_def buf_abst_def buf_rel_def apsnd_def map_prod_def split: prod.splits)
    qed
  next
    case (Replace k e)
    with assms(2) t have k: "k \<in> fst ` set xs" by (simp add: buf_op_ok_def)
    then obtain old where old: "map_of xs k = Some old" by (metis map_of_eq_None_iff not_None_eq)
    obtain b1 where b1: "buf_take (Some k) b = Some (old, b1)" "buf_rep b1 (al_insert k None (filled xs))"
      "bf_count b1 = bf_count b" using buf_rep_take [OF r, of k old] old by (auto simp: map_of_filled)
    obtain b2 where "buf_set (Some k) e b1 = Some b2" "buf_rep b2 (filled (al_insert k e xs))" "bf_count b2 = bf_count b1"
      using buf_rep_set [OF b1(2), of k e] by (auto simp: al_insert_twice filled_al_insert)
    with b1 old n Replace t show ?thesis by (simp add: buf_conc_def buf_abst_def buf_rel_def)
  next
    case (Find_from c P)
    with buf_find_elem_from [OF r] assms(1) t show ?thesis by (simp add: buf_conc_def buf_abst_def)
  next
    case (Find_by_key c key)
    with buf_find_elem_by_key [OF r] assms(1) t show ?thesis by (simp add: buf_conc_def buf_abst_def)
  qed
qed

interpretation linked: simulation buf_rel "buf_op_ok hash" "buf_conc hash" "buf_abst hash"
  for hash :: "'a \<Rightarrow> hash_value option"
  by unfold_locales (rule buf_sim)


text \<open>
  C33. The buffer is the ordered dictionary that its comment promises. For every sequence of
  operations that respects their contract, from an empty buffer, no \<open>unwrap\<close> panics, every search
  along the links ends, and the outputs are those of the same operations on a plain list of pairs:
  elements leave in the order in which they came, a search finds the first match at or after its
  cursor, and the length is that of the list.
\<close>

theorem buffer_refines_list:
  assumes "ok_run (buf_op_ok hash) (buf_abst hash) ops (0, [])"
  shows "\<exists>b. conc_run (buf_conc hash) ops buf_new = Some (fst (abst_run (buf_abst hash) ops (0, [])), b) \<and>
    buf_rel b (snd (abst_run (buf_abst hash) ops (0, []))) \<and>
    buf_len b = length (snd (snd (abst_run (buf_abst hash) ops (0, []))))"
proof -
  have "buf_rel buf_new (0, [])" using buf_rep_new by (simp add: buf_rel_def buf_new_def)
  from linked.run_sim [OF this assms] show ?thesis by (blast dest: buf_rel_len)
qed

theorem buffer_refines_list_witness:
  "map_option fst (conc_run (buf_conc Some)
     [Push_back 3, Push_back 5, Push_back 4, Find_from (Some 3) (\<lambda>e. 4 \<le> e), Find_by_key (Some 5) 3, Replace 5 7, Pop_front, Pop_front]
     buf_new) = Some [Done, Done, Done, At (Some 5), At None, Elem (Some 5), Elem (Some 3), Elem (Some (7 :: nat))]"
  using buffer_refines_list [of Some "[Push_back 3, Push_back 5, Push_back 4, Find_from (Some 3) (\<lambda>e. 4 \<le> e), Find_by_key (Some 5) 3, Replace 5 7, Pop_front, Pop_front]"]
  by (auto simp: buf_op_ok_def buf_abst_def find_from_def find_by_key_def)

end
