(* ===== verification/Buffer_Item.thy ===== *)
theory Buffer_Item
  imports Pipeline_Buffer Example_Instance
begin

text \<open>
  Commit votes and decisions (consensus-types/src/pipeline, pipeline/commit\_reliable\_broadcast.rs)
  and the items of the pipeline's buffer (pipeline/buffer\_item.rs). An item is a batch of blocks on
  its way from ordered over executed and signed to aggregated, when its commit proof is complete.
  Panics (assertions, \<open>expect\<close>, \<open>unwrap\<close>) are \<open>None\<close>. A commit callback is an opaque number; the
  handle of a running broadcast is the time at which it was started; logging is left out.
\<close>

section \<open>Commit messages\<close>

record commit_vote =
  cv_author :: author
  cv_ledger_info :: ledger_info
  cv_signature :: signature

abbreviation cv_commit_info :: "commit_vote \<Rightarrow> block_info" where
  "cv_commit_info v \<equiv> li_commit_info (cv_ledger_info v)"

definition new_with_signature :: "author \<Rightarrow> ledger_info \<Rightarrow> signature \<Rightarrow> commit_vote" where
  "new_with_signature author li sig = \<lparr>cv_author = author, cv_ledger_info = li, cv_signature = sig\<rparr>"

definition cv_verify :: "laptos \<Rightarrow> validator_verifier \<Rightarrow> commit_vote \<Rightarrow> string + unit" where
  "cv_verify L validator v =
     (if x_verify L validator (cv_author v) (MsgLedgerInfo (cv_ledger_info v)) (cv_signature v) then Inr ()
      else Inl ''Failed to verify Commit Vote'')"

record commit_decision =
  cd_ledger_info :: li_with_sigs

abbreviation lws_commit_info :: "li_with_sigs \<Rightarrow> block_info" where
  "lws_commit_info p \<equiv> li_commit_info (lws_ledger_info p)"

definition cd_verify :: "laptos \<Rightarrow> validator_verifier \<Rightarrow> commit_decision \<Rightarrow> string + unit" where
  "cd_verify L validator d =
     ensure (\<not> x_is_ordered_only L (lws_commit_info (cd_ledger_info d))) ''Unexpected ordered only commit info''
       (if x_verify_signatures L validator (cd_ledger_info d) then Inr ()
        else Inl ''Failed to verify Commit Decision'')"

datatype commit_message =
    CommitVote commit_vote
  | CommitDecision commit_decision
  | CommitAck
  | CommitNack

definition cm_verify :: "laptos \<Rightarrow> validator_verifier \<Rightarrow> commit_message \<Rightarrow> string + unit" where
  "cm_verify L verifier msg =
     (case msg of
        CommitVote v \<Rightarrow> cv_verify L verifier v
      | CommitDecision d \<Rightarrow> cd_verify L verifier d
      | CommitAck \<Rightarrow> Inl ''Unexpected ack in incoming commit message''
      | CommitNack \<Rightarrow> Inl ''Unexpected NACK in incoming commit message'')"

definition cm_epoch :: "laptos \<Rightarrow> commit_message \<Rightarrow> u64 option" where
  "cm_epoch L msg =
     (case msg of
        CommitVote v \<Rightarrow> Some (x_li_epoch L (cv_ledger_info v))
      | CommitDecision d \<Rightarrow> Some (x_li_epoch L (lws_ledger_info (cd_ledger_info d)))
      | _ \<Rightarrow> None)"

text \<open>\<open>AckState\<close>: the validators that have not acknowledged a broadcast yet.\<close>

definition ack_add :: "author \<Rightarrow> commit_message \<Rightarrow> author set \<Rightarrow> (string + unit option) \<times> author set" where
  "ack_add peer ack validators =
     (case ack of
        CommitVote _ \<Rightarrow> (Inl ''unexected Vote reply to broadcast'', validators)
      | CommitDecision _ \<Rightarrow> (Inl ''unexected Decision reply to broadcast'', validators)
      | CommitNack \<Rightarrow> (Inl ''unexected Nack reply to broadcast'', validators)
      | CommitAck \<Rightarrow>
          if peer \<in> validators then
            (Inr (if validators - {peer} = {} then Some () else None), validators - {peer})
          else (Inl ''Unknown author'', validators))"

section \<open>Items\<close>

type_synonym callback = nat

record ordered_item =
  oi_unverified_signatures :: partial_sigs
  oi_commit_proof :: "li_with_sigs option"
  oi_callback :: callback
  oi_ordered_blocks :: "pipelined_block list"
  oi_ordered_proof :: li_with_sigs

record executed_item =
  xi_executed_blocks :: "pipelined_block list"
  xi_partial_commit_proof :: li_verified
  xi_callback :: callback
  xi_commit_info :: block_info
  xi_ordered_proof :: li_with_sigs

record signed_item =
  gi_executed_blocks :: "pipelined_block list"
  gi_partial_commit_proof :: li_verified
  gi_callback :: callback
  gi_commit_vote :: commit_vote
  gi_rb_handle :: "int option"

record aggregated_item =
  ai_executed_blocks :: "pipelined_block list"
  ai_commit_proof :: li_with_sigs
  ai_callback :: callback

datatype buffer_item =
    ItemOrdered ordered_item
  | ItemExecuted executed_item
  | ItemSigned signed_item
  | ItemAggregated aggregated_item

definition last_opt :: "'a list \<Rightarrow> 'a option" where
  "last_opt xs = (if xs = [] then None else Some (last xs))"

definition generate_commit_ledger_info ::
  "laptos \<Rightarrow> block_info \<Rightarrow> li_with_sigs \<Rightarrow> bool \<Rightarrow> hash_value \<Rightarrow> u64 \<Rightarrow> ledger_info" where
  "generate_commit_ledger_info L commit_info ordered_proof order_vote_enabled block_hash block_number =
     new_with_block_info commit_info
       (if order_vote_enabled then x_hash_zero L
        else li_consensus_data_hash (lws_ledger_info ordered_proof))
       block_hash block_number"

definition verify_signatures ::
  "laptos \<Rightarrow> partial_sigs \<Rightarrow> validator_verifier \<Rightarrow> ledger_info \<Rightarrow> partial_sigs" where
  "verify_signatures L unverified_signatures validator commit_ledger_info =
     filter (\<lambda>(author, sig). x_verify L validator author (MsgLedgerInfo commit_ledger_info) sig)
       unverified_signatures"

definition executed_commit_timestamp_usecs :: "u64 \<Rightarrow> u64 \<Rightarrow> bool \<Rightarrow> u64" where
  "executed_commit_timestamp_usecs corrected_commit_timestamp_usecs block_timestamp_usecs
     use_corrected_commit_timestamp =
     (if use_corrected_commit_timestamp then corrected_commit_timestamp_usecs else block_timestamp_usecs)"

definition generate_executed_item_from_ordered ::
  "laptos \<Rightarrow> block_info \<Rightarrow> pipelined_block list \<Rightarrow> partial_sigs \<Rightarrow> callback \<Rightarrow> li_with_sigs \<Rightarrow> bool \<Rightarrow> bool \<Rightarrow>
   buffer_item option" where
  "generate_executed_item_from_ordered L commit_info executed_blocks verified_signatures callback
     ordered_proof order_vote_enabled use_corrected_commit_timestamp =
     Option.bind (last_opt executed_blocks) (\<lambda>block.
     Option.bind (bk_block_number (pb_block block)) (\<lambda>block_number.
     let timestamp_usecs = executed_commit_timestamp_usecs (bi_timestamp_usecs commit_info)
                             (bk_timestamp_usecs (pb_block block)) use_corrected_commit_timestamp;
         new_commit_info = commit_info\<lparr>bi_version := block_number, bi_timestamp_usecs := timestamp_usecs\<rparr>;
         commit_ledger_info = generate_commit_ledger_info L new_commit_info ordered_proof order_vote_enabled
                                (scr_root_hash (pb_state_compute_result block)) block_number
     in Some (ItemExecuted
          \<lparr>xi_executed_blocks = executed_blocks,
           xi_partial_commit_proof = \<lparr>lv_ledger_info = commit_ledger_info, lv_signatures = verified_signatures\<rparr>,
           xi_callback = callback, xi_commit_info = new_commit_info, xi_ordered_proof = ordered_proof\<rparr>)))"

definition aggregate_commit_proof ::
  "laptos \<Rightarrow> ledger_info \<Rightarrow> partial_sigs \<Rightarrow> validator_verifier \<Rightarrow> li_with_sigs option" where
  "aggregate_commit_proof L commit_ledger_info verified_signatures validator =
     (case x_aggregate_signatures L validator verified_signatures of
        Inl _ \<Rightarrow> None
      | Inr aggregated_sig \<Rightarrow>
          Some \<lparr>lws_ledger_info = commit_ledger_info, lws_signatures = aggregated_sig\<rparr>)"

definition item_new_ordered :: "pipelined_block list \<Rightarrow> li_with_sigs \<Rightarrow> callback \<Rightarrow> buffer_item" where
  "item_new_ordered ordered_blocks ordered_proof callback =
     ItemOrdered \<lparr>oi_unverified_signatures = [], oi_commit_proof = None, oi_callback = callback,
                  oi_ordered_blocks = ordered_blocks, oi_ordered_proof = ordered_proof\<rparr>"


text \<open>
  The commit info of an executed batch: the block info of its last block, with the timestamp of
  the block that ended the epoch and the information about the new epoch.
\<close>

definition executed_commit_info ::
  "laptos \<Rightarrow> pipelined_block \<Rightarrow> u64 option \<Rightarrow> epoch_block_info option \<Rightarrow> block_info option" where
  "executed_commit_info L block epoch_end_timestamp epoch_block_info =
     (let commit_info = pb_block_info block in
      Option.bind (case epoch_end_timestamp of
                     Some timestamp \<Rightarrow>
                       if bi_timestamp_usecs commit_info \<noteq> timestamp then
                         if pb_is_reconfiguration_suffix block then x_change_timestamp L timestamp commit_info
                         else None
                       else Some commit_info
                   | None \<Rightarrow> Some commit_info)
        (\<lambda>commit_info. Some (commit_info\<lparr>bi_epoch_block_info :=
            (case epoch_block_info of Some i \<Rightarrow> Some i | None \<Rightarrow> bi_epoch_block_info commit_info)\<rparr>)))"

definition advance_to_executed_or_aggregated ::
  "laptos \<Rightarrow> pipelined_block list \<Rightarrow> validator_verifier \<Rightarrow> u64 option \<Rightarrow> bool \<Rightarrow> epoch_block_info option \<Rightarrow>
   buffer_item \<Rightarrow> buffer_item option" where
  "advance_to_executed_or_aggregated L executed_blocks validator epoch_end_timestamp order_vote_enabled
     epoch_block_info self =
     (case self of
        ItemOrdered ordered \<Rightarrow>
          if map pb_id (oi_ordered_blocks ordered) \<noteq> map pb_id executed_blocks then None
          else
            Option.bind (last_opt executed_blocks) (\<lambda>block.
            Option.bind (executed_commit_info L block epoch_end_timestamp epoch_block_info) (\<lambda>commit_info.
            case oi_commit_proof ordered of
              Some commit_proof \<Rightarrow>
                if lws_commit_info commit_proof = commit_info then
                  Some (ItemAggregated \<lparr>ai_executed_blocks = executed_blocks, ai_commit_proof = commit_proof,
                                        ai_callback = oi_callback ordered\<rparr>)
                else None
            | None \<Rightarrow>
                Option.bind (bk_block_number (pb_block block)) (\<lambda>block_number.
                let commit_ledger_info =
                      generate_commit_ledger_info L commit_info (oi_ordered_proof ordered) order_vote_enabled
                        (scr_root_hash (pb_state_compute_result block)) block_number;
                    verified_signatures =
                      verify_signatures L (oi_unverified_signatures ordered) validator commit_ledger_info
                in if is_ok (x_check_voting_power L validator (map fst verified_signatures) True) then
                     map_option (\<lambda>commit_proof. ItemAggregated
                         \<lparr>ai_executed_blocks = executed_blocks, ai_commit_proof = commit_proof,
                          ai_callback = oi_callback ordered\<rparr>)
                       (aggregate_commit_proof L commit_ledger_info verified_signatures validator)
                   else
                     generate_executed_item_from_ordered L commit_info executed_blocks verified_signatures
                       (oi_callback ordered) (oi_ordered_proof ordered) order_vote_enabled
                       (x_consensus_alpha_active L (bk_timestamp_usecs (pb_block block))))))
      | _ \<Rightarrow> None)"

definition advance_to_signed :: "author \<Rightarrow> signature \<Rightarrow> buffer_item \<Rightarrow> buffer_item option" where
  "advance_to_signed author signature self =
     (case self of
        ItemExecuted executed \<Rightarrow>
          Some (ItemSigned
            \<lparr>gi_executed_blocks = xi_executed_blocks executed,
             gi_partial_commit_proof = xi_partial_commit_proof executed,
             gi_callback = xi_callback executed,
             gi_commit_vote =
               new_with_signature author (lv_ledger_info (xi_partial_commit_proof executed)) signature,
             gi_rb_handle = None\<rparr>)
      | _ \<Rightarrow> None)"

definition try_advance_to_aggregated_with_ledger_info ::
  "laptos \<Rightarrow> li_with_sigs \<Rightarrow> buffer_item \<Rightarrow> buffer_item option" where
  "try_advance_to_aggregated_with_ledger_info L commit_proof self =
     (case self of
        ItemSigned signed_it \<Rightarrow>
          if li_commit_info (lv_ledger_info (gi_partial_commit_proof signed_it)) = lws_commit_info commit_proof then
            Some (ItemAggregated \<lparr>ai_executed_blocks = gi_executed_blocks signed_it, ai_commit_proof = commit_proof,
                                  ai_callback = gi_callback signed_it\<rparr>)
          else None
      | ItemExecuted executed \<Rightarrow>
          if xi_commit_info executed = lws_commit_info commit_proof then
            Option.bind (last_opt (xi_executed_blocks executed)) (\<lambda>block.
            Some (ItemAggregated \<lparr>ai_executed_blocks = xi_executed_blocks executed, ai_commit_proof = commit_proof,
                                  ai_callback = xi_callback executed\<rparr>))
          else None
      | ItemOrdered ordered \<Rightarrow>
          if x_match_ordered_only L (lws_commit_info (oi_ordered_proof ordered)) (lws_commit_info commit_proof) then
            Some (ItemOrdered (ordered\<lparr>oi_commit_proof := Some commit_proof\<rparr>))
          else None
      | ItemAggregated _ \<Rightarrow> None)"

definition try_advance_to_aggregated :: "laptos \<Rightarrow> validator_verifier \<Rightarrow> buffer_item \<Rightarrow> buffer_item option" where
  "try_advance_to_aggregated L validator self =
     (case self of
        ItemSigned signed_it \<Rightarrow>
          let p = gi_partial_commit_proof signed_it in
          if is_ok (x_check_voting_power L validator (map fst (lv_signatures p)) True) then
            Option.bind (aggregate_commit_proof L (lv_ledger_info p) (lv_signatures p) validator) (\<lambda>commit_proof.
            Option.bind (last_opt (gi_executed_blocks signed_it)) (\<lambda>block.
            Some (ItemAggregated \<lparr>ai_executed_blocks = gi_executed_blocks signed_it, ai_commit_proof = commit_proof,
                                  ai_callback = gi_callback signed_it\<rparr>)))
          else Some (ItemSigned signed_it)
      | ItemExecuted executed \<Rightarrow>
          let p = xi_partial_commit_proof executed in
          if is_ok (x_check_voting_power L validator (map fst (lv_signatures p)) True) then
            map_option (\<lambda>commit_proof. ItemAggregated
                \<lparr>ai_executed_blocks = xi_executed_blocks executed, ai_commit_proof = commit_proof,
                 ai_callback = xi_callback executed\<rparr>)
              (aggregate_commit_proof L (lv_ledger_info p) (lv_signatures p) validator)
          else Some (ItemExecuted executed)
      | _ \<Rightarrow> Some self)"

definition get_blocks :: "buffer_item \<Rightarrow> pipelined_block list" where
  "get_blocks self =
     (case self of
        ItemOrdered ordered \<Rightarrow> oi_ordered_blocks ordered
      | ItemExecuted executed \<Rightarrow> xi_executed_blocks executed
      | ItemSigned signed_it \<Rightarrow> gi_executed_blocks signed_it
      | ItemAggregated aggregated \<Rightarrow> ai_executed_blocks aggregated)"

definition item_block_id :: "buffer_item \<Rightarrow> hash_value option" where
  "item_block_id self = map_option pb_id (last_opt (get_blocks self))"

definition item_commit_info :: "buffer_item \<Rightarrow> block_info" where
  "item_commit_info self =
     (case self of
        ItemOrdered ordered \<Rightarrow> lws_commit_info (oi_ordered_proof ordered)
      | ItemExecuted executed \<Rightarrow> xi_commit_info executed
      | ItemSigned signed_it \<Rightarrow> li_commit_info (lv_ledger_info (gi_partial_commit_proof signed_it))
      | ItemAggregated aggregated \<Rightarrow> lws_commit_info (ai_commit_proof aggregated))"

definition lv_add_signature :: "laptos \<Rightarrow> author \<Rightarrow> signature \<Rightarrow> li_verified \<Rightarrow> li_verified" where
  "lv_add_signature L author sig p = p\<lparr>lv_signatures := x_add_signature L author sig (lv_signatures p)\<rparr>"

definition add_signature_if_matched :: "laptos \<Rightarrow> commit_vote \<Rightarrow> buffer_item \<Rightarrow> (string + unit) \<times> buffer_item" where
  "add_signature_if_matched L vote self =
     (let target_commit_info = cv_commit_info vote; author = cv_author vote; sig = cv_signature vote in
      case self of
        ItemOrdered ordered \<Rightarrow>
          if x_match_ordered_only L (lws_commit_info (oi_ordered_proof ordered)) target_commit_info then
            (Inr (), ItemOrdered (ordered\<lparr>oi_unverified_signatures :=
                       x_add_signature L author sig (oi_unverified_signatures ordered)\<rparr>))
          else (Inl ''Inconsistent commit info.'', self)
      | ItemExecuted executed \<Rightarrow>
          if xi_commit_info executed = target_commit_info then
            (Inr (), ItemExecuted (executed\<lparr>xi_partial_commit_proof :=
                       lv_add_signature L author sig (xi_partial_commit_proof executed)\<rparr>))
          else (Inl ''Inconsistent commit info.'', self)
      | ItemSigned signed_it \<Rightarrow>
          if li_commit_info (lv_ledger_info (gi_partial_commit_proof signed_it)) = target_commit_info then
            (Inr (), ItemSigned (signed_it\<lparr>gi_partial_commit_proof :=
                       lv_add_signature L author sig (gi_partial_commit_proof signed_it)\<rparr>))
          else (Inl ''Inconsistent commit info.'', self)
      | ItemAggregated aggregated \<Rightarrow>
          if lws_commit_info (ai_commit_proof aggregated) = target_commit_info then (Inr (), self)
          else (Inl ''Inconsistent commit info.'', self))"

definition is_ordered :: "buffer_item \<Rightarrow> bool" where
  "is_ordered self = (case self of ItemOrdered _ \<Rightarrow> True | _ \<Rightarrow> False)"

definition is_executed :: "buffer_item \<Rightarrow> bool" where
  "is_executed self = (case self of ItemExecuted _ \<Rightarrow> True | _ \<Rightarrow> False)"

definition is_signed :: "buffer_item \<Rightarrow> bool" where
  "is_signed self = (case self of ItemSigned _ \<Rightarrow> True | _ \<Rightarrow> False)"

definition is_aggregated :: "buffer_item \<Rightarrow> bool" where
  "is_aggregated self = (case self of ItemAggregated _ \<Rightarrow> True | _ \<Rightarrow> False)"


section \<open>Blocks and proofs of an item\<close>

text \<open>\<open>BlockInfo::change_timestamp\<close> changes the timestamp and nothing else.\<close>

definition change_timestamp_spec :: "laptos \<Rightarrow> bool" where
  "change_timestamp_spec L \<longleftrightarrow>
     (\<forall>t bi bi'. x_change_timestamp L t bi = Some bi' \<longrightarrow> bi' = bi\<lparr>bi_timestamp_usecs := t\<rparr>)"

text \<open>
  \<open>ValidatorVerifier::aggregate_signatures\<close>: the aggregate of valid signatures of a ledger info,
  from authors that pass \<open>check_voting_power\<close>, verifies.
\<close>

definition aggregate_spec :: "laptos \<Rightarrow> validator_verifier \<Rightarrow> bool" where
  "aggregate_spec L vv \<longleftrightarrow>
     (\<forall>sigs agg li. x_aggregate_signatures L vv sigs = Inr agg \<and>
        is_ok (x_check_voting_power L vv (map fst sigs) True) \<and>
        (\<forall>a s. map_of sigs a = Some s \<longrightarrow> x_verify L vv a (MsgLedgerInfo li) s) \<longrightarrow>
        x_verify_signatures L vv \<lparr>lws_ledger_info = li, lws_signatures = agg\<rparr>)"

definition sigs_ok :: "laptos \<Rightarrow> validator_verifier \<Rightarrow> ledger_info \<Rightarrow> partial_sigs \<Rightarrow> bool" where
  "sigs_ok L vv li sigs \<longleftrightarrow> (\<forall>a s. map_of sigs a = Some s \<longrightarrow> x_verify L vv a (MsgLedgerInfo li) s)"

text \<open>The ledger info that a validator signs for a commit info when order votes are enabled.\<close>

definition commit_li :: "laptos \<Rightarrow> block_info \<Rightarrow> ledger_info" where
  "commit_li L c = new_with_block_info c (x_hash_zero L) (bi_executed_state_id c) (bi_version c)"

text \<open>
  What holds of the proofs in an item: a complete proof verifies, the signatures collected for an
  incomplete one are valid for its ledger info, and both are about the last block of the item.
\<close>

definition proof_ok :: "laptos \<Rightarrow> validator_verifier \<Rightarrow> buffer_item \<Rightarrow> bool" where
  "proof_ok L vv it =
     (case it of
        ItemOrdered ordered \<Rightarrow>
          (case oi_commit_proof ordered of None \<Rightarrow> True | Some p \<Rightarrow> x_verify_signatures L vv p)
      | ItemExecuted executed \<Rightarrow>
          lv_ledger_info (xi_partial_commit_proof executed) = commit_li L (xi_commit_info executed) \<and>
          sigs_ok L vv (commit_li L (xi_commit_info executed)) (lv_signatures (xi_partial_commit_proof executed)) \<and>
          item_block_id it = Some (bi_id (xi_commit_info executed))
      | ItemSigned s \<Rightarrow>
          lv_ledger_info (gi_partial_commit_proof s) =
            commit_li L (li_commit_info (lv_ledger_info (gi_partial_commit_proof s))) \<and>
          sigs_ok L vv (lv_ledger_info (gi_partial_commit_proof s)) (lv_signatures (gi_partial_commit_proof s)) \<and>
          item_block_id it = Some (bi_id (li_commit_info (lv_ledger_info (gi_partial_commit_proof s))))
      | ItemAggregated a \<Rightarrow>
          x_verify_signatures L vv (ai_commit_proof a) \<and>
          item_block_id it = Some (bi_id (lws_commit_info (ai_commit_proof a))))"

lemmas item_defs = get_blocks_def is_ordered_def is_executed_def is_signed_def is_aggregated_def

lemma last_opt_map: "map_option f (last_opt xs) = last_opt (map f xs)"
  by (simp add: last_opt_def last_map)

lemma last_opt_Some: "last_opt xs = Some x \<longleftrightarrow> xs \<noteq> [] \<and> last xs = x"
  by (simp add: last_opt_def)

lemma item_block_id_ids: "item_block_id it = last_opt (map pb_id (get_blocks it))"
  by (simp add: item_block_id_def last_opt_map)

lemma pb_block_info_sel [simp]:
  "bi_id (pb_block_info b) = pb_id b"
  "bi_executed_state_id (pb_block_info b) = scr_root_hash (pb_state_compute_result b)"
  "bk_block_number (pb_block b) = Some n \<Longrightarrow> bi_version (pb_block_info b) = n"
  by (simp_all add: pb_block_info_def gen_block_info_def)

lemma sigs_ok_verify_signatures: "sigs_ok L vv li (verify_signatures L sigs vv li)"
  by (auto simp: sigs_ok_def verify_signatures_def dest!: map_of_SomeD)

lemma aggregate_commit_proof_ok:
  assumes "aggregate_spec L vv" "aggregate_commit_proof L li sigs vv = Some p" "sigs_ok L vv li sigs"
    "is_ok (x_check_voting_power L vv (map fst sigs) True)"
  shows "x_verify_signatures L vv p \<and> lws_ledger_info p = li"
  using assms by (auto simp: aggregate_commit_proof_def aggregate_spec_def sigs_ok_def split: sum.splits)

lemma executed_commit_info_form:
  assumes "change_timestamp_spec L" "executed_commit_info L b ts ebi = Some c"
  shows "\<exists>t e. c = (pb_block_info b)\<lparr>bi_timestamp_usecs := t, bi_epoch_block_info := e\<rparr>"
proof -
  obtain c0 where c: "c = c0\<lparr>bi_epoch_block_info := (case ebi of Some i \<Rightarrow> Some i | None \<Rightarrow> bi_epoch_block_info c0)\<rparr>"
    and cs: "(case ts of
        Some t \<Rightarrow> if bi_timestamp_usecs (pb_block_info b) \<noteq> t then
                    if pb_is_reconfiguration_suffix b then x_change_timestamp L t (pb_block_info b) else None
                  else Some (pb_block_info b)
      | None \<Rightarrow> Some (pb_block_info b)) = Some c0"
    using assms(2) unfolding executed_commit_info_def Let_def bind_eq_Some_conv by blast
  have c0: "c0 = pb_block_info b \<or> (\<exists>t. x_change_timestamp L t (pb_block_info b) = Some c0)"
    using cs by (auto split: option.splits if_splits)
  from c0 obtain t where "c0 = (pb_block_info b)\<lparr>bi_timestamp_usecs := t\<rparr>"
    using assms(1) by (metis block_info.surjective block_info.update_convs(6) change_timestamp_spec_def)
  with c show ?thesis by blast
qed

lemma executed_commit_info_sel:
  assumes "change_timestamp_spec L" "executed_commit_info L b ts ebi = Some c"
  shows "bi_id c = pb_id b" "bi_executed_state_id c = scr_root_hash (pb_state_compute_result b)"
    "bk_block_number (pb_block b) = Some n \<Longrightarrow> bi_version c = n"
  using executed_commit_info_form [OF assms] by auto

lemma advance_to_executed_ids:
  assumes "advance_to_executed_or_aggregated L bs vv ts ov ebi it = Some it'"
  shows "get_blocks it' = bs \<and> map pb_id bs = map pb_id (get_blocks it) \<and> is_ordered it \<and> (is_executed it' \<or> is_aggregated it')"
  using assms
  by (auto simp: advance_to_executed_or_aggregated_def generate_executed_item_from_ordered_def item_defs Let_def
      bind_eq_Some_conv split: buffer_item.splits option.splits if_splits)

lemma advance_to_executed_proof_ok:
  assumes adv: "advance_to_executed_or_aggregated L bs vv ts True ebi it = Some it'" and ok: "proof_ok L vv it"
    and spec: "change_timestamp_spec L" "aggregate_spec L vv" and alpha: "\<forall>t. x_consensus_alpha_active L t"
  shows "proof_ok L vv it'"
proof -
  obtain ordered b c where it: "it = ItemOrdered ordered" and ids: "map pb_id (oi_ordered_blocks ordered) = map pb_id bs"
    and b: "last_opt bs = Some b" and c: "executed_commit_info L b ts ebi = Some c"
    using adv by (auto simp: advance_to_executed_or_aggregated_def bind_eq_Some_conv split: buffer_item.splits if_splits)
  note sel = executed_commit_info_sel [OF spec(1) c]
  have id: "item_block_id it' = Some (bi_id c)"
    using advance_to_executed_ids [OF adv] b sel by (simp add: item_block_id_def)
  show ?thesis
  proof (cases "oi_commit_proof ordered")
    case (Some p)
    then have "lws_commit_info p = c" "it' = ItemAggregated \<lparr>ai_executed_blocks = bs, ai_commit_proof = p, ai_callback = oi_callback ordered\<rparr>"
      using adv it ids b c by (simp_all add: advance_to_executed_or_aggregated_def split: if_splits)
    with ok it Some id show ?thesis by (simp add: proof_ok_def)
  next
    case None
    obtain n where n: "bk_block_number (pb_block b) = Some n"
      using adv it ids b c None by (auto simp: advance_to_executed_or_aggregated_def bind_eq_Some_conv)
    let ?li = "commit_li L c"
    have li: "generate_commit_ledger_info L c (oi_ordered_proof ordered) True (scr_root_hash (pb_state_compute_result b)) n = ?li"
      using sel n by (simp add: generate_commit_ledger_info_def commit_li_def)
    let ?sigs = "verify_signatures L (oi_unverified_signatures ordered) vv ?li"
    have same: "c\<lparr>bi_version := n\<rparr> = c" using sel(3) [OF n] by simp
    have ok': "sigs_ok L vv ?li ?sigs" by (rule sigs_ok_verify_signatures)
    show ?thesis
    proof (cases "is_ok (x_check_voting_power L vv (map fst ?sigs) True)")
      case True
      then obtain p where "aggregate_commit_proof L ?li ?sigs vv = Some p"
        "it' = ItemAggregated \<lparr>ai_executed_blocks = bs, ai_commit_proof = p, ai_callback = oi_callback ordered\<rparr>"
        using adv it ids b c None n li by (auto simp: advance_to_executed_or_aggregated_def Let_def)
      with aggregate_commit_proof_ok [OF spec(2) this(1) ok' True] id show ?thesis
        by (simp add: proof_ok_def commit_li_def new_with_block_info_def)
    next
      case False
      with adv it ids b c None n li same alpha id ok' show ?thesis
        by (auto simp: advance_to_executed_or_aggregated_def Let_def generate_executed_item_from_ordered_def
            executed_commit_timestamp_usecs_def proof_ok_def)
    qed
  qed
qed


lemma advance_to_signed_ids:
  "advance_to_signed a sig it = Some it' \<Longrightarrow> get_blocks it' = get_blocks it \<and> is_signed it'"
  by (auto simp: advance_to_signed_def item_defs split: buffer_item.splits)

lemma advance_to_signed_proof_ok:
  "advance_to_signed a sig it = Some it' \<Longrightarrow> proof_ok L vv it \<Longrightarrow> proof_ok L vv it'"
  by (auto simp: advance_to_signed_def proof_ok_def item_block_id_def get_blocks_def commit_li_def
      new_with_block_info_def split: buffer_item.splits)

lemma with_ledger_info_ids:
  "try_advance_to_aggregated_with_ledger_info L p it = Some it' \<Longrightarrow> get_blocks it' = get_blocks it \<and> \<not> is_aggregated it"
  by (auto simp: try_advance_to_aggregated_with_ledger_info_def item_defs bind_eq_Some_conv
      split: buffer_item.splits if_splits)

lemma with_ledger_info_proof_ok:
  assumes "try_advance_to_aggregated_with_ledger_info L p it = Some it'" "proof_ok L vv it" "x_verify_signatures L vv p"
  shows "proof_ok L vv it'"
  using assms by (auto simp: try_advance_to_aggregated_with_ledger_info_def proof_ok_def item_block_id_def
      get_blocks_def bind_eq_Some_conv split: buffer_item.splits if_splits)

lemma try_advance_ids:
  "try_advance_to_aggregated L vv it = Some it' \<Longrightarrow> get_blocks it' = get_blocks it"
  by (auto simp: try_advance_to_aggregated_def item_defs Let_def bind_eq_Some_conv split: buffer_item.splits if_splits)

lemma try_advance_proof_ok:
  assumes "try_advance_to_aggregated L vv it = Some it'" "proof_ok L vv it" "aggregate_spec L vv"
  shows "proof_ok L vv it'"
proof (cases it)
  case (ItemExecuted x)
  let ?p = "xi_partial_commit_proof x"
  show ?thesis
  proof (cases "is_ok (x_check_voting_power L vv (map fst (lv_signatures ?p)) True)")
    case True
    with assms(1) ItemExecuted obtain p where "aggregate_commit_proof L (lv_ledger_info ?p) (lv_signatures ?p) vv = Some p"
      "it' = ItemAggregated \<lparr>ai_executed_blocks = xi_executed_blocks x, ai_commit_proof = p, ai_callback = xi_callback x\<rparr>"
      by (auto simp: try_advance_to_aggregated_def Let_def)
    with aggregate_commit_proof_ok [OF assms(3) this(1) _ True] assms(2) ItemExecuted show ?thesis
      by (simp add: proof_ok_def commit_li_def new_with_block_info_def item_block_id_def get_blocks_def)
  qed (use assms ItemExecuted in \<open>simp add: try_advance_to_aggregated_def Let_def\<close>)
next
  case (ItemSigned x)
  let ?p = "gi_partial_commit_proof x"
  show ?thesis
  proof (cases "is_ok (x_check_voting_power L vv (map fst (lv_signatures ?p)) True)")
    case True
    with assms(1) ItemSigned obtain p where "aggregate_commit_proof L (lv_ledger_info ?p) (lv_signatures ?p) vv = Some p"
      "it' = ItemAggregated \<lparr>ai_executed_blocks = gi_executed_blocks x, ai_commit_proof = p, ai_callback = gi_callback x\<rparr>"
      by (auto simp: try_advance_to_aggregated_def Let_def bind_eq_Some_conv)
    with aggregate_commit_proof_ok [OF assms(3) this(1) _ True] assms(2) ItemSigned show ?thesis
      by (simp add: proof_ok_def item_block_id_def get_blocks_def)
  qed (use assms ItemSigned in \<open>simp add: try_advance_to_aggregated_def Let_def\<close>)
qed (use assms in \<open>simp_all add: try_advance_to_aggregated_def\<close>)

lemma add_signature_ids:
  "get_blocks (snd (add_signature_if_matched L v it)) = get_blocks it \<and>
   is_aggregated (snd (add_signature_if_matched L v it)) = is_aggregated it \<and>
   is_ordered (snd (add_signature_if_matched L v it)) = is_ordered it"
  by (auto simp: add_signature_if_matched_def item_defs Let_def split: buffer_item.splits)

lemma sigs_ok_add:
  "partial_signatures_map L \<Longrightarrow> sigs_ok L vv li sigs \<Longrightarrow> x_verify L vv a (MsgLedgerInfo li) s \<Longrightarrow>
   sigs_ok L vv li (x_add_signature L a s sigs)"
  by (simp add: sigs_ok_def partial_signatures_map_def)

lemma add_signature_proof_ok:
  assumes "partial_signatures_map L" "proof_ok L vv it" "cv_verify L vv v = Inr ()"
    "cv_ledger_info v = commit_li L (cv_commit_info v)"
  shows "proof_ok L vv (snd (add_signature_if_matched L v it))"
proof -
  have "x_verify L vv (cv_author v) (MsgLedgerInfo (commit_li L (cv_commit_info v))) (cv_signature v)"
    using assms(3,4) by (simp add: cv_verify_def split: if_splits)
  then show ?thesis using assms(1,2)
    by (cases it)
      (auto simp: add_signature_if_matched_def proof_ok_def Let_def lv_add_signature_def item_block_id_def
        get_blocks_def intro: sigs_ok_add)
qed

end
