(* ===== verification/Buffer_Manager.thy ===== *)
theory Buffer_Manager
  imports Buffer_Item Block_Buffer
begin

text \<open>
  The buffer manager (pipeline/buffer\_manager.rs), the state machine between ordering and
  persisting: it sends ordered blocks to execution, executed ones to signing, collects commit votes
  and sends the committed prefix of its buffer to the persisting phase. The main loop handles one
  message at a time, so a handler is one step on the state; what it sends is its list of requests.
  The steps read the block buffer of the execution layer (theory \<open>Block_Buffer\<close>) and release its
  in-flight blocks at a reset. The clock is an argument, in nanoseconds. Panics are \<open>None\<close>. Metrics,
  logging, the bytes of a reply and the waiting for ongoing tasks at a reset are left out; so is
  \<open>commit_proof_rb_handle\<close>, which is never set.
\<close>

section \<open>State\<close>

datatype reset_signal = ResetStop | TargetRound round

record ordered_blocks =
  ob_ordered_blocks :: "pipelined_block list"
  ob_ordered_proof :: li_with_sigs
  ob_callback :: callback

definition ob_latest_round :: "ordered_blocks \<Rightarrow> round option" where
  "ob_latest_round b = map_option pb_round (last_opt (ob_ordered_blocks b))"

type_synonym round_cache = "(hash_value \<times> (hash_value \<times> commit_vote) list) list"

record buffer_manager =
  bm_author :: author
  bm_buffer :: "buffer_item buffer"
  bm_execution_root :: cursor
  bm_signing_root :: cursor
  bm_stop :: bool
  bm_epoch_state :: epoch_state
  bm_end_epoch_timestamp :: "u64 option"
  bm_previous_commit_time :: int
  bm_order_vote_enabled :: bool
  bm_highest_committed_round :: round
  bm_latest_round :: round
  bm_observer_enabled :: bool
  bm_has_publisher :: bool
  bm_commit_vote_cache :: "(round \<times> round_cache) list"
  bm_max_pending_rounds :: round
  bm_pending_commit_proofs :: "(round \<times> li_with_sigs) list"

text \<open>What a step sends: to the phases of the pipeline, to the network and to the caller.\<close>

datatype bm_request =
    ExecuteRequest "pipelined_block list"
  | WaitRequest hash_value
  | SignRequest li_with_sigs ledger_info
  | SignRetry li_with_sigs ledger_info
  | PersistRequest "pipelined_block list" li_with_sigs callback
  | BroadcastVote commit_vote
  | PublishOrdered "pipelined_block list" li_with_sigs
  | PublishDecision li_with_sigs
  | ReplyAck
  | ReplyNack
  | ResetAck
  | ScheduleRetry

definition bm_new :: "author \<Rightarrow> epoch_state \<Rightarrow> bool \<Rightarrow> round \<Rightarrow> bool \<Rightarrow> bool \<Rightarrow> round \<Rightarrow> int \<Rightarrow> buffer_manager" where
  "bm_new author epoch_state order_vote_enabled highest_committed_round observer_enabled has_publisher
     max_pending_rounds now =
     \<lparr>bm_author = author, bm_buffer = buf_new, bm_execution_root = None, bm_signing_root = None,
      bm_stop = False, bm_epoch_state = epoch_state, bm_end_epoch_timestamp = None,
      bm_previous_commit_time = now, bm_order_vote_enabled = order_vote_enabled,
      bm_highest_committed_round = highest_committed_round, bm_latest_round = highest_committed_round,
      bm_observer_enabled = observer_enabled, bm_has_publisher = has_publisher,
      bm_commit_vote_cache = [], bm_max_pending_rounds = max_pending_rounds, bm_pending_commit_proofs = []\<rparr>"

section \<open>Votes and proofs that arrive early\<close>

datatype commit_vote_round_class = AlreadyCommitted | OutsideWindow | InWindow

definition classify_commit_vote_round :: "round \<Rightarrow> round \<Rightarrow> round \<Rightarrow> commit_vote_round_class" where
  "classify_commit_vote_round round highest_committed_round max_cached_round =
     (if round \<le> highest_committed_round then AlreadyCommitted
      else if round \<ge> max_cached_round then OutsideWindow
      else InWindow)"

definition MAX_CACHED_BLOCK_IDS_PER_AUTHOR_PER_COMMIT_VOTE_ROUND :: nat where
  "MAX_CACHED_BLOCK_IDS_PER_AUTHOR_PER_COMMIT_VOTE_ROUND = 2"

definition can_cache_commit_vote_for_block :: "round_cache \<Rightarrow> hash_value \<Rightarrow> hash_value \<Rightarrow> bool" where
  "can_cache_commit_vote_for_block round_cache block_id author =
     (if map_of round_cache block_id \<noteq> None then True
      else
        length (filter (\<lambda>(_, votes_by_author). map_of votes_by_author author \<noteq> None) round_cache)
          < MAX_CACHED_BLOCK_IDS_PER_AUTHOR_PER_COMMIT_VOTE_ROUND)"

definition MAX_PENDING_COMMIT_PROOFS :: nat where
  "MAX_PENDING_COMMIT_PROOFS = 100"

definition try_add_pending_commit_proof :: "li_with_sigs \<Rightarrow> buffer_manager \<Rightarrow> (bool \<times> buffer_manager) option" where
  "try_add_pending_commit_proof commit_proof bm =
     (let round = bi_round (lws_commit_info commit_proof); proofs = bm_pending_commit_proofs bm in
      if bm_highest_committed_round bm < round then
        if MAX_PENDING_COMMIT_PROOFS \<le> length proofs then
          (case proofs of
             [] \<Rightarrow> None
           | (oldest_round, _) # rest \<Rightarrow>
               if round \<le> oldest_round then Some (False, bm)
               else Some (True, bm\<lparr>bm_pending_commit_proofs := bt_insert round commit_proof rest\<rparr>))
        else Some (True, bm\<lparr>bm_pending_commit_proofs := bt_insert round commit_proof proofs\<rparr>)
      else Some (False, bm))"

definition drain_pending_commit_proof_till ::
  "round \<Rightarrow> buffer_manager \<Rightarrow> (li_with_sigs option \<times> buffer_manager) option" where
  "drain_pending_commit_proof_till round bm =
     Option.bind (checked_add round 1) (\<lambda>next.
     let remainder = filter (\<lambda>(r, _). next \<le> r) (bm_pending_commit_proofs bm);
         to_remove = filter (\<lambda>(r, _). r < next) (bm_pending_commit_proofs bm)
     in Some (map_option snd (last_opt to_remove), bm\<lparr>bm_pending_commit_proofs := remainder\<rparr>))"

definition cache_commit_vote :: "commit_vote \<Rightarrow> buffer_manager \<Rightarrow> bool \<times> buffer_manager" where
  "cache_commit_vote vote bm =
     (let commit_info = cv_commit_info vote;
          round = bi_round commit_info;
          highest_committed_round = bm_highest_committed_round bm;
          max_cached_round = saturating_add highest_committed_round (bm_max_pending_rounds bm);
          cache = filter (\<lambda>(cached_round, _). cached_round > highest_committed_round \<and> cached_round < max_cached_round)
                    (bm_commit_vote_cache bm)
      in case classify_commit_vote_round round highest_committed_round max_cached_round of
           AlreadyCommitted \<Rightarrow> (True, bm\<lparr>bm_commit_vote_cache := cache\<rparr>)
         | OutsideWindow \<Rightarrow> (False, bm\<lparr>bm_commit_vote_cache := cache\<rparr>)
         | InWindow \<Rightarrow>
             let block_id = bi_id commit_info; author = cv_author vote;
                 round_cache = (case map_of cache round of None \<Rightarrow> [] | Some c \<Rightarrow> c)
             in if \<not> can_cache_commit_vote_for_block round_cache block_id author then
                  (False, bm\<lparr>bm_commit_vote_cache := bt_insert round round_cache cache\<rparr>)
                else
                  let votes = (case map_of round_cache block_id of None \<Rightarrow> [] | Some vs \<Rightarrow> vs);
                      round_cache = al_insert block_id (al_insert author vote votes) round_cache
                  in (True, bm\<lparr>bm_commit_vote_cache := bt_insert round round_cache cache\<rparr>))"

definition drain_cached_commit_votes ::
  "round \<Rightarrow> hash_value \<Rightarrow> buffer_manager \<Rightarrow> commit_vote list \<times> buffer_manager" where
  "drain_cached_commit_votes round block_id bm =
     (case map_of (bm_commit_vote_cache bm) round of
        None \<Rightarrow> ([], bm)
      | Some round_cache \<Rightarrow>
          let votes = (case map_of round_cache block_id of None \<Rightarrow> [] | Some vs \<Rightarrow> map snd vs);
              round_cache = al_remove block_id round_cache
          in (votes, bm\<lparr>bm_commit_vote_cache :=
               (if round_cache = [] then al_remove round (bm_commit_vote_cache bm)
                else bt_insert round round_cache (bm_commit_vote_cache bm))\<rparr>))"

section \<open>Handlers\<close>

definition add_signatures :: "laptos \<Rightarrow> commit_vote list \<Rightarrow> buffer_item \<Rightarrow> buffer_item" where
  "add_signatures L votes item = fold (\<lambda>vote item. snd (add_signature_if_matched L vote item)) votes item"

definition process_ordered_blocks ::
  "laptos \<Rightarrow> ordered_blocks \<Rightarrow> buffer_manager \<Rightarrow> (bm_request list \<times> buffer_manager) option" where
  "process_ordered_blocks L ordered_blocks bm =
     (let blocks = ob_ordered_blocks ordered_blocks; ordered_proof = ob_ordered_proof ordered_blocks;
          requests = (if bm_has_publisher bm then [PublishOrdered blocks ordered_proof] else []) @
                     [ExecuteRequest blocks];
          item = item_new_ordered blocks ordered_proof (ob_callback ordered_blocks)
      in Option.bind (item_block_id item) (\<lambda>target_block_id.
         case drain_cached_commit_votes (bi_round (item_commit_info item)) target_block_id bm of (votes, bm) \<Rightarrow>
         map_option (\<lambda>buffer. (requests, bm\<lparr>bm_buffer := buffer\<rparr>))
           (buf_push_back item_block_id (add_signatures L votes item) (bm_buffer bm))))"

definition advance_execution_root :: "buffer_manager \<Rightarrow> (hash_value option \<times> buffer_manager) option" where
  "advance_execution_root bm =
     (let c = bm_execution_root bm in
      map_option (\<lambda>root.
          (if root \<noteq> None \<and> c = root then root else None, bm\<lparr>bm_execution_root := root\<rparr>))
        (find_elem_from (case c of None \<Rightarrow> bf_head (bm_buffer bm) | Some k \<Rightarrow> Some k) is_ordered (bm_buffer bm)))"

definition advance_signing_root :: "buffer_manager \<Rightarrow> (bm_request list \<times> buffer_manager) option" where
  "advance_signing_root bm =
     (let c = bm_signing_root bm in
      Option.bind (find_elem_from (case c of None \<Rightarrow> bf_head (bm_buffer bm) | Some k \<Rightarrow> Some k) is_executed (bm_buffer bm))
        (\<lambda>root.
           let bm = bm\<lparr>bm_signing_root := root\<rparr> in
           if root = None then Some ([], bm)
           else
             Option.bind (buf_get (bm_buffer bm) root) (\<lambda>item.
             case item of
               ItemExecuted executed \<Rightarrow>
                 let ordered_ledger_info = xi_ordered_proof executed;
                     commit_ledger_info = lv_ledger_info (xi_partial_commit_proof executed)
                 in Some ([if c = root then SignRetry ordered_ledger_info commit_ledger_info
                           else SignRequest ordered_ledger_info commit_ledger_info], bm)
             | _ \<Rightarrow> None)))"

partial_function (option) advance_head_loop ::
  "hash_value \<Rightarrow> pipelined_block list \<Rightarrow> buffer_manager \<Rightarrow>
   (pipelined_block list \<times> aggregated_item \<times> buffer_manager) option" where
  "advance_head_loop target_block_id blocks_to_persist bm =
     Option.bind (buf_pop_front (bm_buffer bm)) (\<lambda>(front, buffer).
     case front of
       None \<Rightarrow> None
     | Some item \<Rightarrow>
         Option.bind (item_block_id item) (\<lambda>id.
         let blocks_to_persist = blocks_to_persist @ get_blocks item;
             bm = bm\<lparr>bm_buffer := buffer,
                     bm_signing_root := (if bm_signing_root bm = Some id then None else bm_signing_root bm),
                     bm_execution_root := (if bm_execution_root bm = Some id then None else bm_execution_root bm)\<rparr>
         in if id = target_block_id then
              (case item of ItemAggregated aggregated \<Rightarrow> Some (blocks_to_persist, aggregated, bm) | _ \<Rightarrow> None)
            else advance_head_loop target_block_id blocks_to_persist bm))"

definition advance_head :: "int \<Rightarrow> hash_value \<Rightarrow> buffer_manager \<Rightarrow> (bm_request list \<times> buffer_manager) option" where
  "advance_head now target_block_id bm =
     map_option (\<lambda>(blocks_to_persist, aggregated, bm).
         ((if bm_has_publisher bm then [PublishDecision (ai_commit_proof aggregated)] else []) @
          [PersistRequest blocks_to_persist (ai_commit_proof aggregated) (ai_callback aggregated)],
          bm\<lparr>bm_previous_commit_time := now\<rparr>))
       (advance_head_loop target_block_id [] bm)"


definition bm_reset :: "int \<Rightarrow> buffer_manager \<Rightarrow> block_buffer \<Rightarrow> buffer_manager \<times> block_buffer" where
  "bm_reset now bm m =
     (bm\<lparr>bm_buffer := buf_new, bm_execution_root := None, bm_signing_root := None,
         bm_commit_vote_cache := [], bm_pending_commit_proofs := [], bm_previous_commit_time := now\<rparr>,
      release_inflight_blocks m)"

definition process_reset_request ::
  "int \<Rightarrow> reset_signal \<Rightarrow> buffer_manager \<Rightarrow> block_buffer \<Rightarrow> bm_request list \<times> buffer_manager \<times> block_buffer" where
  "process_reset_request now signal bm m =
     (let bm = (case signal of
                  ResetStop \<Rightarrow> bm\<lparr>bm_stop := True\<rparr>
                | TargetRound round \<Rightarrow> bm\<lparr>bm_highest_committed_round := round, bm_latest_round := round\<rparr>)
      in ([ResetAck], bm_reset now bm m))"

definition process_execution_schedule_response :: "hash_value \<Rightarrow> bm_request list" where
  "process_execution_schedule_response block_id = [WaitRequest block_id]"

partial_function (option) retry_schedule_loop :: "buffer_item buffer \<Rightarrow> cursor \<Rightarrow> bm_request list option" where
  "retry_schedule_loop b c =
     (if c = None then Some []
      else Option.bind (buf_get b c) (\<lambda>item.
           Option.bind (buf_get_next b c) (\<lambda>c.
           Option.bind (retry_schedule_loop b c) (\<lambda>requests.
           Some (ExecuteRequest (get_blocks item) # requests)))))"

definition retry_schedule_phase :: "buffer_manager \<Rightarrow> bm_request list option" where
  "retry_schedule_phase bm = retry_schedule_loop (bm_buffer bm) (bm_execution_root bm)"

definition resolve_epoch_block_info ::
  "block_buffer \<Rightarrow> pipelined_block \<Rightarrow> buffer_manager \<Rightarrow> epoch_block_info option" where
  "resolve_epoch_block_info m last_block bm =
     (let block_number = (case bk_block_number (pb_block last_block) of None \<Rightarrow> 0 | Some n \<Rightarrow> n);
          epoch = pb_epoch last_block
      in case get_epoch_change_block_info block_number epoch m of
           Some epoch_info \<Rightarrow> Some epoch_info
         | None \<Rightarrow>
             let compute_result = pb_state_compute_result last_block in
             if scr_has_reconfiguration compute_result then
               let timestamp_usecs = bi_timestamp_usecs (pb_block_info last_block) in
               Some \<lparr>ebi_block_id = pb_id last_block, ebi_block_number = block_number,
                     ebi_epoch_start_round = pb_round last_block,
                     ebi_epoch_start_timestamp_usecs =
                       (case bm_end_epoch_timestamp bm of
                          Some timestamp \<Rightarrow>
                            if timestamp_usecs \<noteq> timestamp \<and> pb_is_reconfiguration_suffix last_block then timestamp
                            else timestamp_usecs
                        | None \<Rightarrow> timestamp_usecs),
                     ebi_block_hash = scr_root_hash compute_result\<rparr>
             else None)"

definition set_end_epoch_timestamp :: "laptos \<Rightarrow> pipelined_block list \<Rightarrow> buffer_manager \<Rightarrow> buffer_manager" where
  "set_end_epoch_timestamp L executed_blocks bm =
     (case bm_end_epoch_timestamp bm of
        Some _ \<Rightarrow> bm
      | None \<Rightarrow>
          bm\<lparr>bm_end_epoch_timestamp :=
             map_option (\<lambda>b. bk_timestamp_usecs (pb_block b))
               (find (\<lambda>b. x_has_reconfiguration L (pb_block_info b)) executed_blocks)\<rparr>)"

definition process_execution_response ::
  "laptos \<Rightarrow> int \<Rightarrow> hash_value \<Rightarrow> string + pipelined_block list \<Rightarrow> block_buffer \<Rightarrow> buffer_manager \<Rightarrow>
   (bm_request list \<times> buffer_manager) option" where
  "process_execution_response L now block_id inner m bm =
     (case find_elem_by_key (bm_execution_root bm) block_id (bm_buffer bm) of
        None \<Rightarrow> Some ([], bm)
      | Some key \<Rightarrow>
          (case inner of
             Inl _ \<Rightarrow> Some ([], bm)
           | Inr executed_blocks \<Rightarrow>
               Option.bind (last_opt executed_blocks) (\<lambda>last_block.
               Option.bind (buf_get (bm_buffer bm) (Some key)) (\<lambda>current_item.
               Option.bind (item_block_id current_item) (\<lambda>current_id.
               if current_id \<noteq> block_id then Some ([], bm)
               else
                 let bm = set_end_epoch_timestamp L executed_blocks bm;
                     epoch_block_info = resolve_epoch_block_info m last_block bm
                 in
                 Option.bind (buf_take (Some key) (bm_buffer bm)) (\<lambda>(item, buffer).
                 Option.bind (advance_to_executed_or_aggregated L executed_blocks (es_verifier (bm_epoch_state bm))
                                (bm_end_epoch_timestamp bm) (bm_order_vote_enabled bm) epoch_block_info item) (\<lambda>new_item.
                 Option.bind (drain_pending_commit_proof_till (bi_round (item_commit_info item)) bm) (\<lambda>(pending, bm).
                 Option.bind (case pending of
                                Some commit_proof \<Rightarrow>
                                  if \<not> is_aggregated new_item \<and> bi_id (lws_commit_info commit_proof) = block_id
                                  then try_advance_to_aggregated_with_ledger_info L commit_proof new_item
                                  else Some new_item
                              | None \<Rightarrow> Some new_item) (\<lambda>new_item.
                 Option.bind (buf_set (Some key) new_item buffer) (\<lambda>buffer.
                 let bm = bm\<lparr>bm_buffer := buffer\<rparr> in
                 if is_aggregated new_item then advance_head now block_id bm else Some ([], bm)))))))))))"

definition do_reliable_broadcast :: "int \<Rightarrow> commit_vote \<Rightarrow> buffer_manager \<Rightarrow> bm_request list \<times> int option" where
  "do_reliable_broadcast now vote bm =
     (if bm_observer_enabled bm then ([], None) else ([BroadcastVote vote], Some now))"

definition process_signing_response ::
  "int \<Rightarrow> string + signature \<Rightarrow> ledger_info \<Rightarrow> buffer_manager \<Rightarrow> (bm_request list \<times> buffer_manager) option" where
  "process_signing_response now signature_result commit_ledger_info bm =
     (case signature_result of
        Inl _ \<Rightarrow> Some ([], bm)
      | Inr signature \<Rightarrow>
          (case find_elem_by_key (bm_signing_root bm) (bi_id (li_commit_info commit_ledger_info)) (bm_buffer bm) of
             None \<Rightarrow> Some ([], bm)
           | Some key \<Rightarrow>
               Option.bind (buf_take (Some key) (bm_buffer bm)) (\<lambda>(item, buffer).
               if is_executed item then
                 Option.bind (advance_to_signed (bm_author bm) signature item) (\<lambda>signed_it.
                 case signed_it of
                   ItemSigned g \<Rightarrow>
                     (case do_reliable_broadcast now (gi_commit_vote g) bm of (requests, handle) \<Rightarrow>
                      map_option (\<lambda>buffer. (requests, bm\<lparr>bm_buffer := buffer\<rparr>))
                        (buf_set (Some key) (ItemSigned (g\<lparr>gi_rb_handle := handle\<rparr>)) buffer))
                 | _ \<Rightarrow> None)
               else
                 map_option (\<lambda>buffer. ([], bm\<lparr>bm_buffer := buffer\<rparr>)) (buf_set (Some key) item buffer))))"

definition add_signature_if_matched_from_cache ::
  "laptos \<Rightarrow> buffer_item \<Rightarrow> hash_value \<Rightarrow> round \<Rightarrow> buffer_manager \<Rightarrow> buffer_item \<times> buffer_manager" where
  "add_signature_if_matched_from_cache L item target_block_id round bm =
     (case drain_cached_commit_votes round target_block_id bm of
        (votes, bm) \<Rightarrow> (add_signatures L votes item, bm))"

definition process_commit_message ::
  "laptos \<Rightarrow> commit_message \<Rightarrow> buffer_manager \<Rightarrow> (bm_request list \<times> hash_value option \<times> buffer_manager) option" where
  "process_commit_message L req bm =
     (case req of
        CommitVote vote \<Rightarrow>
          let target_block_id = bi_id (cv_commit_info vote) in
          (case find_elem_by_key (bf_head (bm_buffer bm)) target_block_id (bm_buffer bm) of
             Some key \<Rightarrow>
               Option.bind (buf_take (Some key) (bm_buffer bm)) (\<lambda>(item, buffer).
               case add_signature_if_matched_from_cache L item target_block_id (bi_round (cv_commit_info vote)) bm of
                 (item, bm) \<Rightarrow>
               (case add_signature_if_matched L vote item of
                  (Inr _, item) \<Rightarrow>
                    Option.bind (try_advance_to_aggregated L (es_verifier (bm_epoch_state bm)) item) (\<lambda>new_item.
                    map_option (\<lambda>buffer. ([ReplyAck], if is_aggregated new_item then Some target_block_id else None,
                                          bm\<lparr>bm_buffer := buffer\<rparr>))
                      (buf_set (Some key) new_item buffer))
                | (Inl _, item) \<Rightarrow>
                    map_option (\<lambda>buffer. ([ReplyNack], if is_aggregated item then Some target_block_id else None,
                                          bm\<lparr>bm_buffer := buffer\<rparr>))
                      (buf_set (Some key) item buffer)))
           | None \<Rightarrow>
               (case cache_commit_vote vote bm of
                  (cached, bm) \<Rightarrow> Some ([if cached then ReplyAck else ReplyNack], None, bm)))
      | CommitDecision commit_proof \<Rightarrow>
          let ledger_info = cd_ledger_info commit_proof; target_block_id = bi_id (lws_commit_info ledger_info) in
          (case find_elem_by_key (bf_head (bm_buffer bm)) target_block_id (bm_buffer bm) of
             Some key \<Rightarrow>
               Option.bind (buf_take (Some key) (bm_buffer bm)) (\<lambda>(item, buffer).
               Option.bind (try_advance_to_aggregated_with_ledger_info L ledger_info item) (\<lambda>new_item.
               map_option (\<lambda>buffer.
                   if is_aggregated new_item then ([ReplyAck], Some target_block_id, bm\<lparr>bm_buffer := buffer\<rparr>)
                   else ([ReplyNack], None, bm\<lparr>bm_buffer := buffer\<rparr>))
                 (buf_set (Some key) new_item buffer)))
           | None \<Rightarrow> map_option (\<lambda>(_, bm). ([ReplyNack], None, bm)) (try_add_pending_commit_proof ledger_info bm))
      | CommitAck \<Rightarrow> Some ([], None, bm)
      | CommitNack \<Rightarrow> Some ([], None, bm))"

definition COMMIT_VOTE_BROADCAST_INTERVAL_MS :: int where
  "COMMIT_VOTE_BROADCAST_INTERVAL_MS = 1500"

definition COMMIT_VOTE_REBROADCAST_INTERVAL_MS :: int where
  "COMMIT_VOTE_REBROADCAST_INTERVAL_MS = 30000"

partial_function (option) rebroadcast_loop ::
  "int \<Rightarrow> cursor \<Rightarrow> buffer_manager \<Rightarrow> (bm_request list \<times> buffer_manager) option" where
  "rebroadcast_loop now c bm =
     (if c = None then Some ([], bm)
      else
        Option.bind (buf_take c (bm_buffer bm)) (\<lambda>(item, buffer).
        case item of
          ItemSigned g \<Rightarrow>
            if (case gi_rb_handle g of
                  None \<Rightarrow> True
                | Some start_time \<Rightarrow> now - start_time \<ge> COMMIT_VOTE_REBROADCAST_INTERVAL_MS * 1000000)
            then
              (case do_reliable_broadcast now (gi_commit_vote g) bm of (requests, handle) \<Rightarrow>
               Option.bind (buf_set c (ItemSigned (g\<lparr>gi_rb_handle := handle\<rparr>)) buffer) (\<lambda>buffer.
               Option.bind (buf_get_next buffer c) (\<lambda>c.
               Option.bind (rebroadcast_loop now c (bm\<lparr>bm_buffer := buffer\<rparr>)) (\<lambda>(more, bm).
               Some (requests @ more, bm)))))
            else
              Option.bind (buf_set c item buffer) (\<lambda>buffer.
              Option.bind (buf_get_next buffer c) (\<lambda>c. rebroadcast_loop now c (bm\<lparr>bm_buffer := buffer\<rparr>)))
        | _ \<Rightarrow> map_option (\<lambda>buffer. ([], bm\<lparr>bm_buffer := buffer\<rparr>)) (buf_set c item buffer)))"

definition rebroadcast_commit_votes_if_needed ::
  "int \<Rightarrow> buffer_manager \<Rightarrow> (bm_request list \<times> buffer_manager) option" where
  "rebroadcast_commit_votes_if_needed now bm =
     (if now - bm_previous_commit_time bm < COMMIT_VOTE_BROADCAST_INTERVAL_MS * 1000000 then Some ([], bm)
      else rebroadcast_loop now (bf_head (bm_buffer bm)) bm)"

definition MAX_BACKLOG :: round where
  "MAX_BACKLOG = 20"

definition need_backpressure :: "buffer_manager \<Rightarrow> bool option" where
  "need_backpressure bm =
     map_option (\<lambda>limit. limit < bm_latest_round bm) (checked_add (bm_highest_committed_round bm) MAX_BACKLOG)"


section \<open>The main loop\<close>

text \<open>
  One round of the loop takes one message from one of the channels. The precondition of the first
  branch is computed in every round, whichever message is taken; while it holds back ordered blocks
  they stay in their channel. Commit messages that do not verify are dropped before they get here.
\<close>

datatype bm_event =
    OrderedBlocksIn ordered_blocks
  | ResetIn reset_signal
  | ScheduleResponse hash_value
  | WaitResponse hash_value "string + pipelined_block list"
  | RetryTick
  | SigningResponse "string + signature" ledger_info
  | PersistResponse "string + round"
  | CommitMessageIn commit_message
  | IntervalTick

definition advance_roots_if_none :: "buffer_manager \<Rightarrow> (bm_request list \<times> buffer_manager) option" where
  "advance_roots_if_none bm =
     Option.bind (if bm_execution_root bm = None then map_option snd (advance_execution_root bm) else Some bm)
       (\<lambda>bm. if bm_signing_root bm = None then advance_signing_root bm else Some ([], bm))"

definition bm_handle ::
  "laptos \<Rightarrow> int \<Rightarrow> bm_event \<Rightarrow> block_buffer \<Rightarrow> buffer_manager \<Rightarrow> (bm_request list \<times> buffer_manager) option" where
  "bm_handle L now event m bm =
     Option.bind (need_backpressure bm) (\<lambda>backpressure.
     case event of
       OrderedBlocksIn blocks \<Rightarrow>
         if backpressure then Some ([], bm)
         else
           Option.bind (ob_latest_round blocks) (\<lambda>latest_round.
           Option.bind (process_ordered_blocks L blocks (bm\<lparr>bm_latest_round := latest_round\<rparr>)) (\<lambda>(requests, bm).
           if bm_execution_root bm = None then
             map_option (\<lambda>(_, bm). (requests, bm)) (advance_execution_root bm)
           else Some (requests, bm)))
     | ResetIn _ \<Rightarrow> Some ([], bm)
     | ScheduleResponse block_id \<Rightarrow> Some (process_execution_schedule_response block_id, bm)
     | WaitResponse block_id inner \<Rightarrow>
         Option.bind (process_execution_response L now block_id inner m bm) (\<lambda>(requests1, bm).
         Option.bind (advance_execution_root bm) (\<lambda>(retry, bm).
         Option.bind (if bm_signing_root bm = None then advance_signing_root bm else Some ([], bm)) (\<lambda>(requests2, bm).
         Some (requests1 @ (if retry = Some block_id then [ScheduleRetry] else []) @ requests2, bm))))
     | RetryTick \<Rightarrow> map_option (\<lambda>requests. (requests, bm)) (retry_schedule_phase bm)
     | SigningResponse signature_result commit_ledger_info \<Rightarrow>
         Option.bind (process_signing_response now signature_result commit_ledger_info bm) (\<lambda>(requests1, bm).
         map_option (apfst (append requests1)) (advance_signing_root bm))
     | PersistResponse result \<Rightarrow>
         Some ([], case result of
                     Inr round \<Rightarrow>
                       bm\<lparr>bm_commit_vote_cache := filter (\<lambda>(rnd, _). rnd > round) (bm_commit_vote_cache bm),
                          bm_highest_committed_round := round\<rparr>
                   | Inl _ \<Rightarrow> bm)
     | CommitMessageIn msg \<Rightarrow>
         if is_ok (cm_verify L (es_verifier (bm_epoch_state bm)) msg) then
           Option.bind (process_commit_message L msg bm) (\<lambda>(requests1, aggregated_block_id, bm).
           case aggregated_block_id of
             None \<Rightarrow> Some (requests1, bm)
           | Some block_id \<Rightarrow>
               Option.bind (advance_head now block_id bm) (\<lambda>(requests2, bm).
               map_option (apfst (\<lambda>requests3. requests1 @ requests2 @ requests3)) (advance_roots_if_none bm)))
         else Some ([], bm)
     | IntervalTick \<Rightarrow> rebroadcast_commit_votes_if_needed now bm)"

definition bm_step ::
  "laptos \<Rightarrow> int \<times> bm_event \<Rightarrow> buffer_manager \<times> block_buffer \<Rightarrow>
   (bm_request list \<times> buffer_manager \<times> block_buffer) option" where
  "bm_step L ev s =
     (case (ev, s) of
        ((now, event), (bm, m)) \<Rightarrow>
          if bm_stop bm then Some ([], s)
          else (case event of
                  ResetIn signal \<Rightarrow>
                    Option.bind (need_backpressure bm) (\<lambda>_. Some (process_reset_request now signal bm m))
                | _ \<Rightarrow> map_option (\<lambda>(requests, bm). (requests, bm, m)) (bm_handle L now event m bm)))"

end
