(* ===== verification/Buffer_Manager_Facts.thy ===== *)
theory Buffer_Manager_Facts
  imports Buffer_Manager
begin

text \<open>
  Facts about the buffer manager: blocks are persisted in the order in which they were ordered,
  none left out and none twice; every persisted batch has a commit proof that verifies; no
  aggregated item stays in the buffer; and the caches for early votes and proofs are bounded.
\<close>

section \<open>The buffer of items\<close>

type_synonym item_list = "(hash_value \<times> buffer_item) list"

definition items_rep :: "buffer_item buffer \<Rightarrow> item_list \<Rightarrow> bool" where
  "items_rep b xs \<longleftrightarrow> buf_rep b (filled xs) \<and> (\<forall>(k, it) \<in> set xs. item_block_id it = Some k)"

definition items_ids :: "item_list \<Rightarrow> hash_value list" where
  "items_ids xs = concat (map (\<lambda>(k, it). map pb_id (get_blocks it)) xs)"

lemma items_ids_simps [simp]:
  "items_ids [] = []" "items_ids ((k, it) # xs) = map pb_id (get_blocks it) @ items_ids xs"
  "items_ids (xs @ ys) = items_ids xs @ items_ids ys"
  by (simp_all add: items_ids_def)

lemma items_rep_distinct: "items_rep b xs \<Longrightarrow> distinct (map fst xs)"
  by (simp add: items_rep_def buf_rep_def comp_def)

lemma items_rep_find_by_key: "items_rep b xs \<Longrightarrow> find_elem_by_key c key b = Some k \<Longrightarrow> \<exists>it. map_of xs k = Some it \<and> k = key"
proof -
  assume r: "items_rep b xs" and f: "find_elem_by_key c key b = Some k"
  then have "find_by_key c key xs = Some k"
    using buf_find_elem_by_key [of b xs c key] by (simp add: items_rep_def)
  then have "k = key" "key \<in> fst ` set xs"
    by (auto simp: find_by_key_def bind_eq_Some_conv split: if_splits dest: set_dropWhileD)
  then show ?thesis by (metis map_of_eq_None_iff not_None_eq)
qed

lemma items_rep_take:
  assumes "items_rep b xs" "buf_take (Some k) b = Some (it, b1)"
  shows "map_of xs k = Some it"
proof -
  have r: "buf_rep b (filled xs)" using assms(1) by (simp add: items_rep_def)
  obtain item where "map_of (bf_map b) k = Some item" "lk_elem item = Some it"
    using assms(2) by (auto simp: buf_take_def bind_eq_Some_conv)
  then show ?thesis using buf_rep_map_of_None [OF r, of k] buf_rep_map_of [OF r, of k]
    by (cases "map_of xs k") (auto simp: map_of_filled)
qed

lemma items_rep_take_set:
  assumes "items_rep b xs" "buf_take (Some k) b = Some (it, b1)" "buf_set (Some k) it' b1 = Some b2"
    "map pb_id (get_blocks it') = map pb_id (get_blocks it)"
  shows "items_rep b2 (al_insert k it' xs) \<and> items_ids (al_insert k it' xs) = items_ids xs"
proof -
  have r: "buf_rep b (filled xs)" using assms(1) by (simp add: items_rep_def)
  have m: "map_of xs k = Some it" by (rule items_rep_take [OF assms(1,2)])
  obtain ys zs where xs: "xs = ys @ (k, it) # zs" using map_of_SomeD [OF m] by (metis split_list)
  have ky: "k \<notin> fst ` set ys" using items_rep_distinct [OF assms(1)] xs by simp
  obtain b1' where "buf_take (Some k) b = Some (it, b1')" "buf_rep b1' (al_insert k None (filled xs))"
    using buf_rep_take [OF r, of k it] m by (auto simp: map_of_filled)
  with assms(2) have "buf_rep b1 (al_insert k None (filled xs))" by simp
  then have "buf_rep b2 (filled (al_insert k it' xs))"
    using buf_rep_set [of b1 "al_insert k None (filled xs)" k it'] assms(3) by (auto simp: al_insert_twice filled_al_insert)
  moreover have "item_block_id it' = item_block_id it" using assms(4) by (simp add: item_block_id_ids)
  ultimately show ?thesis using assms(1,4) by (auto simp: items_rep_def xs al_insert_at [OF ky])
qed

lemma set_al_insert_subset: "set (al_insert k v xs) \<subseteq> insert (k, v) (set xs)"
  by (induction k v xs rule: al_insert.induct) auto

lemma set_bt_insert_subset: "set (bt_insert k v xs) \<subseteq> insert (k, v) (set xs)"
  by (induction k v xs rule: bt_insert.induct) auto

lemma al_remove_subset: "set (al_remove k xs) \<subseteq> set xs"
  by (auto simp: al_remove_def)

definition persisted_ids :: "bm_request list \<Rightarrow> hash_value list" where
  "persisted_ids reqs = concat (map (\<lambda>r. case r of PersistRequest bs _ _ \<Rightarrow> map pb_id bs | _ \<Rightarrow> []) reqs)"

lemma persisted_ids_simps [simp]:
  "persisted_ids [] = []" "persisted_ids (xs @ ys) = persisted_ids xs @ persisted_ids ys"
  "persisted_ids (PersistRequest bs p c # rs) = map pb_id bs @ persisted_ids rs"
  by (simp_all add: persisted_ids_def)

definition bm_keeps :: "buffer_manager \<Rightarrow> buffer_manager \<Rightarrow> bool" where
  "bm_keeps bm bm' \<longleftrightarrow>
     bm_epoch_state bm' = bm_epoch_state bm \<and> bm_order_vote_enabled bm' = bm_order_vote_enabled bm \<and>
     bm_pending_commit_proofs bm' = bm_pending_commit_proofs bm \<and> bm_commit_vote_cache bm' = bm_commit_vote_cache bm \<and>
     bm_highest_committed_round bm' = bm_highest_committed_round bm \<and>
     bm_max_pending_rounds bm' = bm_max_pending_rounds bm"

lemma advance_head_loop_rep:
  assumes "items_rep (bm_buffer bm) (ys @ (k, ItemAggregated a) # zs)"
  shows "\<exists>bm'. advance_head_loop k acc bm =
      Some (acc @ concat (map (\<lambda>(k, it). get_blocks it) ys) @ ai_executed_blocks a, a, bm') \<and>
    items_rep (bm_buffer bm') zs \<and> bm_keeps bm bm'"
  using assms
proof (induction ys arbitrary: acc bm)
  case Nil
  then have id: "item_block_id (ItemAggregated a) = Some k" by (simp add: items_rep_def)
  obtain b' where b': "buf_pop_front (bm_buffer bm) = Some (Some (ItemAggregated a), b')" "buf_rep b' (filled zs)"
    using Nil.prems buf_rep_pop_front [of "bm_buffer bm" k "ItemAggregated a" "filled zs"] by (auto simp: items_rep_def)
  with Nil.prems id show ?case
    by (subst advance_head_loop.simps) (auto simp: Let_def get_blocks_def items_rep_def bm_keeps_def)
next
  case (Cons y ys)
  obtain k' it where y: "y = (k', it)" by (cases y)
  have id: "item_block_id it = Some k'" "k' \<noteq> k"
    using Cons.prems items_rep_distinct [OF Cons.prems] by (auto simp: items_rep_def y)
  obtain b' where b': "buf_pop_front (bm_buffer bm) = Some (Some it, b')" "buf_rep b' (filled (ys @ (k, ItemAggregated a) # zs))"
    using Cons.prems buf_rep_pop_front [of "bm_buffer bm" k' it "filled (ys @ (k, ItemAggregated a) # zs)"]
    by (auto simp: items_rep_def y)
  let ?bm = "bm\<lparr>bm_buffer := b',
     bm_signing_root := (if bm_signing_root bm = Some k' then None else bm_signing_root bm),
     bm_execution_root := (if bm_execution_root bm = Some k' then None else bm_execution_root bm)\<rparr>"
  have "items_rep (bm_buffer ?bm) (ys @ (k, ItemAggregated a) # zs)"
    using Cons.prems b'(2) by (simp add: items_rep_def y)
  from Cons.IH [OF this, of "acc @ get_blocks it"] obtain bm' where
    "advance_head_loop k (acc @ get_blocks it) ?bm =
       Some ((acc @ get_blocks it) @ concat (map (\<lambda>(k, it). get_blocks it) ys) @ ai_executed_blocks a, a, bm')"
    "items_rep (bm_buffer bm') zs" "bm_keeps ?bm bm'"
    by blast
  with b'(1) id show ?case
    by (subst advance_head_loop.simps) (auto simp: Let_def y bm_keeps_def)
qed


definition quiet :: "bm_request list \<Rightarrow> bool" where
  "quiet reqs \<longleftrightarrow> (\<forall>r \<in> set reqs. case r of PersistRequest _ _ _ \<Rightarrow> False | _ \<Rightarrow> True)"

lemma quiet_simps [simp]:
  "quiet []" "quiet (xs @ ys) \<longleftrightarrow> quiet xs \<and> quiet ys"
  "quiet (r # xs) \<longleftrightarrow> (case r of PersistRequest _ _ _ \<Rightarrow> False | _ \<Rightarrow> True) \<and> quiet xs"
  by (auto simp: quiet_def)

section \<open>Admitted and persisted blocks\<close>

text \<open>The ids of the blocks that a step takes from its channel, and that a run takes.\<close>

definition admitted :: "bm_event \<Rightarrow> buffer_manager \<Rightarrow> hash_value list" where
  "admitted event bm =
     (case event of
        OrderedBlocksIn blocks \<Rightarrow>
          if bm_stop bm \<or> need_backpressure bm \<noteq> Some False then [] else map pb_id (ob_ordered_blocks blocks)
      | _ \<Rightarrow> [])"

primrec admitted_run :: "laptos \<Rightarrow> (int \<times> bm_event) list \<Rightarrow> buffer_manager \<times> block_buffer \<Rightarrow> hash_value list" where
  "admitted_run L [] s = []"
| "admitted_run L (ev # evs) s =
     admitted (snd ev) (fst s) @ (case bm_step L ev s of None \<Rightarrow> [] | Some (_, s) \<Rightarrow> admitted_run L evs s)"

lemma items_rep_keys: "items_rep b xs \<Longrightarrow> fst ` set xs \<subseteq> set (items_ids xs)"
proof
  fix k assume r: "items_rep b xs" and "k \<in> fst ` set xs"
  then obtain it where it: "(k, it) \<in> set xs" by auto
  with r have "last_opt (map pb_id (get_blocks it)) = Some k" by (auto simp: items_rep_def item_block_id_ids)
  then have "k \<in> set (map pb_id (get_blocks it))" by (metis last_in_set last_opt_Some)
  with it show "k \<in> set (items_ids xs)" by (auto simp: items_ids_def)
qed

section \<open>What the manager needs of its items\<close>

text \<open>
  The contract between the manager and the items: a predicate on items that every transition of an
  item keeps, as long as the votes and proofs that are added satisfy theirs, and that gives the
  wanted fact about a batch that is persisted.
\<close>

locale item_contract =
  fixes L :: laptos and vv :: validator_verifier and ov :: bool
    and item_ok :: "buffer_item \<Rightarrow> bool" and good_vote :: "commit_vote \<Rightarrow> bool" and good_proof :: "li_with_sigs \<Rightarrow> bool"
    and good_request :: "pipelined_block list \<Rightarrow> li_with_sigs \<Rightarrow> bool"
  assumes new_ok: "item_ok (item_new_ordered bs p c)"
    and add_ok: "item_ok it \<Longrightarrow> good_vote v \<Longrightarrow> item_ok (snd (add_signature_if_matched L v it))"
    and exec_ok: "item_ok it \<Longrightarrow> advance_to_executed_or_aggregated L bs vv ts ov ebi it = Some it' \<Longrightarrow> item_ok it'"
    and signed_ok: "item_ok it \<Longrightarrow> advance_to_signed a sig it = Some it' \<Longrightarrow> item_ok it'"
    and handle_ok: "item_ok (ItemSigned g) \<Longrightarrow> item_ok (ItemSigned (g\<lparr>gi_rb_handle := h\<rparr>))"
    and decided_ok: "item_ok it \<Longrightarrow> good_proof p \<Longrightarrow> try_advance_to_aggregated_with_ledger_info L p it = Some it' \<Longrightarrow> item_ok it'"
    and aggregate_ok: "item_ok it \<Longrightarrow> try_advance_to_aggregated L vv it = Some it' \<Longrightarrow> item_ok it'"
    and request_law: "item_ok (ItemAggregated ag) \<Longrightarrow> item_block_id (ItemAggregated ag) = Some k \<Longrightarrow>
      good_request (bs @ ai_executed_blocks ag) (ai_commit_proof ag)"
begin

definition request_ok :: "bm_request \<Rightarrow> bool" where
  "request_ok r = (case r of PersistRequest bs p _ \<Rightarrow> good_request bs p | _ \<Rightarrow> True)"

definition item_inv :: "buffer_item \<Rightarrow> bool" where
  "item_inv it \<longleftrightarrow> item_ok it \<and> \<not> is_aggregated it"

definition round_ok :: "round_cache \<Rightarrow> bool" where
  "round_ok rc \<longleftrightarrow> (\<forall>vs \<in> snd ` set rc. \<forall>v \<in> snd ` set vs. good_vote v)"

definition caches_ok :: "buffer_manager \<Rightarrow> bool" where
  "caches_ok bm \<longleftrightarrow>
     (\<forall>p \<in> snd ` set (bm_pending_commit_proofs bm). good_proof p) \<and>
     (\<forall>rc \<in> snd ` set (bm_commit_vote_cache bm). round_ok rc)"

definition bm_inv :: "buffer_manager \<Rightarrow> item_list \<Rightarrow> bool" where
  "bm_inv bm xs \<longleftrightarrow>
     items_rep (bm_buffer bm) xs \<and> (\<forall>it \<in> snd ` set xs. item_inv it) \<and> caches_ok bm \<and>
     es_verifier (bm_epoch_state bm) = vv \<and> bm_order_vote_enabled bm = ov"

definition moved :: "item_list \<Rightarrow> bm_request list \<Rightarrow> buffer_manager \<Rightarrow> bool" where
  "moved xs reqs bm' \<longleftrightarrow>
     (\<exists>xs'. bm_inv bm' xs' \<and> persisted_ids reqs @ items_ids xs' = items_ids xs \<and>
        fst ` set xs' \<subseteq> fst ` set xs \<and> (\<forall>r \<in> set reqs. request_ok r))"

lemma bm_keeps_caches: "bm_keeps bm bm' \<Longrightarrow> caches_ok bm' = caches_ok bm"
  by (simp add: bm_keeps_def caches_ok_def)

lemma caches_ok_buffer [simp]: "caches_ok (bm\<lparr>bm_buffer := b\<rparr>) = caches_ok bm"
  by (simp add: caches_ok_def)

lemma moved_refl: "bm_inv bm xs \<Longrightarrow> moved xs [] bm"
  by (auto simp: moved_def)

lemma moved_trans:
  assumes "moved xs reqs bm" "\<And>xs'. bm_inv bm xs' \<Longrightarrow> moved xs' reqs' bm'"
  shows "moved xs (reqs @ reqs') bm'"
proof -
  obtain xs1 where 1: "bm_inv bm xs1" "persisted_ids reqs @ items_ids xs1 = items_ids xs"
    "fst ` set xs1 \<subseteq> fst ` set xs" "\<forall>r \<in> set reqs. request_ok r" using assms(1) by (auto simp: moved_def)
  obtain xs2 where 2: "bm_inv bm' xs2" "persisted_ids reqs' @ items_ids xs2 = items_ids xs1"
    "fst ` set xs2 \<subseteq> fst ` set xs1" "\<forall>r \<in> set reqs'. request_ok r" using assms(2) [OF 1(1)] by (auto simp: moved_def)
  have "persisted_ids (reqs @ reqs') @ items_ids xs2 = items_ids xs" using 1(2) 2(2) by simp
  moreover have "fst ` set xs2 \<subseteq> fst ` set xs" using 1(3) 2(3) by (rule order_trans [rotated])
  moreover have "\<forall>r \<in> set (reqs @ reqs'). request_ok r" using 1(4) 2(4) by auto
  ultimately show ?thesis using 2(1) unfolding moved_def by blast
qed

lemma quiet_ok: "quiet reqs \<Longrightarrow> persisted_ids reqs = [] \<and> (\<forall>r \<in> set reqs. request_ok r)"
  by (fastforce simp: quiet_def persisted_ids_def request_ok_def split: bm_request.splits)

lemma moved_same:
  "bm_inv bm' xs' \<Longrightarrow> items_ids xs' = items_ids xs \<Longrightarrow> fst ` set xs' = fst ` set xs \<Longrightarrow> quiet reqs \<Longrightarrow> moved xs reqs bm'"
  using quiet_ok [of reqs] unfolding moved_def by (intro exI [of _ xs']) simp

lemma advance_head_moved:
  assumes "items_rep (bm_buffer bm) xs" "map_of xs k = Some (ItemAggregated a)" "item_ok (ItemAggregated a)"
    "\<forall>(k', it) \<in> set xs. k' \<noteq> k \<longrightarrow> item_inv it" "caches_ok bm" "es_verifier (bm_epoch_state bm) = vv"
    "bm_order_vote_enabled bm = ov" "advance_head now k bm = Some (reqs, bm')"
  shows "moved xs reqs bm'"
proof -
  obtain ys zs where xs: "xs = ys @ (k, ItemAggregated a) # zs" using map_of_SomeD [OF assms(2)] by (metis split_list)
  obtain bm1 where bm1: "advance_head_loop k [] bm =
      Some (concat (map (\<lambda>(k, it). get_blocks it) ys) @ ai_executed_blocks a, a, bm1)"
    "items_rep (bm_buffer bm1) zs" "bm_keeps bm bm1"
    using advance_head_loop_rep [of bm ys k a zs "[]"] assms(1) xs by auto
  let ?bs = "concat (map (\<lambda>(k, it). get_blocks it) ys) @ ai_executed_blocks a"
  have reqs: "reqs = (if bm_has_publisher bm1 then [PublishDecision (ai_commit_proof a)] else []) @
      [PersistRequest ?bs (ai_commit_proof a) (ai_callback a)]" and bm': "bm' = bm1\<lparr>bm_previous_commit_time := now\<rparr>"
    using assms(8) bm1(1) by (simp_all add: advance_head_def)
  have d: "distinct (map fst xs)" by (rule items_rep_distinct [OF assms(1)])
  have id: "item_block_id (ItemAggregated a) = Some k" using assms(1) by (simp add: items_rep_def xs)
  have "item_inv it" if "(k', it) \<in> set zs" for k' it
  proof -
    have "k' \<in> fst ` set zs" using that by force
    then have "k' \<noteq> k" using d by (auto simp: xs)
    with assms(4) that show ?thesis by (auto simp: xs)
  qed
  then have inv: "bm_inv bm' zs"
    using bm1(2,3) assms(5-7) by (auto simp: bm_inv_def bm' bm_keeps_def caches_ok_def)
  have ids: "persisted_ids reqs @ items_ids zs = items_ids xs"
    by (simp add: reqs xs persisted_ids_def items_ids_def get_blocks_def map_concat comp_def split_def)
  have "request_ok r" if "r \<in> set reqs" for r
    using that request_law [OF assms(3) id] by (auto simp: reqs request_ok_def split: if_splits)
  with inv ids show ?thesis unfolding moved_def by (intro exI [of _ zs]) (auto simp: xs)
qed


lemma add_signatures_inv:
  assumes "\<forall>v \<in> set votes. good_vote v"
  shows "get_blocks (add_signatures L votes it) = get_blocks it \<and>
    is_aggregated (add_signatures L votes it) = is_aggregated it \<and>
    is_ordered (add_signatures L votes it) = is_ordered it \<and>
    (item_ok it \<longrightarrow> item_ok (add_signatures L votes it))"
  using assms
proof (induction votes arbitrary: it)
  case (Cons v votes)
  let ?it = "snd (add_signature_if_matched L v it)"
  have "item_ok it \<longrightarrow> item_ok ?it"
    using add_ok [of it v] Cons.prems by simp
  with Cons.IH [of ?it] Cons.prems add_signature_ids [of L v it] show ?case by (simp add: add_signatures_def)
qed (simp add: add_signatures_def)

lemma drain_cached_ok:
  assumes "drain_cached_commit_votes r b bm = (votes, bm')" "caches_ok bm"
  shows "(\<forall>v \<in> set votes. good_vote v) \<and> caches_ok bm' \<and> bm_buffer bm' = bm_buffer bm \<and>
    (\<exists>c. bm' = bm\<lparr>bm_commit_vote_cache := c\<rparr>)"
proof (cases "map_of (bm_commit_vote_cache bm) r")
  case None
  with assms show ?thesis by (auto simp: drain_cached_commit_votes_def intro: exI [of _ "bm_commit_vote_cache bm"])
next
  case (Some rc)
  have rc: "round_ok rc" using assms(2) map_of_SomeD [OF Some] by (force simp: caches_ok_def)
  have votes: "votes = (case map_of rc b of None \<Rightarrow> [] | Some vs \<Rightarrow> map snd vs)"
    and bm': "bm' = bm\<lparr>bm_commit_vote_cache := (if al_remove b rc = [] then al_remove r (bm_commit_vote_cache bm)
        else bt_insert r (al_remove b rc) (bm_commit_vote_cache bm))\<rparr>"
    using assms(1) Some by (simp_all add: drain_cached_commit_votes_def Let_def)
  have "\<forall>v \<in> set votes. good_vote v"
  proof (cases "map_of rc b")
    case (Some vs)
    then have "vs \<in> snd ` set rc" by (force dest: map_of_SomeD)
    with rc Some show ?thesis by (auto simp: votes round_ok_def)
  qed (simp add: votes)
  moreover have "round_ok (al_remove b rc)" using rc al_remove_subset [of b rc] unfolding round_ok_def by blast
  ultimately show ?thesis using assms(2) al_remove_subset [of r "bm_commit_vote_cache bm"] set_bt_insert_subset [of r "al_remove b rc" "bm_commit_vote_cache bm"]
    by (fastforce simp: bm' caches_ok_def)
qed



lemma bm_inv_roots:
  assumes "bm_inv bm xs"
  shows "bm_inv (bm\<lparr>bm_execution_root := er\<rparr>) xs" "bm_inv (bm\<lparr>bm_signing_root := sr\<rparr>) xs"
    "bm_inv (bm\<lparr>bm_latest_round := lr\<rparr>) xs" "bm_inv (bm\<lparr>bm_end_epoch_timestamp := ts\<rparr>) xs"
  using assms by (simp_all add: bm_inv_def caches_ok_def)

lemma process_ordered_blocks_inv:
  assumes "process_ordered_blocks L obs bm = Some (reqs, bm')" "bm_inv bm xs"
    "last_opt (map pb_id (ob_ordered_blocks obs)) = Some k" "k \<notin> fst ` set xs"
  shows "\<exists>it. bm_inv bm' (xs @ [(k, it)]) \<and> map pb_id (get_blocks it) = map pb_id (ob_ordered_blocks obs) \<and> quiet reqs"
proof -
  let ?new = "item_new_ordered (ob_ordered_blocks obs) (ob_ordered_proof obs) (ob_callback obs)"
  have gb: "get_blocks ?new = ob_ordered_blocks obs" by (simp add: item_new_ordered_def get_blocks_def)
  have bid: "item_block_id ?new = Some k" using assms(3) gb by (simp add: item_block_id_ids)
  obtain votes bm1 where d: "drain_cached_commit_votes (bi_round (item_commit_info ?new)) k bm = (votes, bm1)"
    by (cases "drain_cached_commit_votes (bi_round (item_commit_info ?new)) k bm")
  note dok = drain_cached_ok [OF d]
  let ?it = "add_signatures L votes ?new"
  obtain b where b: "buf_push_back item_block_id ?it (bm_buffer bm1) = Some b"
    and reqs: "reqs = (if bm_has_publisher bm then [PublishOrdered (ob_ordered_blocks obs) (ob_ordered_proof obs)] else []) @
      [ExecuteRequest (ob_ordered_blocks obs)]" and bm': "bm' = bm1\<lparr>bm_buffer := b\<rparr>"
    using assms(1) bid d by (auto simp: process_ordered_blocks_def Let_def)
  have c: "caches_ok bm" using assms(2) by (simp add: bm_inv_def)
  have votes: "\<forall>v \<in> set votes. good_vote v" and bm1: "caches_ok bm1" "bm_buffer bm1 = bm_buffer bm"
    "bm_epoch_state bm1 = bm_epoch_state bm" "bm_order_vote_enabled bm1 = bm_order_vote_enabled bm"
    using dok [OF c] by auto
  have it: "get_blocks ?it = ob_ordered_blocks obs" "\<not> is_aggregated ?it" "item_ok ?it"
    using add_signatures_inv [OF votes, of ?new] gb new_ok
    by (auto simp: item_new_ordered_def is_aggregated_def)
  have bid': "item_block_id ?it = Some k" using bid it(1) gb by (simp add: item_block_id_def)
  have "Suc (unat (bf_count (bm_buffer bm))) < 2 ^ 64"
    using b bm1(2) by (auto simp: buf_push_back_def bind_eq_Some_conv checked_add_def split: if_splits)
  with buf_rep_push_back [of "bm_buffer bm" "filled xs" item_block_id ?it k] b bm1(2) bid' assms(2,4)
  have "buf_rep b (filled (xs @ [(k, ?it)]))" by (auto simp: bm_inv_def items_rep_def image_image)
  then have "bm_inv bm' (xs @ [(k, ?it)])"
    using assms(2) bm1 it bid' by (auto simp: bm_inv_def items_rep_def bm' item_inv_def)
  with it(1) reqs show ?thesis by (intro exI [of _ ?it]) auto
qed

lemma advance_execution_root_inv:
  "advance_execution_root bm = Some (c, bm') \<Longrightarrow> bm_inv bm xs \<Longrightarrow> bm_inv bm' xs"
  by (auto simp: advance_execution_root_def Let_def bm_inv_roots)

lemma advance_signing_root_inv:
  assumes "advance_signing_root bm = Some (reqs, bm')" "bm_inv bm xs"
  shows "bm_inv bm' xs \<and> quiet reqs"
proof -
  obtain root where root: "find_elem_from (case bm_signing_root bm of None \<Rightarrow> bf_head (bm_buffer bm) | Some k \<Rightarrow> Some k)
      is_executed (bm_buffer bm) = Some root"
    using assms(1) by (auto simp: advance_signing_root_def Let_def bind_eq_Some_conv)
  show ?thesis
  proof (cases root)
    case None
    with assms root show ?thesis by (auto simp: advance_signing_root_def bm_inv_roots)
  next
    case (Some k)
    with assms(1) root obtain item where item: "buf_get (bm_buffer bm) (Some k) = Some item"
      by (auto simp: advance_signing_root_def Let_def bind_eq_Some_conv)
    show ?thesis using assms root Some item
      by (cases item) (auto simp: advance_signing_root_def Let_def bm_inv_roots split: if_splits)
  qed
qed

lemma bm_inv_replace:
  assumes "bm_inv bm xs" "buf_take (Some k) (bm_buffer bm) = Some (it, b1)" "buf_set (Some k) it' b1 = Some b2"
    "map pb_id (get_blocks it') = map pb_id (get_blocks it)" "item_inv it'"
    "caches_ok bm'" "bm_epoch_state bm' = bm_epoch_state bm" "bm_order_vote_enabled bm' = bm_order_vote_enabled bm"
  shows "bm_inv (bm'\<lparr>bm_buffer := b2\<rparr>) (al_insert k it' xs) \<and> items_ids (al_insert k it' xs) = items_ids xs \<and>
    fst ` set (al_insert k it' xs) = fst ` set xs"
proof -
  have r: "items_rep (bm_buffer bm) xs" using assms(1) by (simp add: bm_inv_def)
  have "k \<in> fst ` set xs" using items_rep_take [OF r assms(2)] by (force dest: map_of_SomeD)
  moreover have "\<forall>it \<in> snd ` set (al_insert k it' xs). item_inv it"
    using assms(1,5) set_al_insert_subset [of k it' xs] by (fastforce simp: bm_inv_def)
  ultimately show ?thesis using items_rep_take_set [OF r assms(2-4)] assms(1,6-8) by (auto simp: bm_inv_def)
qed

lemma bm_replace_moved:
  assumes "bm_inv bm xs" "buf_take (Some k) (bm_buffer bm) = Some (it, b1)" "buf_set (Some k) it' b1 = Some b2"
    "map pb_id (get_blocks it') = map pb_id (get_blocks it)" "item_inv it'"
    "caches_ok bm'" "bm_epoch_state bm' = bm_epoch_state bm" "bm_order_vote_enabled bm' = bm_order_vote_enabled bm"
    "quiet reqs"
  shows "moved xs reqs (bm'\<lparr>bm_buffer := b2\<rparr>)"
  using bm_inv_replace [OF assms(1-8)] assms(9) by (elim conjE) (rule moved_same)

lemma bm_inv_item: "bm_inv bm xs \<Longrightarrow> buf_take (Some k) (bm_buffer bm) = Some (it, b1) \<Longrightarrow> item_inv it"
  using items_rep_take [of "bm_buffer bm" xs k it b1] by (force simp: bm_inv_def dest: map_of_SomeD)

lemma bm_replace_aggregated:
  assumes "bm_inv bm xs" "buf_take (Some k) (bm_buffer bm) = Some (it, b1)" "buf_set (Some k) it' b1 = Some b2"
    "map pb_id (get_blocks it') = map pb_id (get_blocks it)" "item_ok it'" "is_aggregated it'"
    "caches_ok bm'" "bm_epoch_state bm' = bm_epoch_state bm" "bm_order_vote_enabled bm' = bm_order_vote_enabled bm"
    "advance_head now k (bm'\<lparr>bm_buffer := b2\<rparr>) = Some (reqs, bm2)"
  shows "moved xs reqs bm2"
proof -
  have r: "items_rep (bm_buffer bm) xs" using assms(1) by (simp add: bm_inv_def)
  have k: "k \<in> fst ` set xs" using items_rep_take [OF r assms(2)] by (force dest: map_of_SomeD)
  obtain a where a: "it' = ItemAggregated a" using assms(6) by (auto simp: is_aggregated_def split: buffer_item.splits)
  note rep = items_rep_take_set [OF r assms(2-4)]
  have others: "\<forall>(k', it) \<in> set (al_insert k it' xs). k' \<noteq> k \<longrightarrow> item_inv it"
    using assms(1) set_al_insert_subset [of k it' xs] by (fastforce simp: bm_inv_def)
  have "moved (al_insert k it' xs) reqs bm2"
    by (rule advance_head_moved [OF _ _ _ others _ _ _ assms(10)]) (use rep assms(1,5,7-9) a in \<open>auto simp: bm_inv_def\<close>)
  then show ?thesis using rep k by (auto simp: moved_def)
qed


lemma set_end_epoch_timestamp_sel [simp]:
  "bm_buffer (set_end_epoch_timestamp L bs bm) = bm_buffer bm"
  "bm_epoch_state (set_end_epoch_timestamp L bs bm) = bm_epoch_state bm"
  "bm_order_vote_enabled (set_end_epoch_timestamp L bs bm) = bm_order_vote_enabled bm"
  "caches_ok (set_end_epoch_timestamp L bs bm) = caches_ok bm"
  by (simp_all add: set_end_epoch_timestamp_def caches_ok_def split: option.split)

lemma drain_pending_ok:
  assumes "drain_pending_commit_proof_till r bm = Some (p, bm')" "caches_ok bm"
  shows "caches_ok bm' \<and> bm_epoch_state bm' = bm_epoch_state bm \<and> bm_order_vote_enabled bm' = bm_order_vote_enabled bm \<and>
    (\<forall>q. p = Some q \<longrightarrow> good_proof q)"
proof -
  obtain n where n: "p = map_option snd (last_opt (filter (\<lambda>(r, _). r < n) (bm_pending_commit_proofs bm)))"
    "bm' = bm\<lparr>bm_pending_commit_proofs := filter (\<lambda>(r, _). n \<le> r) (bm_pending_commit_proofs bm)\<rparr>"
    using assms(1) by (auto simp: drain_pending_commit_proof_till_def bind_eq_Some_conv Let_def)
  have "q \<in> snd ` set (bm_pending_commit_proofs bm)" if "p = Some q" for q
  proof -
    from that n(1) obtain x where x: "last_opt (filter (\<lambda>(r, _). r < n) (bm_pending_commit_proofs bm)) = Some x" "q = snd x"
      by auto
    then have "x \<in> set (filter (\<lambda>(r, _). r < n) (bm_pending_commit_proofs bm))" by (metis last_in_set last_opt_Some)
    with x(2) show ?thesis by auto
  qed
  then have "\<forall>q. p = Some q \<longrightarrow> good_proof q" using assms(2) unfolding caches_ok_def by blast
  moreover have "caches_ok bm'" using assms(2) by (auto simp: n(2) caches_ok_def)
  ultimately show ?thesis by (simp add: n(2))
qed

lemma process_execution_response_cases:
  assumes "process_execution_response L now block_id inner m bm = Some (reqs, bm')"
  obtains "reqs = []" "bm' = bm"
  | key bs item buffer ebi new1 pending bm2 new2 buffer2 where
    "find_elem_by_key (bm_execution_root bm) block_id (bm_buffer bm) = Some key"
    "buf_take (Some key) (bm_buffer bm) = Some (item, buffer)"
    "advance_to_executed_or_aggregated L bs (es_verifier (bm_epoch_state bm))
       (bm_end_epoch_timestamp (set_end_epoch_timestamp L bs bm)) (bm_order_vote_enabled bm) ebi item = Some new1"
    "drain_pending_commit_proof_till (bi_round (item_commit_info item)) (set_end_epoch_timestamp L bs bm) = Some (pending, bm2)"
    "new2 = new1 \<or> (\<exists>p. pending = Some p \<and> try_advance_to_aggregated_with_ledger_info L p new1 = Some new2)"
    "buf_set (Some key) new2 buffer = Some buffer2"
    "if is_aggregated new2 then advance_head now block_id (bm2\<lparr>bm_buffer := buffer2\<rparr>) = Some (reqs, bm')
     else reqs = [] \<and> bm' = bm2\<lparr>bm_buffer := buffer2\<rparr>"
proof (cases "find_elem_by_key (bm_execution_root bm) block_id (bm_buffer bm)")
  case None
  with assms that(1) show ?thesis by (simp add: process_execution_response_def)
next
  case (Some key)
  show ?thesis
  proof (cases inner)
    case (Inl e)
    with assms Some that(1) show ?thesis by (simp add: process_execution_response_def)
  next
    case (Inr bs)
    obtain lb cur cid where c: "last_opt bs = Some lb" "buf_get (bm_buffer bm) (Some key) = Some cur" "item_block_id cur = Some cid"
      using assms Some Inr by (auto simp: process_execution_response_def bind_eq_Some_conv)
    note a = assms[unfolded process_execution_response_def Some Inr option.case sum.case c bind.bind_lunit Let_def]
    show ?thesis
    proof (cases "cid = block_id")
      case False
      with a that(1) show ?thesis by simp
    next
      case True
      let ?bm = "set_end_epoch_timestamp L bs bm"
      from a True obtain item buffer new1 pending bm2 new2 buffer2 where
        s: "buf_take (Some key) (bm_buffer bm) = Some (item, buffer)"
        "advance_to_executed_or_aggregated L bs (es_verifier (bm_epoch_state bm))
           (bm_end_epoch_timestamp ?bm) (bm_order_vote_enabled bm) (resolve_epoch_block_info m lb ?bm) item = Some new1"
        "drain_pending_commit_proof_till (bi_round (item_commit_info item)) ?bm = Some (pending, bm2)"
        "(case pending of Some commit_proof \<Rightarrow>
             if \<not> is_aggregated new1 \<and> bi_id (lws_commit_info commit_proof) = block_id
             then try_advance_to_aggregated_with_ledger_info L commit_proof new1 else Some new1
           | None \<Rightarrow> Some new1) = Some new2"
        "buf_set (Some key) new2 buffer = Some buffer2"
        "(if is_aggregated new2 then advance_head now block_id (bm2\<lparr>bm_buffer := buffer2\<rparr>)
          else Some ([], bm2\<lparr>bm_buffer := buffer2\<rparr>)) = Some (reqs, bm')"
        by (auto simp: bind_eq_Some_conv)
      have n: "new2 = new1 \<or> (\<exists>p. pending = Some p \<and> try_advance_to_aggregated_with_ledger_info L p new1 = Some new2)"
        using s(4) by (auto split: option.splits if_splits)
      from s(6) have l: "if is_aggregated new2 then advance_head now block_id (bm2\<lparr>bm_buffer := buffer2\<rparr>) = Some (reqs, bm')
          else reqs = [] \<and> bm' = bm2\<lparr>bm_buffer := buffer2\<rparr>" by (auto split: if_splits)
      show ?thesis by (rule that(2) [OF Some s(1-3) n s(5) l])
    qed
  qed
qed


lemma process_execution_response_moved:
  assumes "process_execution_response L now block_id inner m bm = Some (reqs, bm')" "bm_inv bm xs"
  shows "moved xs reqs bm'"
  using assms(1)
proof (cases rule: process_execution_response_cases)
  case 1
  with assms(2) show ?thesis by (simp add: moved_refl)
next
  case (2 key bs item buffer ebi new1 pending bm2 new2 buffer2)
  have inv: "items_rep (bm_buffer bm) xs" "caches_ok bm" "es_verifier (bm_epoch_state bm) = vv" "bm_order_vote_enabled bm = ov"
    using assms(2) by (simp_all add: bm_inv_def)
  have key: "key = block_id" using items_rep_find_by_key [OF inv(1) 2(1)] by blast
  have item: "item_ok item" using bm_inv_item [OF assms(2) 2(2)] by (simp add: item_inv_def)
  have new1: "item_ok new1"
    using exec_ok [OF item] 2(3) inv by auto
  note dp = drain_pending_ok [OF 2(4), simplified, OF inv(2)]
  have new2: "item_ok new2" "map pb_id (get_blocks new2) = map pb_id (get_blocks item)"
    using 2(5) new1 decided_ok [of new1 _ new2] with_ledger_info_ids [of L _ new1 new2] dp
      advance_to_executed_ids [OF 2(3)] by auto
  show ?thesis
  proof (cases "is_aggregated new2")
    case True
    then have "advance_head now key (bm2\<lparr>bm_buffer := buffer2\<rparr>) = Some (reqs, bm')" using 2(7) key by simp
    from bm_replace_aggregated [OF assms(2) 2(2,6) new2(2,1) True _ _ _ this] dp show ?thesis by simp
  next
    case False
    then have "bm' = bm2\<lparr>bm_buffer := buffer2\<rparr>" "reqs = []" using 2(7) by simp_all
    moreover have "item_inv new2" using False new2(1) by (simp add: item_inv_def)
    ultimately show ?thesis using bm_replace_moved [OF assms(2) 2(2,6) new2(2), of bm2 "[]"] dp by simp
  qed
qed

lemma process_signing_response_moved:
  assumes "process_signing_response now sr li bm = Some (reqs, bm')" "bm_inv bm xs"
  shows "moved xs reqs bm'"
proof (cases sr)
  case (Inl e)
  with assms show ?thesis by (simp add: process_signing_response_def moved_refl)
next
  case (Inr sig)
  show ?thesis
  proof (cases "find_elem_by_key (bm_signing_root bm) (bi_id (li_commit_info li)) (bm_buffer bm)")
    case None
    with Inr assms show ?thesis by (simp add: process_signing_response_def moved_refl)
  next
    case (Some k)
    with Inr assms(1) obtain item b1 where t: "buf_take (Some k) (bm_buffer bm) = Some (item, b1)"
      by (auto simp: process_signing_response_def bind_eq_Some_conv)
    note it = bm_inv_item [OF assms(2) t]
    have keep: "caches_ok bm" using assms(2) by (simp add: bm_inv_def)
    show ?thesis
    proof (cases item)
      case (ItemExecuted x)
      then obtain g where g: "advance_to_signed (bm_author bm) sig item = Some (ItemSigned g)"
        by (simp add: advance_to_signed_def)
      obtain rs h where rs: "do_reliable_broadcast now (gi_commit_vote g) bm = (rs, h)" by fastforce
      let ?new = "ItemSigned (g\<lparr>gi_rb_handle := h\<rparr>)"
      obtain b2 where b2: "buf_set (Some k) ?new b1 = Some b2" "reqs = rs" "bm' = bm\<lparr>bm_buffer := b2\<rparr>"
        using assms(1) Inr Some t ItemExecuted g rs by (auto simp: process_signing_response_def is_executed_def)
      have new: "map pb_id (get_blocks ?new) = map pb_id (get_blocks item)" "item_inv ?new"
        using it advance_to_signed_ids [OF g] signed_ok [OF _ g, THEN handle_ok]
        by (auto simp: item_inv_def item_defs)
      have "quiet rs" using rs by (auto simp: do_reliable_broadcast_def split: if_splits)
      with bm_replace_moved [OF assms(2) t b2(1) new keep refl refl] b2 show ?thesis by simp
    qed (use assms(1) Inr Some t in \<open>auto simp: process_signing_response_def is_executed_def
        intro: bm_replace_moved [OF assms(2) t _ refl it keep refl refl]\<close>)
  qed
qed


lemma round_ok_insert:
  assumes "round_ok rc" "good_vote v"
  shows "round_ok (al_insert b (al_insert a v (case map_of rc b of None \<Rightarrow> [] | Some vs \<Rightarrow> vs)) rc)"
proof -
  let ?vs = "case map_of rc b of None \<Rightarrow> [] | Some vs \<Rightarrow> vs"
  have "\<forall>w \<in> snd ` set ?vs. good_vote w"
  proof (cases "map_of rc b")
    case (Some vs)
    then have "vs \<in> snd ` set rc" by (force dest: map_of_SomeD)
    with assms(1) Some show ?thesis by (auto simp: round_ok_def)
  qed simp
  then have new: "\<forall>w \<in> snd ` set (al_insert a v ?vs). good_vote w"
    using assms(2) set_al_insert_subset [of a v ?vs] by fastforce
  show ?thesis unfolding round_ok_def
  proof
    fix ws assume "ws \<in> snd ` set (al_insert b (al_insert a v ?vs) rc)"
    then have "ws = al_insert a v ?vs \<or> ws \<in> snd ` set rc" using set_al_insert_subset [of b "al_insert a v ?vs" rc] by force
    with new assms(1) show "\<forall>w \<in> snd ` set ws. good_vote w" by (auto simp: round_ok_def)
  qed
qed

lemma caches_ok_bt_insert:
  assumes "\<forall>rc \<in> snd ` set cache. round_ok rc" "round_ok rc"
  shows "\<forall>rc \<in> snd ` set (bt_insert r rc cache). round_ok rc"
  using assms set_bt_insert_subset [of r rc cache] by fastforce

lemma cache_commit_vote_ok:
  assumes "cache_commit_vote v bm = (ok, bm')" "good_vote v" "caches_ok bm"
  shows "caches_ok bm' \<and> (\<exists>c. bm' = bm\<lparr>bm_commit_vote_cache := c\<rparr>)"
proof -
  let ?max = "saturating_add (bm_highest_committed_round bm) (bm_max_pending_rounds bm)"
  let ?r = "bi_round (cv_commit_info v)"
  define cache where "cache = filter (\<lambda>(r, _). r > bm_highest_committed_round bm \<and> r < ?max) (bm_commit_vote_cache bm)"
  define rc where "rc = (case map_of cache ?r of None \<Rightarrow> [] | Some c \<Rightarrow> c)"
  have cache: "\<forall>rc \<in> snd ` set cache. round_ok rc" using assms(3) by (auto simp: caches_ok_def cache_def)
  have rc: "round_ok rc"
  proof (cases "map_of cache ?r")
    case (Some c)
    then have "c \<in> snd ` set cache" by (force dest: map_of_SomeD)
    with cache Some show ?thesis by (auto simp: rc_def)
  qed (simp add: rc_def round_ok_def)
  note defs = assms(1)[unfolded cache_commit_vote_def Let_def, folded cache_def, folded rc_def]
  show ?thesis
  proof (cases "classify_commit_vote_round ?r (bm_highest_committed_round bm) ?max")
    case InWindow
    with defs caches_ok_bt_insert [OF cache rc, of ?r] assms(3)
      caches_ok_bt_insert [OF cache round_ok_insert [OF rc assms(2)], of ?r "bi_id (cv_commit_info v)" "cv_author v"]
    show ?thesis by (auto simp: caches_ok_def split: if_splits)
  qed (use defs cache assms(3) in \<open>auto simp: caches_ok_def\<close>)
qed

lemma caches_ok_pending:
  assumes "caches_ok bm" "snd ` set c \<subseteq> insert p (snd ` set (bm_pending_commit_proofs bm))" "good_proof p"
  shows "caches_ok (bm\<lparr>bm_pending_commit_proofs := c\<rparr>)"
proof -
  have "good_proof q" if "q \<in> snd ` set c" for q using assms that unfolding caches_ok_def by blast
  then show ?thesis using assms(1) by (auto simp: caches_ok_def)
qed

lemma try_add_pending_ok:
  assumes "try_add_pending_commit_proof p bm = Some (ok, bm')" "good_proof p" "caches_ok bm"
  shows "caches_ok bm' \<and> (\<exists>c. bm' = bm\<lparr>bm_pending_commit_proofs := c\<rparr>)"
proof -
  let ?r = "bi_round (lws_commit_info p)"
  let ?ps = "bm_pending_commit_proofs bm"
  have sub: "snd ` set (bt_insert ?r p ps) \<subseteq> insert p (snd ` set ?ps)" if "set ps \<subseteq> set ?ps" for ps
    using set_bt_insert_subset [of ?r p ps] that by force
  have "set (tl ?ps) \<subseteq> set ?ps" by (cases ?ps) auto
  note tl = caches_ok_pending [OF assms(3) sub [OF this] assms(2)]
  note all = caches_ok_pending [OF assms(3) sub [OF subset_refl] assms(2)]
  have "bm' = bm \<or> bm' = bm\<lparr>bm_pending_commit_proofs := bt_insert ?r p ?ps\<rparr> \<or>
      bm' = bm\<lparr>bm_pending_commit_proofs := bt_insert ?r p (tl ?ps)\<rparr>"
    using assms(1) by (cases ?ps) (auto simp: try_add_pending_commit_proof_def Let_def split: if_splits)
  then consider "bm' = bm" | "bm' = bm\<lparr>bm_pending_commit_proofs := bt_insert ?r p ?ps\<rparr>"
    | "bm' = bm\<lparr>bm_pending_commit_proofs := bt_insert ?r p (tl ?ps)\<rparr>" by blast
  then show ?thesis
  proof cases
    case 1
    then have "bm' = bm\<lparr>bm_pending_commit_proofs := ?ps\<rparr>" by simp
    with 1 assms(3) show ?thesis by metis
  qed (use tl all in blast)+
qed


definition aggregated_moved :: "item_list \<Rightarrow> hash_value option \<Rightarrow> buffer_manager \<Rightarrow> bool" where
  "aggregated_moved xs agg bm \<longleftrightarrow>
     (case agg of
        None \<Rightarrow> moved xs [] bm
      | Some k \<Rightarrow> \<forall>now reqs bm'. advance_head now k bm = Some (reqs, bm') \<longrightarrow> moved xs reqs bm')"

lemma replaced_moved:
  assumes "bm_inv bm xs" "buf_take (Some k) (bm_buffer bm) = Some (it, b1)" "buf_set (Some k) it' b1 = Some b2"
    "map pb_id (get_blocks it') = map pb_id (get_blocks it)" "item_ok it'"
    "caches_ok bm'" "bm_epoch_state bm' = bm_epoch_state bm" "bm_order_vote_enabled bm' = bm_order_vote_enabled bm"
  shows "aggregated_moved xs (if is_aggregated it' then Some k else None) (bm'\<lparr>bm_buffer := b2\<rparr>)"
proof (cases "is_aggregated it'")
  case True
  with bm_replace_aggregated [OF assms(1-5) True assms(6-8)] show ?thesis by (simp add: aggregated_moved_def)
next
  case False
  then have "item_inv it'" using assms(5) by (simp add: item_inv_def)
  with bm_replace_moved [OF assms(1-4) this assms(6-8), of "[]"] False show ?thesis by (simp add: aggregated_moved_def)
qed

lemma process_vote_moved:
  assumes p: "process_commit_message L (CommitVote v) bm = Some (reqs, agg, bm')" and inv: "bm_inv bm xs"
    and v: "good_vote v"
  shows "quiet reqs \<and> aggregated_moved xs agg bm'"
proof -
  let ?id = "bi_id (cv_commit_info v)"
  have c: "items_rep (bm_buffer bm) xs" "caches_ok bm" "es_verifier (bm_epoch_state bm) = vv" "bm_order_vote_enabled bm = ov"
    using inv by (simp_all add: bm_inv_def)
  show ?thesis
  proof (cases "find_elem_by_key (bf_head (bm_buffer bm)) ?id (bm_buffer bm)")
    case None
    obtain ok bm1 where k: "cache_commit_vote v bm = (ok, bm1)" by fastforce
    have e: "reqs = [if ok then ReplyAck else ReplyNack]" "agg = None" "bm' = bm1"
      using p None k by (auto simp: process_commit_message_def Let_def)
    obtain cc where "bm1 = bm\<lparr>bm_commit_vote_cache := cc\<rparr>" "caches_ok bm1" using cache_commit_vote_ok [OF k v c(2)] by blast
    then have "bm_inv bm1 xs" using inv by (simp add: bm_inv_def)
    then show ?thesis by (simp add: e aggregated_moved_def moved_refl)
  next
    case (Some key)
    have key: "key = ?id" using items_rep_find_by_key [OF c(1) Some] by blast
    obtain it b1 where t: "buf_take (Some key) (bm_buffer bm) = Some (it, b1)"
      using p Some by (auto simp: process_commit_message_def Let_def bind_eq_Some_conv)
    obtain votes bm1 where d: "drain_cached_commit_votes (bi_round (cv_commit_info v)) ?id bm = (votes, bm1)" by fastforce
    note dok = drain_cached_ok [OF d c(2)]
    let ?it1 = "add_signatures L votes it"
    let ?it2 = "snd (add_signature_if_matched L v ?it1)"
    have votes: "\<forall>v \<in> set votes. good_vote v" using dok by blast
    have it: "item_ok it" using bm_inv_item [OF inv t] by (simp add: item_inv_def)
    have it1: "get_blocks ?it1 = get_blocks it" "item_ok ?it1" using add_signatures_inv [OF votes, of it] it by blast+
    have it2: "get_blocks ?it2 = get_blocks it" "item_ok ?it2"
      using add_signature_ids [of L v ?it1] it1 add_ok [OF it1(2) v] by simp_all
    have keep: "caches_ok bm1" "bm_epoch_state bm1 = bm_epoch_state bm" "bm_order_vote_enabled bm1 = bm_order_vote_enabled bm"
      using dok by auto
    show ?thesis
    proof (cases "fst (add_signature_if_matched L v ?it1)")
      case (Inl e)
      then obtain b2 where b2: "buf_set (Some key) ?it2 b1 = Some b2" "reqs = [ReplyNack]" "bm' = bm1\<lparr>bm_buffer := b2\<rparr>"
        "agg = (if is_aggregated ?it2 then Some key else None)"
        using p Some t d by (auto simp: process_commit_message_def Let_def add_signature_if_matched_from_cache_def key
            split: prod.splits)
      with replaced_moved [OF inv t b2(1) _ it2(2) keep] it2(1) show ?thesis by simp
    next
      case (Inr u)
      obtain it3 b2 where b2: "try_advance_to_aggregated L (es_verifier (bm_epoch_state bm1)) ?it2 = Some it3"
        "buf_set (Some key) it3 b1 = Some b2" "reqs = [ReplyAck]" "bm' = bm1\<lparr>bm_buffer := b2\<rparr>"
        "agg = (if is_aggregated it3 then Some key else None)"
        using p Some t d Inr by (auto simp: process_commit_message_def Let_def add_signature_if_matched_from_cache_def key
            bind_eq_Some_conv split: prod.splits)
      have "try_advance_to_aggregated L vv ?it2 = Some it3" using b2(1) keep(2) c(3) by simp
      with try_advance_ids [OF this] aggregate_ok [OF it2(2) this] it2(1)
        replaced_moved [OF inv t b2(2) _ _ keep] b2 show ?thesis by simp
    qed
  qed
qed

lemma process_decision_moved:
  assumes p: "process_commit_message L (CommitDecision d) bm = Some (reqs, agg, bm')" and inv: "bm_inv bm xs"
    and d: "good_proof (cd_ledger_info d)"
  shows "quiet reqs \<and> aggregated_moved xs agg bm'"
proof -
  let ?p = "cd_ledger_info d"
  let ?id = "bi_id (lws_commit_info ?p)"
  have c: "items_rep (bm_buffer bm) xs" "caches_ok bm" using inv by (simp_all add: bm_inv_def)
  show ?thesis
  proof (cases "find_elem_by_key (bf_head (bm_buffer bm)) ?id (bm_buffer bm)")
    case None
    obtain ok where k: "try_add_pending_commit_proof ?p bm = Some (ok, bm')" and e: "reqs = [ReplyNack]" "agg = None"
      using p None by (auto simp: process_commit_message_def Let_def)
    obtain cc where "bm' = bm\<lparr>bm_pending_commit_proofs := cc\<rparr>" "caches_ok bm'" using try_add_pending_ok [OF k d c(2)] by blast
    then have "bm_inv bm' xs" using inv by (simp add: bm_inv_def)
    then show ?thesis by (simp add: e aggregated_moved_def moved_refl)
  next
    case (Some key)
    have key: "key = ?id" using items_rep_find_by_key [OF c(1) Some] by blast
    obtain it b1 new b2 where t: "buf_take (Some key) (bm_buffer bm) = Some (it, b1)"
      "try_advance_to_aggregated_with_ledger_info L ?p it = Some new" "buf_set (Some key) new b1 = Some b2"
      "bm' = bm\<lparr>bm_buffer := b2\<rparr>" "agg = (if is_aggregated new then Some key else None)"
      "reqs = [if is_aggregated new then ReplyAck else ReplyNack]"
      using p Some by (auto simp: process_commit_message_def Let_def bind_eq_Some_conv key split: if_splits)
    have "item_ok it" using bm_inv_item [OF inv t(1)] by (simp add: item_inv_def)
    with with_ledger_info_ids [OF t(2)] decided_ok [OF _ d t(2)]
      replaced_moved [OF inv t(1,3) _ _ c(2) refl refl] t show ?thesis by simp
  qed
qed


lemma rebroadcast_loop_moved:
  assumes "rebroadcast_loop now c bm = Some y" "bm_inv bm xs"
  shows "moved xs (fst y) (snd y)"
proof -
  have "\<forall>xs. bm_inv bm xs \<longrightarrow> moved xs (fst y) (snd y)"
    using assms(1)
  proof (induct rule: rebroadcast_loop.raw_induct [rotated, consumes 1, case_names step])
    case (step loop now c bm y)
    note IH = step(1) and body = step(2)
    show ?case
    proof (intro allI impI)
      fix xs assume inv: "bm_inv bm xs"
      have keep: "caches_ok bm" using inv by (simp add: bm_inv_def)
      show "moved xs (fst y) (snd y)"
      proof (cases c)
        case None
        with body inv show ?thesis by (auto simp: moved_refl)
      next
        case (Some k)
        then obtain it b1 where t: "buf_take (Some k) (bm_buffer bm) = Some (it, b1)"
          using body by (auto simp: bind_eq_Some_conv)
        note it = bm_inv_item [OF inv t]
        note same = bm_replace_moved [OF inv t _ refl it keep refl refl, of _ "[]"]
        show ?thesis
        proof (cases it)
          case (ItemSigned g)
          obtain rs h where rs: "do_reliable_broadcast now (gi_commit_vote g) bm = (rs, h)" by fastforce
          let ?new = "ItemSigned (g\<lparr>gi_rb_handle := h\<rparr>)"
          have new: "map pb_id (get_blocks ?new) = map pb_id (get_blocks it)" "item_inv ?new"
            using it handle_ok [of g h] by (auto simp: ItemSigned item_inv_def item_defs)
          have q: "quiet rs" using rs by (auto simp: do_reliable_broadcast_def split: if_splits)
          show ?thesis
          proof (cases "case gi_rb_handle g of None \<Rightarrow> True | Some start_time \<Rightarrow> now - start_time \<ge> COMMIT_VOTE_REBROADCAST_INTERVAL_MS * 1000000")
            case True
            then obtain b2 c' more bm2 where s: "buf_set (Some k) ?new b1 = Some b2"
              "loop now c' (bm\<lparr>bm_buffer := b2\<rparr>) = Some (more, bm2)" "y = (rs @ more, bm2)"
              using body Some t ItemSigned rs by (auto simp: bind_eq_Some_conv)
            show ?thesis unfolding s(3) fst_conv snd_conv
              by (rule moved_trans [OF bm_replace_moved [OF inv t s(1) new keep refl refl q]]) (use IH [OF s(2)] in simp)
          next
            case False
            then obtain b2 c' where s: "buf_set (Some k) it b1 = Some b2" "loop now c' (bm\<lparr>bm_buffer := b2\<rparr>) = Some y"
              using body Some t ItemSigned by (auto simp: bind_eq_Some_conv)
            have "moved xs ([] @ fst y) (snd y)"
              by (rule moved_trans [OF same [OF s(1) quiet_simps(1)]]) (use IH [OF s(2)] in simp)
            then show ?thesis by simp
          qed
        qed (use body Some t same in \<open>auto simp: bind_eq_Some_conv\<close>)
      qed
    qed
  qed
  with assms(2) show ?thesis by blast
qed


definition good_message :: "commit_message \<Rightarrow> bool" where
  "good_message msg =
     (case msg of CommitVote v \<Rightarrow> good_vote v | CommitDecision d \<Rightarrow> good_proof (cd_ledger_info d) | _ \<Rightarrow> True)"

definition good_event :: "bm_event \<Rightarrow> bool" where
  "good_event ev = (case ev of CommitMessageIn msg \<Rightarrow> is_ok (cm_verify L vv msg) \<longrightarrow> good_message msg | _ \<Rightarrow> True)"

lemma process_commit_message_moved:
  assumes "process_commit_message L msg bm = Some (reqs, agg, bm')" "bm_inv bm xs" "good_message msg"
  shows "quiet reqs \<and> aggregated_moved xs agg bm'"
proof (cases msg)
  case (CommitVote v)
  with assms process_vote_moved [of v bm reqs agg bm' xs] show ?thesis by (simp add: good_message_def)
next
  case (CommitDecision d)
  with assms process_decision_moved [of d bm reqs agg bm' xs] show ?thesis by (simp add: good_message_def)
qed (use assms in \<open>auto simp: process_commit_message_def aggregated_moved_def moved_refl\<close>)

lemma moved_quiet: "bm_inv bm xs \<Longrightarrow> quiet reqs \<Longrightarrow> moved xs reqs bm"
  by (rule moved_same) simp_all

lemma moved_quiet_left:
  assumes "quiet reqs" "moved xs reqs' bm"
  shows "moved xs (reqs @ reqs') bm"
  using assms(2) quiet_ok [OF assms(1)] unfolding moved_def by auto

lemma advance_signing_root_moved: "advance_signing_root bm = Some (reqs, bm') \<Longrightarrow> bm_inv bm xs \<Longrightarrow> moved xs reqs bm'"
  by (blast intro: moved_quiet dest: advance_signing_root_inv)

lemma retry_schedule_quiet: "retry_schedule_phase bm = Some reqs \<Longrightarrow> quiet reqs"
proof -
  have "quiet reqs" if "retry_schedule_loop b c = Some reqs" for b c reqs
    using that
  proof (induct rule: retry_schedule_loop.raw_induct [rotated, consumes 1, case_names step])
    case (step loop b c reqs)
    then show ?case by (cases c) (auto simp: bind_eq_Some_conv)
  qed
  then show "retry_schedule_phase bm = Some reqs \<Longrightarrow> quiet reqs" by (simp add: retry_schedule_phase_def)
qed

lemma advance_roots_moved: "advance_roots_if_none bm = Some (reqs, bm') \<Longrightarrow> bm_inv bm xs \<Longrightarrow> moved xs reqs bm'"
  by (auto simp: advance_roots_if_none_def bind_eq_Some_conv moved_refl
      intro: advance_signing_root_moved moved_refl advance_execution_root_inv split: if_splits)

lemma wait_response_moved:
  assumes "bm_handle L now (WaitResponse block_id inner) m bm = Some (reqs, bm')" "bm_inv bm xs"
  shows "moved xs reqs bm'"
proof -
  obtain r1 bm1 retry bm2 r2 where s: "process_execution_response L now block_id inner m bm = Some (r1, bm1)"
    "advance_execution_root bm1 = Some (retry, bm2)"
    "(if bm_signing_root bm2 = None then advance_signing_root bm2 else Some ([], bm2)) = Some (r2, bm')"
    "reqs = r1 @ (if retry = Some block_id then [ScheduleRetry] else []) @ r2"
    using assms(1) by (auto simp: bm_handle_def bind_eq_Some_conv)
  have m2: "moved ys r2 bm'" if "bm_inv bm2 ys" for ys
    using s(3) that by (auto intro: advance_signing_root_moved moved_refl split: if_splits)
  show ?thesis unfolding s(4)
  proof (rule moved_trans [OF process_execution_response_moved [OF s(1) assms(2)]])
    fix ys assume "bm_inv bm1 ys"
    then have "moved ys r2 bm'" using m2 advance_execution_root_inv [OF s(2)] by blast
    then show "moved ys ((if retry = Some block_id then [ScheduleRetry] else []) @ r2) bm'"
      by (intro moved_quiet_left) simp_all
  qed
qed

lemma commit_message_moved:
  assumes "bm_handle L now (CommitMessageIn msg) m bm = Some (reqs, bm')" "bm_inv bm xs" "good_event (CommitMessageIn msg)"
  shows "moved xs reqs bm'"
proof (cases "is_ok (cm_verify L vv msg)")
  case False
  with assms show ?thesis by (auto simp: bm_handle_def bind_eq_Some_conv bm_inv_def moved_refl)
next
  case True
  have "es_verifier (bm_epoch_state bm) = vv" using assms(2) by (simp add: bm_inv_def)
  with True assms(1) obtain r1 agg bm1 where p: "process_commit_message L msg bm = Some (r1, agg, bm1)"
    and rest: "(case agg of None \<Rightarrow> Some (r1, bm1)
       | Some k \<Rightarrow> Option.bind (advance_head now k bm1) (\<lambda>(r2, bm2).
           map_option (apfst (\<lambda>r3. r1 @ r2 @ r3)) (advance_roots_if_none bm2))) = Some (reqs, bm')"
    by (auto simp: bm_handle_def bind_eq_Some_conv)
  have am: "quiet r1" "aggregated_moved xs agg bm1"
    using process_commit_message_moved [OF p assms(2)] assms(3) True by (auto simp: good_event_def)
  show ?thesis
  proof (cases agg)
    case None
    with rest am show ?thesis using moved_quiet_left [OF am(1), of xs "[]"] by (simp add: aggregated_moved_def)
  next
    case (Some k)
    with rest obtain r2 bm2 r3 where s: "advance_head now k bm1 = Some (r2, bm2)" "advance_roots_if_none bm2 = Some (r3, bm')"
      "reqs = r1 @ r2 @ r3" by (auto simp: bind_eq_Some_conv)
    have "moved xs r2 bm2" using am(2) s(1) Some by (simp add: aggregated_moved_def)
    then have "moved xs (r2 @ r3) bm'" by (rule moved_trans) (rule advance_roots_moved [OF s(2)])
    then show ?thesis unfolding s(3) by (rule moved_quiet_left [OF am(1)])
  qed
qed

lemma bm_handle_moved:
  assumes "bm_handle L now ev m bm = Some (reqs, bm')" "bm_inv bm xs" "good_event ev" "\<forall>obs. ev \<noteq> OrderedBlocksIn obs"
  shows "moved xs reqs bm'"
proof (cases ev)
  case (WaitResponse block_id inner)
  with assms wait_response_moved show ?thesis by blast
next
  case (CommitMessageIn msg)
  with assms commit_message_moved show ?thesis by blast
next
  case RetryTick
  with assms show ?thesis by (auto simp: bm_handle_def bind_eq_Some_conv intro: moved_quiet retry_schedule_quiet)
next
  case (SigningResponse sr li)
  with assms(1) obtain r1 bm1 r2 where s: "process_signing_response now sr li bm = Some (r1, bm1)"
    "advance_signing_root bm1 = Some (r2, bm')" "reqs = r1 @ r2"
    by (auto simp: bm_handle_def bind_eq_Some_conv)
  show ?thesis unfolding s(3)
    by (rule moved_trans [OF process_signing_response_moved [OF s(1) assms(2)]]) (rule advance_signing_root_moved [OF s(2)])
next
  case (PersistResponse result)
  have c: "caches_ok bm" using assms(2) by (simp add: bm_inv_def)
  have e: "reqs = []" "bm' = (case result of
       Inr round \<Rightarrow> bm\<lparr>bm_commit_vote_cache := filter (\<lambda>(rnd, _). rnd > round) (bm_commit_vote_cache bm),
                      bm_highest_committed_round := round\<rparr>
     | Inl _ \<Rightarrow> bm)"
    using assms(1) PersistResponse by (auto simp: bm_handle_def bind_eq_Some_conv)
  have "caches_ok bm'" using c by (auto simp: e(2) caches_ok_def split: sum.split)
  then have "bm_inv bm' xs" using assms(2) by (simp add: bm_inv_def e(2) split: sum.split)
  then show ?thesis by (simp add: e(1) moved_refl)
next
  case IntervalTick
  with assms(1,2) show ?thesis
    by (auto simp: bm_handle_def bind_eq_Some_conv rebroadcast_commit_votes_if_needed_def moved_refl
        dest: rebroadcast_loop_moved split: if_splits)
qed (use assms in \<open>auto simp: bm_handle_def bind_eq_Some_conv process_execution_schedule_response_def intro: moved_quiet moved_refl\<close>)

end


declare find_elem_loop.simps [code] advance_head_loop.simps [code]

lemma quiet_ok_ids: "quiet reqs \<Longrightarrow> persisted_ids reqs = []"
  by (induction reqs) (auto simp: quiet_def persisted_ids_def split: bm_request.splits)

context item_contract
begin

lemma ordered_blocks_step:
  assumes "bm_handle L now (OrderedBlocksIn obs) m bm = Some (reqs, bm')" "bm_inv bm xs" "\<not> bm_stop bm"
    "distinct (items_ids xs @ admitted (OrderedBlocksIn obs) bm)"
  shows "\<exists>xs'. bm_inv bm' xs' \<and> items_ids xs' = items_ids xs @ admitted (OrderedBlocksIn obs) bm \<and> quiet reqs"
proof (cases "need_backpressure bm = Some False")
  case False
  with assms show ?thesis by (auto simp: bm_handle_def bind_eq_Some_conv admitted_def split: if_splits)
next
  case True
  let ?bm = "\<lambda>r. bm\<lparr>bm_latest_round := r\<rparr>"
  have adm: "admitted (OrderedBlocksIn obs) bm = map pb_id (ob_ordered_blocks obs)" using True assms(3) by (simp add: admitted_def)
  obtain r bm1 where s: "ob_latest_round obs = Some r" "process_ordered_blocks L obs (?bm r) = Some (reqs, bm1)"
    "bm' = bm1 \<or> (\<exists>c. advance_execution_root bm1 = Some (c, bm'))"
    using assms(1) True by (auto simp: bm_handle_def bind_eq_Some_conv split: if_splits)
  obtain k where k: "last_opt (map pb_id (ob_ordered_blocks obs)) = Some k"
    using s(1) by (auto simp: ob_latest_round_def last_opt_def split: if_splits)
  then have "k \<in> set (map pb_id (ob_ordered_blocks obs))" by (metis last_in_set last_opt_Some)
  moreover have "fst ` set xs \<subseteq> set (items_ids xs)" using assms(2) items_rep_keys by (auto simp: bm_inv_def)
  ultimately have "k \<notin> fst ` set xs" using assms(4) by (auto simp: adm)
  from process_ordered_blocks_inv [OF s(2) bm_inv_roots(3) [OF assms(2)] k this] obtain it where
    it: "bm_inv bm1 (xs @ [(k, it)])" "map pb_id (get_blocks it) = map pb_id (ob_ordered_blocks obs)" "quiet reqs" by blast
  have "bm_inv bm' (xs @ [(k, it)])" using s(3) it(1) advance_execution_root_inv by blast
  then show ?thesis using it(2,3) by (intro exI [of _ "xs @ [(k, it)]"]) (simp add: adm)
qed

lemma bm_step_moved:
  assumes "bm_step L (now, ev) (bm, m) = Some (reqs, bm', m')" "bm_inv bm xs" "good_event ev"
    "\<forall>signal. ev \<noteq> ResetIn signal" "distinct (items_ids xs @ admitted ev bm)"
  shows "\<exists>xs'. bm_inv bm' xs' \<and> persisted_ids reqs @ items_ids xs' = items_ids xs @ admitted ev bm \<and> (\<forall>r \<in> set reqs. request_ok r)"
proof (cases "bm_stop bm")
  case True
  with assms(1) have "reqs = []" "bm' = bm" by (simp_all add: bm_step_def)
  moreover have "admitted ev bm = []" using True by (cases ev) (simp_all add: admitted_def)
  ultimately show ?thesis using assms(2) by auto
next
  case False
  have h: "bm_handle L now ev m bm = Some (reqs, bm')"
    using assms(1,4) False by (cases ev) (auto simp: bm_step_def)
  show ?thesis
  proof (cases "\<exists>obs. ev = OrderedBlocksIn obs")
    case True
    then obtain obs where ev: "ev = OrderedBlocksIn obs" by blast
    from ordered_blocks_step [OF h [unfolded ev] assms(2) False] assms(5) ev obtain xs' where
      "bm_inv bm' xs'" "items_ids xs' = items_ids xs @ admitted ev bm" "quiet reqs" by blast
    with quiet_ok [of reqs] show ?thesis by (intro exI [of _ xs']) simp
  next
    case no: False
    then have "admitted ev bm = []" by (cases ev) (auto simp: admitted_def)
    moreover have "moved xs reqs bm'" using bm_handle_moved [OF h assms(2,3)] no by blast
    ultimately show ?thesis by (auto simp: moved_def)
  qed
qed

lemma bm_run_moved:
  assumes "conc_run (bm_step L) evs (bm, m) = Some (outs, bm', m')" "bm_inv bm xs" "\<forall>ev \<in> snd ` set evs. good_event ev"
    "\<forall>signal. ResetIn signal \<notin> snd ` set evs" "distinct (items_ids xs @ admitted_run L evs (bm, m))"
  shows "\<exists>xs'. bm_inv bm' xs' \<and> persisted_ids (concat outs) @ items_ids xs' = items_ids xs @ admitted_run L evs (bm, m) \<and>
    (\<forall>r \<in> set (concat outs). request_ok r)"
  using assms
proof (induction evs arbitrary: bm m outs xs)
  case (Cons e evs)
  obtain now ev where e: "e = (now, ev)" by (cases e)
  obtain reqs bm1 m1 outs1 where s: "bm_step L (now, ev) (bm, m) = Some (reqs, bm1, m1)"
    "conc_run (bm_step L) evs (bm1, m1) = Some (outs1, bm', m')" "outs = reqs # outs1"
    using Cons.prems(1) by (auto simp: e bind_eq_Some_conv)
  have adm: "admitted_run L (e # evs) (bm, m) = admitted ev bm @ admitted_run L evs (bm1, m1)" by (simp add: e s(1))
  have d: "distinct (items_ids xs @ admitted ev bm)" using Cons.prems(5) unfolding adm by auto
  have g: "good_event ev" "\<forall>signal. ev \<noteq> ResetIn signal" using Cons.prems(3,4) by (auto simp: e)
  obtain xs1 where x1: "bm_inv bm1 xs1" "persisted_ids reqs @ items_ids xs1 = items_ids xs @ admitted ev bm"
    "\<forall>r \<in> set reqs. request_ok r" using bm_step_moved [OF s(1) Cons.prems(2) g d] by blast
  have "persisted_ids reqs @ items_ids xs1 @ admitted_run L evs (bm1, m1) = items_ids xs @ admitted_run L (e # evs) (bm, m)"
    unfolding adm append_assoc [symmetric] x1(2) by simp
  then have "distinct (persisted_ids reqs @ items_ids xs1 @ admitted_run L evs (bm1, m1))" using Cons.prems(5) by argo
  then have d1: "distinct (items_ids xs1 @ admitted_run L evs (bm1, m1))" by simp
  have g1: "\<forall>ev \<in> snd ` set evs. good_event ev" "\<forall>signal. ResetIn signal \<notin> snd ` set evs" using Cons.prems(3,4) by auto
  from Cons.IH [OF s(2) x1(1) g1 d1] obtain xs2 where x2: "bm_inv bm' xs2"
    "persisted_ids (concat outs1) @ items_ids xs2 = items_ids xs1 @ admitted_run L evs (bm1, m1)"
    "\<forall>r \<in> set (concat outs1). request_ok r" by blast
  have "persisted_ids (concat outs) @ items_ids xs2 = items_ids xs @ admitted_run L (e # evs) (bm, m)"
    unfolding adm s(3) concat.simps persisted_ids_simps append_assoc x2(2) unfolding append_assoc [symmetric] x1(2) by simp
  moreover have "\<forall>r \<in> set (concat outs). request_ok r" using x1(3) x2(3) by (auto simp: s(3))
  ultimately show ?case using x2(1) by blast
qed auto

end

section \<open>Persisted blocks\<close>

text \<open>
  The order of blocks asks nothing of the items; that proofs verify rests on the documented
  behaviour of the validator set and on votes over well-formed ledger infos.
\<close>

interpretation ordering: item_contract L vv ov "\<lambda>_. True" "\<lambda>_. True" "\<lambda>_. True" "\<lambda>_ _. True"
  for L vv ov by unfold_locales simp_all

definition pipeline_laws :: "laptos \<Rightarrow> validator_verifier \<Rightarrow> bool" where
  "pipeline_laws L vv \<longleftrightarrow> partial_signatures_map L \<and> change_timestamp_spec L \<and> aggregate_spec L vv \<and>
     (\<forall>t. x_consensus_alpha_active L t)"

definition vote_ok :: "laptos \<Rightarrow> validator_verifier \<Rightarrow> commit_vote \<Rightarrow> bool" where
  "vote_ok L vv v \<longleftrightarrow> cv_verify L vv v = Inr () \<and> cv_ledger_info v = commit_li L (cv_commit_info v)"

definition certifies :: "laptos \<Rightarrow> validator_verifier \<Rightarrow> pipelined_block list \<Rightarrow> li_with_sigs \<Rightarrow> bool" where
  "certifies L vv bs p \<longleftrightarrow> bs \<noteq> [] \<and> x_verify_signatures L vv p \<and> bi_id (lws_commit_info p) = pb_id (last bs)"

lemma certified_request:
  "proof_ok L vv (ItemAggregated ag) \<Longrightarrow> certifies L vv (bs @ ai_executed_blocks ag) (ai_commit_proof ag)"
  by (auto simp: certifies_def proof_ok_def item_block_id_def get_blocks_def last_opt_def split: if_splits)

lemma proof_ok_handle: "proof_ok L vv (ItemSigned g) \<Longrightarrow> proof_ok L vv (ItemSigned (g\<lparr>gi_rb_handle := h\<rparr>))"
  by (simp add: proof_ok_def item_block_id_def get_blocks_def)

interpretation certified: item_contract L vv True "\<lambda>it. pipeline_laws L vv \<longrightarrow> proof_ok L vv it" "vote_ok L vv"
    "x_verify_signatures L vv" "\<lambda>bs p. pipeline_laws L vv \<longrightarrow> certifies L vv bs p"
  for L vv
proof (unfold_locales, goal_cases)
  case (1 bs p c)
  show ?case by (simp add: proof_ok_def item_new_ordered_def)
next
  case (2 it v)
  then show ?case by (auto simp: pipeline_laws_def vote_ok_def intro: add_signature_proof_ok)
next
  case (3 it bs ts ebi it')
  then show ?case by (auto simp: pipeline_laws_def intro: advance_to_executed_proof_ok)
next
  case (4 it a sig it')
  then show ?case by (auto intro: advance_to_signed_proof_ok)
next
  case (5 g h)
  then show ?case by (auto intro: proof_ok_handle)
next
  case (6 it p it')
  then show ?case by (auto intro: with_ledger_info_proof_ok)
next
  case (7 it it')
  then show ?case by (auto simp: pipeline_laws_def intro: try_advance_proof_ok)
next
  case (8 ag k bs)
  then show ?case by (auto intro: certified_request)
qed

lemma bm_new_sel [simp]:
  "bm_buffer (bm_new a es ov hcr ob pub mpr now) = buf_new" "bm_epoch_state (bm_new a es ov hcr ob pub mpr now) = es"
  "bm_order_vote_enabled (bm_new a es ov hcr ob pub mpr now) = ov" "bm_commit_vote_cache (bm_new a es ov hcr ob pub mpr now) = []"
  "bm_pending_commit_proofs (bm_new a es ov hcr ob pub mpr now) = []" "bm_stop (bm_new a es ov hcr ob pub mpr now) = False"
  by (simp_all add: bm_new_def)

lemma items_rep_new: "items_rep buf_new []"
  using buf_rep_new by (simp add: items_rep_def)

text \<open>
  C31. Blocks are persisted in the order in which they were ordered, none left out and none twice. In
  a run of the buffer manager without a reset that admits no block twice, the blocks that were
  handed to the persisting phase, followed by those that are still in the buffer, are exactly the
  blocks that were admitted, in the same order, whatever votes, decisions, execution results and
  failures arrive in whatever order. No aggregated item is left in the buffer between two messages.
\<close>

theorem persisted_in_order:
  assumes "conc_run (bm_step L) evs (bm_new author es ov hcr observer publisher mpr now, m) = Some (outs, bm', m')"
    and "\<forall>signal. ResetIn signal \<notin> snd ` set evs"
    and "distinct (admitted_run L evs (bm_new author es ov hcr observer publisher mpr now, m))"
  shows "\<exists>xs. items_rep (bm_buffer bm') xs \<and>
    persisted_ids (concat outs) @ items_ids xs = admitted_run L evs (bm_new author es ov hcr observer publisher mpr now, m) \<and>
    (\<forall>it \<in> snd ` set xs. \<not> is_aggregated it)"
proof -
  have inv: "ordering.bm_inv (es_verifier es) ov (bm_new author es ov hcr observer publisher mpr now) []"
    by (simp add: ordering.bm_inv_def ordering.caches_ok_def items_rep_new)
  have good: "\<forall>ev \<in> snd ` set evs. ordering.good_event L (es_verifier es) ev"
    by (simp add: ordering.good_event_def ordering.good_message_def split: bm_event.split commit_message.split)
  from ordering.bm_run_moved [OF assms(1) inv good assms(2)] assms(3) show ?thesis
    by (auto simp: ordering.bm_inv_def ordering.item_inv_def)
qed


definition ex_pblock :: "nat \<Rightarrow> u64 \<Rightarrow> pipelined_block" where
  "ex_pblock i r =
     pb_new \<lparr>bk_id = i,
        bk_block_data = \<lparr>bd_epoch = 1, bd_round = r, bd_timestamp_usecs = 0, bd_quorum_cert = ex_qc 1 0 0 3,
                         bd_block_type = NilBlock []\<rparr>,
        bk_signature = None, bk_block_number = Some r\<rparr> [] (with_root_hash (i + 7))"

definition ex_commit_vote :: "nat \<Rightarrow> u64 \<Rightarrow> commit_vote" where
  "ex_commit_vote i r =
     \<lparr>cv_author = 0, cv_ledger_info = commit_li example_laptos (pb_block_info (ex_pblock i r)), cv_signature = 1\<rparr>"

definition ex_ordered :: "pipelined_block list \<Rightarrow> ordered_blocks" where
  "ex_ordered bs = \<lparr>ob_ordered_blocks = bs,
     ob_ordered_proof =
       \<lparr>lws_ledger_info = \<lparr>li_commit_info = pb_block_info (last bs), li_consensus_data_hash = 0, li_block = None\<rparr>,
        lws_signatures = 1\<rparr>,
     ob_callback = 0\<rparr>"

definition ex_bm :: "buffer_manager \<times> block_buffer" where
  "ex_bm = (bm_new 0 \<lparr>es_epoch = 1, es_verifier = 1\<rparr> True 0 False False 100 0, bb_new buffer_config_default)"

definition ex_events :: "(int \<times> bm_event) list" where
  "ex_events = map (Pair 0)
     [OrderedBlocksIn (ex_ordered [ex_pblock 1 1, ex_pblock 2 2]), OrderedBlocksIn (ex_ordered [ex_pblock 3 3]),
      OrderedBlocksIn (ex_ordered [ex_pblock 4 4]),
      WaitResponse 2 (Inr [ex_pblock 1 1, ex_pblock 2 2]), WaitResponse 3 (Inr [ex_pblock 3 3]),
      CommitMessageIn (CommitVote (ex_commit_vote 3 3))]"

lemma ex_run: "map_option (\<lambda>(outs, _). map persisted_ids outs) (conc_run (bm_step example_laptos) ex_events ex_bm) =
    Some [[], [], [], [], [], [1, 2, 3]]"
  by code_simp

lemma ex_admitted: "admitted_run example_laptos ex_events ex_bm = [1, 2, 3, 4]"
  by code_simp

lemma ex_run_Some:
  obtains outs bm m where "conc_run (bm_step example_laptos) ex_events ex_bm = Some (outs, bm, m)"
    "persisted_ids (concat outs) = [1, 2, 3]"
proof -
  obtain outs bm m where r: "conc_run (bm_step example_laptos) ex_events ex_bm = Some (outs, bm, m)"
    "map persisted_ids outs = [[], [], [], [], [], [1, 2, 3]]" using ex_run by (auto split: prod.splits)
  have "persisted_ids (concat outs) = concat (map persisted_ids outs)" by (induction outs) simp_all
  then show ?thesis using r that by simp
qed

lemma ex_no_reset: "\<forall>signal. ResetIn signal \<notin> snd ` set ex_events"
  by (simp add: ex_events_def)

theorem persisted_in_order_witness:
  "\<exists>outs bm m xs. conc_run (bm_step example_laptos) ex_events ex_bm = Some (outs, bm, m) \<and>
     persisted_ids (concat outs) = [1, 2, 3] \<and> items_rep (bm_buffer bm) xs \<and> items_ids xs = [4]"
proof -
  obtain outs bm m where r: "conc_run (bm_step example_laptos) ex_events ex_bm = Some (outs, bm, m)"
    "persisted_ids (concat outs) = [1, 2, 3]" by (rule ex_run_Some)
  have "distinct (admitted_run example_laptos ex_events ex_bm)" unfolding ex_admitted by simp
  from persisted_in_order [OF r(1) [unfolded ex_bm_def] ex_no_reset this [unfolded ex_bm_def]] r
  show ?thesis unfolding ex_admitted [unfolded ex_bm_def] by auto
qed

lemma pipeline_laws_ex: "pipeline_laws example_laptos 1"
  by (auto simp: pipeline_laws_def partial_signatures_map_ex change_timestamp_spec_def aggregate_spec_def
      ex_check_voting_power_def ex_quorum_def Let_def Suc_le_eq split: if_splits)


end
