(* ===== verification/Spec2Isabelle.thy ===== *)
theory Spec2Isabelle
  imports Agreement Round_State Proposer_Election Block_Tree_Facts Block_Buffer_Facts Buffer_Manager_Facts
begin

text \<open>
  A model of the consensus of Liquent and the theorems that make it correct.

  \<^bold>\<open>The program.\<close> Liquent orders blocks of transactions with a two-chain variant of Jolteon/AptosBFT
  and has them executed by a separate execution layer. A validator votes on proposals of the
  current leader; a quorum of votes is a quorum certificate, a quorum of timeouts a timeout
  certificate, and a quorum of order votes a certificate that orders a block. Ordered blocks go
  through a pipeline: they are executed, the result is signed, commit votes are collected, and the
  committed prefix is persisted. The parts are, with the directory of the repository that holds them:

  \<^item> the data types and their checks (aptos-core/consensus/consensus-types/src): votes,
    certificates, blocks, payloads, the messages of a round;
  \<^item> the safety rules and their storage (aptos-core/consensus/safety-rules/src), which alone hold
    the key of a validator and decide what it signs;
  \<^item> the round logic (aptos-core/consensus/src): pending\_votes.rs, pending\_order\_votes.rs and
    qc\_aggregator.rs collect votes, liveness/round\_state.rs is the pacemaker, the other files of
    liveness elect the proposer, block\_storage/block\_tree.rs keeps the tree of blocks;
  \<^item> the pipeline (aptos-core/consensus/src/pipeline) and the block buffer
    (crates/block-buffer-manager) between consensus and the execution layer.

  The round manager passes messages to these parts: a proposal goes through the checks of
  \<open>Blocks\<close> and \<open>Sync_Messages\<close> and the election, is stored in the block tree and given to the
  safety rules; votes are collected by \<open>Pending_Votes\<close>, whose certificates drive the pacemaker and
  the block tree; the ordered branch of the tree goes to the buffer manager, which reads and resets
  the block buffer.

  \<^bold>\<open>Conventions.\<close> A struct is a record, an enum a datatype, a function a HOL function of the same
  name (with a prefix where two types have a method of the same name: \<open>bk_\<close> for \<open>Block\<close>, \<open>qc_\<close> for
  \<open>QuorumCert\<close>, \<open>pss_\<close> for \<open>PersistentSafetyStorage\<close>, \<open>bm_\<close> for \<open>BufferManager\<close>, and so on). \<open>u64\<close>
  and \<open>u128\<close> are words; sums and differences are checked, as the release profile of the workspace
  checks them, and overflow is a panic. A panic is \<open>None\<close>; a \<open>Result\<close> is \<open>error + value\<close>. Methods on
  \<open>&mut self\<close> return the new state, also when they fail. A \<open>HashMap\<close> or \<open>BTreeMap\<close> is an association
  list, the latter sorted. Durations are nanoseconds (\<open>int\<close>), the clock is an argument. Loops that
  might not return are partial functions into \<open>option\<close>, and it is proved that they return; no
  definition uses fuel. Code of the crate \<open>laptos\<close> (cryptography, validator set, ledger-info helpers)
  is the parameter \<open>laptos\<close> of \<open>External_Interface\<close>; what a theorem needs of it is a named
  hypothesis, which the instance of \<open>Example_Instance\<close> satisfies.

  \<^bold>\<open>Theories.\<close>

  \<^item> \<open>Prelude\<close>: machine integers, results, maps as lists, runs of a machine, and the locales
    \<open>invariant_machine\<close> and \<open>monotone_machine\<close>. \<open>Data_Types\<close>: the structs and enums of
    consensus-types. \<open>External_Interface\<close>, \<open>Example_Instance\<close>: the crate \<open>laptos\<close>.
  \<^item> \<open>Certificates\<close>: vote\_data.rs, quorum\_cert.rs, timeout\_2chain.rs, vote.rs, order\_vote.rs,
    wrapped\_ledger\_info.rs. What a certificate that passes its check guarantees.
  \<^item> \<open>Blocks\<close>: payload.rs, common.rs, proof\_of\_store.rs, block\_data.rs, block.rs,
    vote\_proposal.rs. Verification of payloads with the proof cache is sound; the nil blocks that a
    validator builds are well formed for every other validator.
  \<^item> \<open>Sync_Messages\<close>: sync\_info.rs, proposal\_msg.rs, vote\_msg.rs, order\_vote\_msg.rs. Rounds and
    epochs of verified messages.
  \<^item> \<open>Safety_Storage\<close>: persistent\_safety\_storage.rs over a parametric key-value store. What is
    written is read back after a restart; with the cache switched off every read fails.
  \<^item> \<open>Safety_Rules\<close>, \<open>Safety_Rules_Facts\<close>: safety\_rules.rs and safety\_rules\_2chain.rs, every
    operation as a step (\<open>sr_step\<close>). One vote per round; the safety data never go back; timeouts and
    order votes of a validator do not contradict each other; refused requests change nothing.
  \<^item> \<open>Agreement\<close>: any number of validators, some of them arbitrary, the others running the safety
    rules with restarts. No two commit certificates of an epoch are on different branches.
  \<^item> \<open>Pending_Votes\<close>: votes of a round. The first vote of an author counts, formed certificates
    verify, no input makes it panic, a timeout is echoed once.
  \<^item> \<open>Round_State\<close>: the pacemaker. Rounds only increase, a timer is always set, the votes held are
    those of the current round, the arithmetic of deadlines does not overflow.
  \<^item> \<open>Proposer_Election\<close>: elections, the weighted choice, the cache and the filter for
    equivocating proposals. One proposal per round, proportional choice, a transparent cache, a fair
    rotation.
  \<^item> \<open>Pipelined_Block\<close>: pipelined\_block.rs and the executor types. \<open>Block_Tree\<close>,
    \<open>Block_Tree_Facts\<close>: block\_tree.rs. No operation panics, pruning removes exactly what it should,
    walks along parent links end and are right.
  \<^item> \<open>Block_Buffer\<close>, \<open>Block_Buffer_Facts\<close>: block\_buffer\_manager.rs. Results are final, ordered
    blocks are handed out without gaps, persist notifiers once, transactions in order, and an epoch
    change goes through.
  \<^item> \<open>Pipeline_Buffer\<close>: buffer.rs, a linked dictionary that refines a list (locale \<open>simulation\<close>).
    \<open>Buffer_Item\<close>: commit votes and decisions and buffer\_item.rs. \<open>Buffer_Manager\<close>,
    \<open>Buffer_Manager_Facts\<close>: buffer\_manager.rs, one round of its loop as a step (\<open>bm_step\<close>).

  \<^bold>\<open>Steps and interleaving.\<close> A component with state has a step function over a datatype of its
  operations or events, and the theorems are about all sequences of steps, so about every order in
  which callers and messages can arrive. The block buffer locks its state once per attempt of a
  method, and the buffer manager handles one message at a time; each attempt or message is one step.
  A restart of the safety rules is a step that keeps the store and loses everything else.

  \<^bold>\<open>Not modelled.\<close> The event loops of the round and epoch managers and the network code only pass
  messages between the modelled parts. Retrieval of missing blocks, recovery, the quorum store, the
  payload clients, the mempool and the consensus database are asynchronous input and output.
  Randomness and DAG consensus rest on cryptography and protocols of \<open>laptos\<close> that are not in this
  repository. The weights of leader reputation are computed from the database with floating-point
  settings. Serialization, metrics and logging are left out everywhere; the floating-point length
  of a round is a parameter of the pacemaker.
\<close>

end
